(* ===== verification/GoPrelude.thy ===== *)
theory GoPrelude
  imports Main "HOL-Library.Word" "HOL-Library.Signed_Division" "HOL-Library.Multiset"
begin

text \<open>
  Shared vocabulary of the development: what the Go sources under src/ use of the language and of
  its standard library.

  \<^item> 64-bit integers (\<open>i64\<close>): Go's \<open>int\<close>, \<open>int64\<close> and \<open>time.Duration\<close> wrap around.
  \<^item> error values (\<open>go_error\<close>): \<open>errors.New\<close>, \<open>fmt.Errorf\<close> with \<open>%w\<close>, \<open>errors.Join\<close>,
    \<open>errors.Is\<close>. A nilable error is a \<open>go_error option\<close>, nil is \<open>None\<close>.
  \<^item> outcomes of a call: it returns, panics, or blocks for ever; actions that change a world.
  \<^item> contexts and channels over a clock in nanoseconds: a context carries the moment at which it
    is done and the error it then reports, a signal channel the moment at which it is closed; a
    two-way \<open>select\<close> takes the earlier event, and an oracle decides a tie as the Go runtime may.
  \<^item> decimal formatting.
  \<^item> reachability of a transition system and the locale of inductive invariants.
\<close>

named_theorems go_defs \<open>definitions that component proofs unfold\<close>
named_theorems err_simps \<open>facts about error values\<close>

section \<open>Machine integers\<close>

definition i64 :: "int \<Rightarrow> int" where
  "i64 x = sint (word_of_int x :: 64 word)"

lemma i64_signed_take_bit: "i64 x = signed_take_bit 63 x"
  by (simp add: i64_def sint_sbintrunc')

lemma i64_id [simp]: "- 9223372036854775808 \<le> x \<Longrightarrow> x < 9223372036854775808 \<Longrightarrow> i64 x = x"
  unfolding i64_signed_take_bit by (rule signed_take_bit_int_eq_self) simp_all

lemma i64_lower: "- 9223372036854775808 \<le> i64 x"
  using signed_take_bit_int_greater_eq_minus_exp [of 63 x] by (simp add: i64_signed_take_bit)

lemma i64_upper: "i64 x < 9223372036854775808"
  using signed_take_bit_int_less_exp [of 63 x] by (simp add: i64_signed_take_bit)

lemma i64_idem [simp]: "i64 (i64 x) = i64 x"
  by (rule i64_id [OF i64_lower i64_upper])

definition Millisecond :: int where "Millisecond = 1000000"
definition Second :: int where "Second = 1000000000"

lemmas time_units = Millisecond_def Second_def

section \<open>Error values\<close>

text \<open>
  \<open>errors.New\<close> allocates a fresh value, so identity and not the text decides \<open>errors.Is\<close>: a
  package-level error variable is a \<open>Sentinel\<close> with its qualified name, an error made at a call
  site that no code compares against is \<open>Anon\<close>.
\<close>

datatype errid = Anon | Sentinel string

datatype go_error =
    ErrorString errid string
  | WrapError string "go_error list"
  | JoinError "go_error list"

fun error_text :: "go_error \<Rightarrow> string" where
  "error_text (ErrorString i s) = s"
| "error_text (WrapError s es) = s"
| "error_text (JoinError []) = []"
| "error_text (JoinError [e]) = error_text e"
| "error_text (JoinError (e # e' # es)) =
     error_text e @ CHR 0x0A # error_text (JoinError (e' # es))"

fun errors_Is :: "go_error \<Rightarrow> string \<Rightarrow> bool" where
  "errors_Is (ErrorString i s) t = (i = Sentinel t)"
| "errors_Is (WrapError s es) t = list_ex (\<lambda>e. errors_Is e t) es"
| "errors_Is (JoinError es) t = list_ex (\<lambda>e. errors_Is e t) es"

definition err_is :: "go_error option \<Rightarrow> string \<Rightarrow> bool" where
  "err_is e t = (case e of None \<Rightarrow> False | Some x \<Rightarrow> errors_Is x t)"

lemma err_is_simps [simp, err_simps]:
  "err_is None t = False" "err_is (Some x) t = errors_Is x t"
  by (simp_all add: err_is_def)

definition errors_New :: "string \<Rightarrow> go_error" where
  "errors_New s = ErrorString Anon s"

text \<open>\<open>fmt.Errorf\<close> of a prefix, \<open>": "\<close> and one \<open>%w\<close> operand at the end.\<close>

definition wrapf :: "string \<Rightarrow> go_error \<Rightarrow> go_error" where
  "wrapf p e = WrapError (p @ '': '' @ error_text e) [e]"

lemma errors_Is_wrapf [simp, err_simps]: "errors_Is (wrapf p e) t = errors_Is e t"
  by (simp add: wrapf_def)

lemma errors_Is_New [simp, err_simps]: "\<not> errors_Is (errors_New s) t"
  by (simp add: errors_New_def)

lemma error_text_wrapf [simp]: "error_text (wrapf p e) = p @ '': '' @ error_text e"
  by (simp add: wrapf_def)

lemma error_text_New [simp]: "error_text (errors_New s) = s"
  by (simp add: errors_New_def)

text \<open>\<open>errors.Join\<close> drops nil errors and is nil when none is left.\<close>

definition errors_Join :: "go_error option list \<Rightarrow> go_error option" where
  "errors_Join es =
     (let xs = List.map_filter id es in if xs = [] then None else Some (JoinError xs))"

lemma map_filter_id_Some [simp]: "List.map_filter id (map Some xs) = xs"
  by (induction xs) (simp_all add: List.map_filter_def)

lemma errors_Join_Some [simp, err_simps]:
  "errors_Join (map Some xs) = (if xs = [] then None else Some (JoinError xs))"
  by (simp add: errors_Join_def)

lemma errors_Join_None_iff: "errors_Join es = None \<longleftrightarrow> (\<forall>e\<in>set es. e = None)"
  by (induction es) (auto simp: errors_Join_def Let_def List.map_filter_def split: option.splits)

definition context_Canceled :: go_error where
  "context_Canceled = ErrorString (Sentinel ''context.Canceled'') ''context canceled''"

definition context_DeadlineExceeded :: go_error where
  "context_DeadlineExceeded =
     ErrorString (Sentinel ''context.DeadlineExceeded'') ''context deadline exceeded''"

section \<open>Outcomes of a call\<close>

datatype 'a outcome = Returned 'a | Panicked string | Blocked

text \<open>
  Code that changes a world \<open>'w\<close>: an action returns, panics or blocks, and leaves the world it
  reached. \<open>act_bind\<close> is sequencing: a panic or a blocked call skips what follows.
\<close>

type_synonym ('w, 'a) action = "'w \<Rightarrow> 'a outcome \<times> 'w"

definition act_ret :: "'a \<Rightarrow> ('w, 'a) action" where
  "act_ret a w = (Returned a, w)"

definition act_bind :: "('w, 'a) action \<Rightarrow> ('a \<Rightarrow> ('w, 'b) action) \<Rightarrow> ('w, 'b) action" where
  "act_bind m f w =
     (case m w of
        (Returned a, w') \<Rightarrow> f a w'
      | (Panicked p, w') \<Rightarrow> (Panicked p, w')
      | (Blocked, w') \<Rightarrow> (Blocked, w'))"

text \<open>A call that never panics, as an action.\<close>

definition act_call :: "('w \<Rightarrow> 'a \<times> 'w) \<Rightarrow> ('w, 'a) action" where
  "act_call f w = (case f w of (a, w') \<Rightarrow> (Returned a, w'))"

lemma act_ret_apply [simp]: "act_ret a w = (Returned a, w)"
  by (simp add: act_ret_def)

lemma act_bind_Returned [simp]: "m w = (Returned a, w') \<Longrightarrow> act_bind m f w = f a w'"
  by (simp add: act_bind_def)

lemma act_bind_ret [simp]: "act_bind (act_ret a) f = f a"
  by (simp add: act_bind_def fun_eq_iff)

lemma act_call_apply [simp]: "act_call f w = (Returned (fst (f w)), snd (f w))"
  by (simp add: act_call_def split: prod.splits)

lemma act_bind_Returned_iff:
  "act_bind m f w = (Returned b, w'') \<longleftrightarrow> (\<exists>a w'. m w = (Returned a, w') \<and> f a w' = (Returned b, w''))"
  by (auto simp: act_bind_def split: prod.splits outcome.splits)

section \<open>Contexts, signal channels and select\<close>

text \<open>
  \<open>ctx_done\<close> is the moment at which the context's Done channel closes and the error \<open>Err\<close> reports
  from then on (\<open>None\<close>: never). \<open>ctx_tx\<close> is the value stored under databasekit's \<open>txKey\<close>, the only
  context value the modelled code stores.
\<close>

record go_ctx =
  ctx_done :: "(int \<times> go_error) option"
  ctx_tx :: "nat option"

definition Background :: go_ctx where
  "Background = \<lparr>ctx_done = None, ctx_tx = None\<rparr>"

definition ctx_Err :: "go_ctx \<Rightarrow> int \<Rightarrow> go_error option" where
  "ctx_Err c now = (case ctx_done c of None \<Rightarrow> None | Some (t, e) \<Rightarrow> if t \<le> now then Some e else None)"

definition done_time :: "go_ctx \<Rightarrow> int option" where
  "done_time c = map_option fst (ctx_done c)"

lemma ctx_Err_mono: "ctx_Err c t = Some e \<Longrightarrow> t \<le> t' \<Longrightarrow> ctx_Err c t' = Some e"
  by (auto simp: ctx_Err_def split: option.splits if_splits)

lemma ctx_Err_done_time: "done_time c = Some d \<Longrightarrow> d \<le> t \<Longrightarrow> \<exists>e. ctx_Err c t = Some e"
  by (auto simp: ctx_Err_def done_time_def)

lemma ctx_Err_Background [simp]: "ctx_Err Background t = None"
  by (simp add: ctx_Err_def Background_def)

text \<open>\<open>context.WithTimeout\<close>: the child is done with its parent or at its own deadline, the earlier.\<close>

definition WithTimeout :: "go_ctx \<Rightarrow> int \<Rightarrow> int \<Rightarrow> go_ctx" where
  "WithTimeout c now d =
     (case ctx_done c of
        Some (t, e) \<Rightarrow> if t \<le> now + d then c
                      else c\<lparr>ctx_done := Some (now + d, context_DeadlineExceeded)\<rparr>
      | None \<Rightarrow> c\<lparr>ctx_done := Some (now + d, context_DeadlineExceeded)\<rparr>)"

lemma WithTimeout_parent_done:
  "ctx_Err c now = Some e \<Longrightarrow> 0 \<le> d \<Longrightarrow> ctx_Err (WithTimeout c now d) now = Some e"
  by (auto simp: ctx_Err_def WithTimeout_def split: option.splits if_splits)

lemma WithTimeout_deadline:
  "\<exists>t e. ctx_done (WithTimeout c now d) = Some (t, e) \<and> t \<le> now + d"
  by (auto simp: WithTimeout_def split: option.splits)

lemma WithTimeout_tx [simp]: "ctx_tx (WithTimeout c now d) = ctx_tx c"
  by (auto simp: WithTimeout_def split: option.splits)

text \<open>
  A select over two events that become ready at \<open>a\<close> and \<open>b\<close>, entered at \<open>now\<close>: the result says
  whether the first one was taken, and when; \<open>None\<close> when neither ever becomes ready.
\<close>

definition select2 :: "bool \<Rightarrow> int \<Rightarrow> int option \<Rightarrow> int option \<Rightarrow> (bool \<times> int) option" where
  "select2 pick now a b =
     (case (a, b) of
        (None, None) \<Rightarrow> None
      | (Some x, None) \<Rightarrow> Some (True, max now x)
      | (None, Some y) \<Rightarrow> Some (False, max now y)
      | (Some x, Some y) \<Rightarrow>
          if max now x < max now y then Some (True, max now x)
          else if max now y < max now x then Some (False, max now y)
          else Some (pick, max now x))"

lemma select2_time: "select2 p now a b = Some (c, t) \<Longrightarrow> now \<le> t"
  by (auto simp: select2_def split: option.splits if_splits)

lemma select2_first: "select2 p now a b = Some (True, t) \<Longrightarrow> \<exists>x. a = Some x \<and> x \<le> t \<and> t = max now x"
  by (auto simp: select2_def split: option.splits if_splits)

lemma select2_second: "select2 p now a b = Some (False, t) \<Longrightarrow> \<exists>y. b = Some y \<and> y \<le> t \<and> t = max now y"
  by (auto simp: select2_def split: option.splits if_splits)

lemma select2_None [simp]: "select2 p now a b = None \<longleftrightarrow> a = None \<and> b = None"
  by (auto simp: select2_def split: option.splits)

section \<open>Decimal formatting\<close>

definition digit_char :: "nat \<Rightarrow> char" where
  "digit_char d = char_of (48 + d)"

definition char_digit :: "char \<Rightarrow> nat" where
  "char_digit c = of_char c - 48"

fun show_nat :: "nat \<Rightarrow> string" where
  "show_nat n = (if n < 10 then [digit_char n] else show_nat (n div 10) @ [digit_char (n mod 10)])"

declare show_nat.simps [simp del]

definition read_nat :: "string \<Rightarrow> nat" where
  "read_nat s = foldl (\<lambda>a c. 10 * a + char_digit c) 0 s"

definition is_digit :: "char \<Rightarrow> bool" where
  "is_digit c = (48 \<le> (of_char c :: nat) \<and> (of_char c :: nat) \<le> 57)"

text \<open>The verb \<open>%d\<close>.\<close>

definition fmt_d :: "int \<Rightarrow> string" where
  "fmt_d i = (if i < 0 then CHR ''-'' # show_nat (nat (- i)) else show_nat (nat i))"

text \<open>Padding with zeros on the left, and a decimal fraction without its trailing zeros.\<close>

definition zero_pad :: "nat \<Rightarrow> nat \<Rightarrow> string" where
  "zero_pad k n = replicate (k - length (show_nat n)) (CHR ''0'') @ show_nat n"

definition fmtFrac :: "nat \<Rightarrow> nat \<Rightarrow> string" where
  "fmtFrac v prec =
     (let ds = rev (dropWhile (\<lambda>c. c = CHR ''0'') (rev (zero_pad prec v)))
      in if ds = [] then [] else CHR ''.'' # ds)"

lemma of_char_digit [simp]: "d < 10 \<Longrightarrow> of_char (digit_char d) = (48 + d :: nat)"
  by (simp add: digit_char_def)

lemma digit_char_values [simp]:
  "digit_char 0 = CHR ''0''" "digit_char (Suc 0) = CHR ''1''" "digit_char 1 = CHR ''1''"
  "digit_char 2 = CHR ''2''" "digit_char 3 = CHR ''3''" "digit_char 4 = CHR ''4''"
  "digit_char 5 = CHR ''5''" "digit_char 6 = CHR ''6''" "digit_char 7 = CHR ''7''"
  "digit_char 8 = CHR ''8''" "digit_char 9 = CHR ''9''"
  by (simp_all add: digit_char_def char_of_def bit_Suc_0_iff)

lemma char_digit_digit_char [simp]: "d < 10 \<Longrightarrow> char_digit (digit_char d) = d"
  by (simp add: char_digit_def)

lemma is_digit_digit_char [simp]: "d < 10 \<Longrightarrow> is_digit (digit_char d)"
  by (simp add: is_digit_def)

lemma read_show_nat [simp]: "read_nat (show_nat n) = n"
proof (induction n rule: show_nat.induct)
  case (1 n)
  then show ?case
    by (subst show_nat.simps) (auto simp: read_nat_def)
qed

lemma show_nat_digits: "c \<in> set (show_nat n) \<Longrightarrow> is_digit c"
proof (induction n rule: show_nat.induct)
  case (1 n)
  show ?case
  proof (cases "n < 10")
    case True
    with "1.prems" show ?thesis by (subst (asm) show_nat.simps) simp
  next
    case False
    with 1 show ?thesis by (subst (asm) (2) show_nat.simps) auto
  qed
qed

lemma show_nat_nonempty [simp]: "show_nat n \<noteq> []"
  by (subst show_nat.simps) simp

lemma show_nat_inject [simp]: "show_nat m = show_nat n \<longleftrightarrow> m = n"
  by (metis read_show_nat)

lemma minus_not_digit: "\<not> is_digit CHR ''-''"
  by (simp add: is_digit_def)

lemma show_nat_not_minus: "show_nat n \<noteq> CHR ''-'' # s"
  using show_nat_digits [of "CHR ''-''" n] minus_not_digit by auto

lemma fmt_d_inject [simp]: "fmt_d i = fmt_d j \<longleftrightarrow> i = j"
  using show_nat_not_minus show_nat_not_minus [symmetric] by (auto simp: fmt_d_def)

text \<open>
  \<open>strconv.ParseInt(s, 10, 64)\<close>; the errors are a syntax error and a range error (their full text,
  which quotes the input, is dropped by the callers).
\<close>

definition ParseInt :: "string \<Rightarrow> go_error + int" where
  "ParseInt s =
     (let (neg, ds) = (case s of c # cs \<Rightarrow> if c = CHR ''-'' then (True, cs) else if c = CHR ''+'' then (False, cs) else (False, s)
                                | [] \<Rightarrow> (False, []))
      in if ds = [] \<or> \<not> list_all is_digit ds then Inl (errors_New ''invalid syntax'')
         else
           let n = int (read_nat ds) in
           if neg then (if n > 2 ^ 63 then Inl (errors_New ''value out of range'') else Inr (- n))
           else (if n \<ge> 2 ^ 63 then Inl (errors_New ''value out of range'') else Inr n))"

lemma ParseInt_show_nat:
  "ParseInt (show_nat n) = (if int n < 2 ^ 63 then Inr (int n) else Inl (errors_New ''value out of range''))"
proof -
  obtain c cs where c: "show_nat n = c # cs" using show_nat_nonempty by (cases "show_nat n") auto
  have digits: "list_all is_digit (c # cs)" using c show_nat_digits by (metis list_all_iff)
  then have "c \<noteq> CHR ''-''" "c \<noteq> CHR ''+''" by (auto simp: is_digit_def)
  moreover have "read_nat (c # cs) = n" by (metis c read_show_nat)
  ultimately show ?thesis using digits by (simp add: ParseInt_def c not_less)
qed

lemma ParseInt_fmt_d:
  "ParseInt (fmt_d i) = (if - (2 ^ 63) \<le> i \<and> i < 2 ^ 63 then Inr i else Inl (errors_New ''value out of range''))"
proof (cases "i < 0")
  case True
  have "show_nat (nat (- i)) \<noteq> []" "list_all is_digit (show_nat (nat (- i)))"
    using show_nat_digits by (metis show_nat_nonempty) (metis list_all_iff show_nat_digits)
  with True show ?thesis by (simp add: ParseInt_def fmt_d_def not_less)
next
  case False
  then show ?thesis by (simp add: fmt_d_def ParseInt_show_nat)
qed

section \<open>Transition systems\<close>

inductive reach :: "('s \<Rightarrow> bool) \<Rightarrow> ('s \<Rightarrow> 's \<Rightarrow> bool) \<Rightarrow> 's \<Rightarrow> bool"
  for init :: "'s \<Rightarrow> bool" and step :: "'s \<Rightarrow> 's \<Rightarrow> bool" where
  reach_init: "init s \<Longrightarrow> reach init step s"
| reach_step: "reach init step s \<Longrightarrow> step s t \<Longrightarrow> reach init step t"

text \<open>
  An inductive invariant: it holds initially and every step keeps it. Each state machine of the
  development interprets this locale with its own initial states, steps and invariant.
\<close>

locale inductive_invariant =
  fixes init :: "'s \<Rightarrow> bool" and step :: "'s \<Rightarrow> 's \<Rightarrow> bool" and inv :: "'s \<Rightarrow> bool"
  assumes inv_init: "init s \<Longrightarrow> inv s"
    and inv_step: "inv s \<Longrightarrow> step s t \<Longrightarrow> inv t"
begin

lemma inv_reach: "reach init step s \<Longrightarrow> inv s"
  by (induction rule: reach.induct) (auto intro: inv_init inv_step)

lemma inv_steps: "inv s \<Longrightarrow> step\<^sup>*\<^sup>* s t \<Longrightarrow> inv t"
  by (rotate_tac, induction rule: rtranclp_induct) (auto intro: inv_step)

end

lemma reach_steps: "step\<^sup>*\<^sup>* s t \<Longrightarrow> reach init step s \<Longrightarrow> reach init step t"
  by (induction rule: rtranclp_induct) (auto intro: reach.reach_step)

end
