(* ===== verification/Retry.thy ===== *)
theory Retry
  imports GoPrelude
begin

text \<open>
  core/retry/retry.go: the retry loop with exponential backoff that RedisCache and PostgresDB use
  to connect. The attempted function is a parameter that takes the context, the clock and a
  state and returns its error, the clock after it and the new state. \<open>rand\<close> stands for
  \<open>crypto/rand.Int\<close> (the draw of the given attempt below a bound, \<open>None\<close> on its error), \<open>pick\<close>
  for the runtime's choice when the timer and the context become ready at the same moment.
\<close>

type_synonym 's attempt_fn = "go_ctx \<Rightarrow> int \<Rightarrow> 's \<Rightarrow> go_error option \<times> int \<times> 's"

section \<open>The delay before the next attempt\<close>

definition retry_backoff :: "int \<Rightarrow> nat \<Rightarrow> int" where
  "retry_backoff baseBackoff attempt = i64 (baseBackoff * i64 (2 ^ attempt))"

definition retry_jitter :: "int \<Rightarrow> int option \<Rightarrow> int" where
  "retry_jitter baseBackoff draw =
     (let half = i64 (baseBackoff sdiv 2) in
      if half > 0 then (case draw of Some n \<Rightarrow> n | None \<Rightarrow> 0) else 0)"

definition retry_delay :: "int \<Rightarrow> (nat \<Rightarrow> int \<Rightarrow> int option) \<Rightarrow> nat \<Rightarrow> int" where
  "retry_delay baseBackoff rand attempt =
     i64 (retry_backoff baseBackoff attempt
          + retry_jitter baseBackoff (rand attempt (i64 (baseBackoff sdiv 2))))"

section \<open>The loop\<close>

function retry_loop ::
  "go_ctx \<Rightarrow> int \<Rightarrow> int \<Rightarrow> 's attempt_fn \<Rightarrow> (nat \<Rightarrow> int \<Rightarrow> int option) \<Rightarrow> (nat \<Rightarrow> bool)
     \<Rightarrow> nat \<Rightarrow> int \<Rightarrow> 's \<Rightarrow> go_error option \<times> int \<times> 's" where
  "retry_loop ctx maxAttempts baseBackoff fn rand pick attempt now s =
     (if int attempt < maxAttempts then
        (case ctx_Err ctx now of
           Some e \<Rightarrow> (Some e, now, s)
         | None \<Rightarrow>
             (case fn ctx now s of (err, now1, s1) \<Rightarrow>
                if err = None then (None, now1, s1)
                else if int attempt = maxAttempts - 1 then (err, now1, s1)
                else
                  (case select2 (pick attempt) now1 (done_time ctx)
                          (Some (now1 + retry_delay baseBackoff rand attempt)) of
                     Some (True, t) \<Rightarrow> (ctx_Err ctx t, t, s1)
                   | Some (False, t) \<Rightarrow>
                       retry_loop ctx maxAttempts baseBackoff fn rand pick (Suc attempt) t s1
                   | None \<Rightarrow> (None, now1, s1))))
      else (None, now, s))"
  by pat_completeness auto
termination
  by (relation "measure (\<lambda>(ctx, m, b, fn, rand, pick, attempt, now, s). nat (m - int attempt))") auto

declare retry_loop.simps [simp del]

definition retry_Do ::
  "go_ctx \<Rightarrow> int \<Rightarrow> int \<Rightarrow> 's attempt_fn \<Rightarrow> (nat \<Rightarrow> int \<Rightarrow> int option) \<Rightarrow> (nat \<Rightarrow> bool)
     \<Rightarrow> int \<Rightarrow> 's \<Rightarrow> go_error option \<times> int \<times> 's" where
  "retry_Do ctx maxAttempts baseBackoff fn rand pick now s =
     (if maxAttempts \<le> 0
      then (Some (errors_New (''retry: maxAttempts must be positive, got '' @ fmt_d maxAttempts)), now, s)
      else retry_loop ctx maxAttempts baseBackoff fn rand pick 0 now s)"

section \<open>Observing the attempts\<close>

text \<open>
  \<open>logged fn\<close> is \<open>fn\<close> with the results of its calls appended to a list kept beside its state, so
  that a statement can speak about how often and with which results it was called.
\<close>

definition logged :: "'s attempt_fn \<Rightarrow> ('s \<times> go_error option list) attempt_fn" where
  "logged fn ctx now sl =
     (case fn ctx now (fst sl) of (err, t, s) \<Rightarrow> (err, t, s, snd sl @ [err]))"

definition attempts_ok ::
  "go_ctx \<Rightarrow> int \<Rightarrow> go_error option list \<Rightarrow> go_error option \<times> int \<times> 's \<times> go_error option list \<Rightarrow> bool" where
  "attempts_ok ctx maxAttempts log0 res =
     (case res of (r, t, s, log) \<Rightarrow>
        \<exists>new. log = log0 @ new \<and> int (length log) \<le> maxAttempts
          \<and> None \<notin> set (butlast new)
          \<and> (case r of
               None \<Rightarrow> new \<noteq> [] \<and> last new = None
             | Some e \<Rightarrow> (new \<noteq> [] \<and> last new = Some e \<and> int (length log) = maxAttempts)
                         \<or> (None \<notin> set new \<and> ctx_Err ctx t = Some e)))"

lemma select_ctx_err:
  "select2 p now (done_time ctx) b = Some (True, t) \<Longrightarrow> \<exists>e. ctx_Err ctx t = Some e"
  by (drule select2_first) (blast intro: ctx_Err_done_time)

lemma attempts_ok_extend:
  assumes "attempts_ok ctx m (log0 @ [Some e]) res"
  shows "attempts_ok ctx m log0 res"
proof -
  obtain r t s log where res: "res = (r, t, s, log)" by (cases res) auto
  from assms obtain new where new: "log = log0 @ Some e # new" "int (length log) \<le> m"
    "None \<notin> set (butlast new)"
    "case r of None \<Rightarrow> new \<noteq> [] \<and> last new = None
     | Some e \<Rightarrow> (new \<noteq> [] \<and> last new = Some e \<and> int (length log) = m)
                 \<or> (None \<notin> set new \<and> ctx_Err ctx t = Some e)"
    by (auto simp: attempts_ok_def res)
  then show ?thesis
    unfolding attempts_ok_def res prod.case
    by (intro exI [of _ "Some e # new"]) (auto split: option.splits)
qed

lemma retry_loop_attempts:
  assumes "int attempt < maxAttempts" and "length log0 = attempt"
  shows "attempts_ok ctx maxAttempts log0
           (retry_loop ctx maxAttempts baseBackoff (logged fn) rand pick attempt now (s, log0))"
  using assms
proof (induction "nat (maxAttempts - int attempt)" arbitrary: attempt now s log0 rule: less_induct)
  case less
  let ?loop = "retry_loop ctx maxAttempts baseBackoff (logged fn) rand pick"
  obtain err t s' where fn: "fn ctx now s = (err, t, s')" by (cases "fn ctx now s") auto
  then have lg: "logged fn ctx now (s, log0) = (err, t, s', log0 @ [err])" by (simp add: logged_def)
  note unf = retry_loop.simps [of ctx maxAttempts baseBackoff "logged fn" rand pick attempt now "(s, log0)"]
  show ?case
  proof (cases "ctx_Err ctx now")
    case (Some e)
    with less.prems show ?thesis by (simp add: unf attempts_ok_def)
  next
    case None
    show ?thesis
    proof (cases "err = None \<or> int attempt = maxAttempts - 1")
      case True
      with None less.prems show ?thesis
        by (auto simp: unf lg attempts_ok_def split: option.splits)
    next
      case False
      then obtain e where e: "err = Some e" by auto
      let ?sel = "select2 (pick attempt) t (done_time ctx) (Some (t + retry_delay baseBackoff rand attempt))"
      obtain c u where sel: "?sel = Some (c, u)" by (cases ?sel) auto
      show ?thesis
      proof (cases c)
        case True
        with sel obtain x where "ctx_Err ctx u = Some x" by (auto dest: select_ctx_err)
        with True sel None False e less.prems show ?thesis
          by (simp add: unf lg attempts_ok_def)
      next
        case c: False
        have "attempts_ok ctx maxAttempts (log0 @ [Some e]) (?loop (Suc attempt) u (s', log0 @ [Some e]))"
          using False less.prems by (intro less.hyps) auto
        then have "attempts_ok ctx maxAttempts log0 (?loop (Suc attempt) u (s', log0 @ [Some e]))"
          by (rule attempts_ok_extend)
        with c sel None False e less.prems show ?thesis
          by (simp add: unf lg)
      qed
    qed
  qed
qed

lemma retry_loop_logged:
  assumes "retry_loop ctx m b (logged fn) rand pick attempt now (s, log) = (r, t, s', log')"
  shows "retry_loop ctx m b fn rand pick attempt now s = (r, t, s')"
  using assms
proof (induction "nat (m - int attempt)" arbitrary: attempt now s log rule: less_induct)
  case less
  obtain err u v where fn: "fn ctx now s = (err, u, v)" by (cases "fn ctx now s") auto
  then have lg: "logged fn ctx now (s, log) = (err, u, v, log @ [err])" by (simp add: logged_def)
  note unf = retry_loop.simps [of ctx m b "logged fn" rand pick attempt now "(s, log)"]
    and unf' = retry_loop.simps [of ctx m b fn rand pick attempt now s]
  have IH: "retry_loop ctx m b fn rand pick (Suc attempt) w v = (r, t, s')"
    if "int attempt < m" "retry_loop ctx m b (logged fn) rand pick (Suc attempt) w (v, log @ [err]) = (r, t, s', log')"
    for w using that by (intro less.hyps) auto
  show ?case
    using less.prems
    by (auto simp: unf unf' fn lg split: if_splits option.splits bool.splits intro: IH)
qed

lemma select2_tie_irrelevant:
  assumes "select2 p now (done_time ctx) (Some b) = Some (c, t)"
    and "select2 q now (done_time ctx) (Some b) = Some (c', t')"
  shows "t' = t \<and> (c' = c \<or> (\<exists>e. ctx_Err ctx t = Some e))"
proof (cases "done_time ctx")
  case None
  with assms show ?thesis by (simp add: select2_def)
next
  case (Some x)
  with assms ctx_Err_done_time [OF Some, of "max now x"] show ?thesis
    by (auto simp: select2_def split: if_splits)
qed

lemma retry_loop_ctx_done:
  "int attempt < m \<Longrightarrow> ctx_Err ctx now = Some e \<Longrightarrow>
   retry_loop ctx m b fn rand pick attempt now s = (Some e, now, s)"
  by (subst retry_loop.simps) simp

lemma retry_loop_pick:
  "retry_loop ctx m b fn rand pick attempt now s = retry_loop ctx m b fn rand pick' attempt now s"
proof (induction "nat (m - int attempt)" arbitrary: attempt now s rule: less_induct)
  case less
  obtain err u v where fn: "fn ctx now s = (err, u, v)" by (cases "fn ctx now s") auto
  note unf = retry_loop.simps [of ctx m b fn rand pick attempt now s]
    and unf' = retry_loop.simps [of ctx m b fn rand pick' attempt now s]
  let ?sel = "\<lambda>p. select2 (p attempt) u (done_time ctx) (Some (u + retry_delay b rand attempt))"
  obtain c t where sel: "?sel pick = Some (c, t)" by (cases "?sel pick") auto
  obtain c' t' where sel': "?sel pick' = Some (c', t')" by (cases "?sel pick'") auto
  note tie = select2_tie_irrelevant [OF sel sel']
  have IH: "retry_loop ctx m b fn rand pick (Suc attempt) t v = retry_loop ctx m b fn rand pick' (Suc attempt) t v"
    if "int attempt < m" using that by (intro less.hyps) auto
  have stop: "retry_loop ctx m b fn rand p (Suc attempt) t v = (Some e, t, v)"
    if "ctx_Err ctx t = Some e" "int attempt < m" "int attempt \<noteq> m - 1" for e p
    using that by (intro retry_loop_ctx_done) auto
  show ?case
    using tie by (cases c; cases c') (auto simp: unf unf' fn sel sel' IH stop split: option.splits)
qed

text \<open>
  What every attempt keeps, \<open>retry.Do\<close> keeps; what a successful attempt establishes holds when it
  returns nil. The connect closures use it.
\<close>

lemma retry_loop_rule:
  assumes "int attempt < m" and "P s"
    and keep: "\<And>t0 s0 e t1 s1. P s0 \<Longrightarrow> fn ctx t0 s0 = (Some e, t1, s1) \<Longrightarrow> P s1"
    and good: "\<And>t0 s0 t1 s1. P s0 \<Longrightarrow> fn ctx t0 s0 = (None, t1, s1) \<Longrightarrow> Q s1"
    and "retry_loop ctx m b fn rand pick attempt now s = (r, t, s')"
  shows "case r of None \<Rightarrow> Q s' | Some e \<Rightarrow> P s'"
  using assms(1,2,5)
proof (induction "nat (m - int attempt)" arbitrary: attempt now s rule: less_induct)
  case less
  obtain err u v where fn: "fn ctx now s = (err, u, v)" by (cases "fn ctx now s") auto
  note unf = retry_loop.simps [of ctx m b fn rand pick attempt now s]
  show ?case
  proof (cases "ctx_Err ctx now")
    case (Some x)
    from less.prems(3) retry_loop_ctx_done [OF less.prems(1) Some, of b fn rand pick s]
    have "r = Some x" and "s' = s" by simp_all
    with less.prems(2) show ?thesis by simp
  next
    case alive: None
    show ?thesis
    proof (cases err)
      case None
      with alive fn less.prems good [of s now u v] show ?thesis by (auto simp: unf)
    next
      case (Some e)
      with fn less.prems(2) have Pv: "P v" by (auto intro: keep)
      let ?sel = "select2 (pick attempt) u (done_time ctx) (Some (u + retry_delay b rand attempt))"
      obtain c t' where sel: "?sel = Some (c, t')" by (cases ?sel) auto
      have IH: "case r of None \<Rightarrow> Q s' | Some e \<Rightarrow> P s'"
        if "int attempt \<noteq> m - 1" "retry_loop ctx m b fn rand pick (Suc attempt) t' v = (r, t, s')"
        using that less.prems(1) Pv by (intro less.hyps [of "Suc attempt"]) auto
      have "(r = Some e \<and> s' = v) \<or> (c \<and> r = ctx_Err ctx t' \<and> s' = v)
        \<or> (int attempt \<noteq> m - 1 \<and> retry_loop ctx m b fn rand pick (Suc attempt) t' v = (r, t, s'))"
        using alive Some fn less.prems sel by (cases c) (auto simp: unf split: if_splits)
      moreover from sel have "c \<Longrightarrow> \<exists>x. ctx_Err ctx t' = Some x" by (auto dest: select_ctx_err)
      ultimately consider x where "r = Some x" "s' = v"
        | "int attempt \<noteq> m - 1" "retry_loop ctx m b fn rand pick (Suc attempt) t' v = (r, t, s')"
        by metis
      then show ?thesis using Pv IH by cases simp_all
    qed
  qed
qed

lemma retry_Do_rule:
  assumes "P s" and "\<And>t0 s0 e t1 s1. P s0 \<Longrightarrow> fn ctx t0 s0 = (Some e, t1, s1) \<Longrightarrow> P s1"
    and "\<And>t0 s0 t1 s1. P s0 \<Longrightarrow> fn ctx t0 s0 = (None, t1, s1) \<Longrightarrow> Q s1"
    and "retry_Do ctx m b fn rand pick now s = (r, t, s')"
  shows "case r of None \<Rightarrow> Q s' | Some e \<Rightarrow> P s'"
proof (cases "m \<le> 0")
  case True
  with assms(1,4) show ?thesis by (auto simp: retry_Do_def)
next
  case False
  then have "int 0 < m" by simp
  moreover from False assms(4) have "retry_loop ctx m b fn rand pick 0 now s = (r, t, s')"
    by (simp add: retry_Do_def)
  ultimately show ?thesis using retry_loop_rule [of 0 m P s fn ctx Q] assms(1-3) by blast
qed

section \<open>Properties\<close>

text \<open>
  C12: the attempts of \<open>retry.Do\<close>. With a positive bound, the function is called at most
  maxAttempts times and every call but the last failed; nil is returned only after a call that
  succeeded; an error is either that of the last call, after exactly maxAttempts calls, or the
  context's error after calls that all failed.
\<close>

theorem retry_Do_attempts:
  assumes "0 < maxAttempts"
    and "retry_Do ctx maxAttempts baseBackoff (logged fn) rand pick now (s, []) = (r, t, s', log)"
  shows "int (length log) \<le> maxAttempts \<and> None \<notin> set (butlast log)
    \<and> retry_Do ctx maxAttempts baseBackoff fn rand pick now s = (r, t, s')
    \<and> (case r of
          None \<Rightarrow> log \<noteq> [] \<and> last log = None
        | Some e \<Rightarrow> (log \<noteq> [] \<and> last log = Some e \<and> int (length log) = maxAttempts)
                    \<or> (None \<notin> set log \<and> ctx_Err ctx t = Some e))"
proof -
  have loop: "retry_loop ctx maxAttempts baseBackoff (logged fn) rand pick 0 now (s, []) = (r, t, s', log)"
    using assms by (simp add: retry_Do_def)
  have "attempts_ok ctx maxAttempts [] (r, t, s', log)"
    using retry_loop_attempts [of 0 maxAttempts "[]" ctx baseBackoff fn rand pick now s] assms(1) loop
    by simp
  moreover have "retry_Do ctx maxAttempts baseBackoff fn rand pick now s = (r, t, s')"
    using retry_loop_logged [OF loop] assms(1) by (simp add: retry_Do_def)
  ultimately show ?thesis
    by (simp add: attempts_ok_def)
qed

definition flaky :: "nat attempt_fn" where
  "flaky ctx now n = (if n < 2 then Some (errors_New ''boom'') else None, now + 5, Suc n)"

theorem retry_Do_attempts_witness:
  "retry_Do Background 3 10 (logged flaky) (\<lambda>_ _. Some 3) (\<lambda>_. True) 0 (0, [])
     = (None, 51, 3, [Some (errors_New ''boom''), Some (errors_New ''boom''), None])
   \<and> retry_Do Background 3 10 flaky (\<lambda>_ _. Some 3) (\<lambda>_. True) 0 0 = (None, 51, 3)"
proof -
  have run: "retry_Do Background 3 10 (logged flaky) (\<lambda>_ _. Some 3) (\<lambda>_. True) 0 (0, [])
     = (None, 51, 3, [Some (errors_New ''boom''), Some (errors_New ''boom''), None])"
    by (simp add: retry_Do_def retry_loop.simps logged_def flaky_def select2_def done_time_def
        Background_def ctx_Err_def retry_delay_def retry_backoff_def retry_jitter_def)
  show ?thesis using run retry_Do_attempts [OF _ run] by simp
qed

text \<open>
  The runtime's choice among simultaneously ready select cases has no influence: whichever of
  timer and context is taken, result, clock and state are the same.
\<close>

theorem retry_Do_select_choice:
  "retry_Do ctx maxAttempts baseBackoff fn rand pick now s
   = retry_Do ctx maxAttempts baseBackoff fn rand pick' now s"
  unfolding retry_Do_def by (simp add: retry_loop_pick [of ctx _ _ _ _ pick _ _ _ pick'])

lemma retry_backoff_wraps: "64 \<le> k \<Longrightarrow> retry_backoff b k = 0"
proof -
  assume "64 \<le> k"
  then have "signed_take_bit 63 ((2::int) ^ k) = 0"
    by (simp add: signed_take_bit_eq_if_positive push_bit_of_1 [symmetric] take_bit_push_bit
        not_le bit_push_bit_iff del: push_bit_of_1)
  then show ?thesis by (simp add: retry_backoff_def i64_signed_take_bit)
qed

lemma retry_backoff_exact:
  assumes "0 < baseBackoff" and "baseBackoff * 2 ^ attempt < 9223372036854775808"
  shows "retry_backoff baseBackoff attempt = baseBackoff * 2 ^ attempt"
    and "baseBackoff \<le> baseBackoff * 2 ^ attempt"
proof -
  have pos: "(1::int) \<le> 2 ^ attempt" by simp
  have "1 * (2 :: int) ^ attempt \<le> baseBackoff * 2 ^ attempt"
    using assms(1) by (intro mult_right_mono) simp_all
  with assms(2) have "(2 :: int) ^ attempt < 9223372036854775808" by linarith
  then have "i64 (2 ^ attempt) = 2 ^ attempt" using pos by (intro i64_id) linarith+
  moreover have "baseBackoff * 1 \<le> baseBackoff * 2 ^ attempt"
    using assms(1) pos by (intro mult_left_mono) simp_all
  then show *: "baseBackoff \<le> baseBackoff * 2 ^ attempt" by simp
  moreover have "i64 (baseBackoff * 2 ^ attempt) = baseBackoff * 2 ^ attempt"
    using * assms by (intro i64_id) linarith+
  ultimately show "retry_backoff baseBackoff attempt = baseBackoff * 2 ^ attempt"
    by (simp add: retry_backoff_def)
qed

text \<open>
  The delay after attempt k is the base doubled k times plus a jitter below half the base, as
  long as that fits 64 bits; from attempt 64 on the doubled factor has wrapped to zero.
\<close>

theorem retry_delay_bounds:
  assumes "0 < baseBackoff"
    and "\<And>n. rand attempt (baseBackoff div 2) = Some n \<Longrightarrow> 0 \<le> n \<and> n < baseBackoff div 2"
    and "baseBackoff * 2 ^ attempt + baseBackoff div 2 < 2 ^ 63"
  shows "baseBackoff * 2 ^ attempt \<le> retry_delay baseBackoff rand attempt
    \<and> retry_delay baseBackoff rand attempt \<le> baseBackoff * 2 ^ attempt + baseBackoff div 2
    \<and> (\<forall>b k. 64 \<le> k \<longrightarrow> retry_backoff b k = 0)"
proof -
  let ?jit = "retry_jitter baseBackoff (rand attempt (baseBackoff div 2))"
  have h0: "0 \<le> baseBackoff div 2" using assms(1) by simp
  have top: "baseBackoff * 2 ^ attempt + baseBackoff div 2 < 9223372036854775808"
    using assms(3) by simp
  then have "baseBackoff * 2 ^ attempt < 9223372036854775808" using h0 by linarith
  note dbl = retry_backoff_exact [OF assms(1) this]
  have "baseBackoff sdiv 2 = baseBackoff div 2" using assms(1) by (simp add: signed_divide_int_def)
  moreover have "baseBackoff div 2 < 9223372036854775808" using top dbl(2) assms(1) by linarith
  ultimately have half: "i64 (baseBackoff sdiv 2) = baseBackoff div 2" using h0 by simp
  have jit: "0 \<le> ?jit \<and> ?jit \<le> baseBackoff div 2"
    using assms(2) h0 unfolding retry_jitter_def half Let_def
    by (cases "rand attempt (baseBackoff div 2)") (auto intro: less_imp_le)
  have "retry_delay baseBackoff rand attempt = baseBackoff * 2 ^ attempt + ?jit"
    unfolding retry_delay_def half dbl(1) using jit top dbl(2) assms(1) by (intro i64_id) linarith+
  with jit show ?thesis by (simp add: retry_backoff_wraps)
qed

theorem retry_delay_bounds_witness:
  "1000 * 2 ^ 3 \<le> retry_delay 1000 (\<lambda>_ _. Some 7) 3 \<and> retry_delay 1000 (\<lambda>_ _. Some 7) 3 \<le> 1000 * 2 ^ 3 + 500"
  using retry_delay_bounds [of 1000 "\<lambda>_ _. Some 7" 3] by simp

end
