(* ===== verification/Lifecycle.thy ===== *)
theory Lifecycle
  imports GoPrelude
begin

text \<open>
  core/lifecycle.go: the embeddable start/stop primitive. Any number of goroutines may be inside
  \<open>Start\<close> and \<open>Stop\<close> of one Lifecycle at the same time, so the calls are split at the points where
  others can interleave: each atomic action is a function on the shared fields, and \<open>lc_step\<close> is
  the interleaving of all calls. A resource is a number handed out by a successful \<open>Connect\<close>; its
  stop closure is identified with it, and \<open>released\<close> records every run of such a closure.
  The mutex is held across an action boundary only by \<open>Stop\<close>, while it runs the closure.
\<close>

section \<open>Shared state\<close>

record lifecycle =
  Connect_set :: bool
  mu_locked :: bool
  ready_made :: bool
  ready_closed :: bool
  stopFunc :: "nat option"
  stopped :: bool

definition NewLifecycle :: "bool \<Rightarrow> lifecycle" where
  "NewLifecycle connect =
     \<lparr>Connect_set = connect, mu_locked = False, ready_made = False, ready_closed = False,
      stopFunc = None, stopped = False\<rparr>"

text \<open>Where a call of \<open>Start\<close> returned: without Connect, after a failed Connect, because Stop came
  first, or because its context was done.\<close>

datatype return_site = NilConnect | ConnectFailed | StoppedEarly | CtxDone

datatype start_pc =
    StartIdle
  | Connecting
  | Connected "nat option"
  | StartReleasing nat
  | Publishing
  | Waiting
  | StartReturned return_site "go_error option"
  | StartPanicked

datatype stop_pc =
    StopIdle
  | StopReleasing nat
  | StopReturned "go_error option"

section \<open>The atomic actions of Start\<close>

definition initReady :: "lifecycle \<Rightarrow> lifecycle" where
  "initReady l = (if ready_made l then l else l\<lparr>ready_made := True\<rparr>)"

definition Start_enter :: "lifecycle \<Rightarrow> start_pc \<times> lifecycle" where
  "Start_enter l =
     (let l' = initReady l in
      if \<not> Connect_set l'
      then (StartReturned NilConnect
              (Some (errors_New ''core.Lifecycle: Connect closure is not set'')), l')
      else (Connecting, l'))"

definition Start_connected :: "go_error + nat option \<Rightarrow> start_pc" where
  "Start_connected res =
     (case res of Inl e \<Rightarrow> StartReturned ConnectFailed (Some e) | Inr stop \<Rightarrow> Connected stop)"

definition Start_commit :: "nat option \<Rightarrow> lifecycle \<Rightarrow> start_pc \<times> lifecycle" where
  "Start_commit stop l =
     (if stopped l
      then (case stop of Some r \<Rightarrow> StartReleasing r | None \<Rightarrow> StartReturned StoppedEarly None, l)
      else (Publishing, l\<lparr>stopFunc := stop\<rparr>))"

definition Start_publish :: "lifecycle \<Rightarrow> start_pc \<times> lifecycle" where
  "Start_publish l =
     (if ready_closed l then (StartPanicked, l) else (Waiting, l\<lparr>ready_closed := True\<rparr>))"

section \<open>The atomic actions of Stop\<close>

definition Stop_enter :: "lifecycle \<Rightarrow> stop_pc \<times> lifecycle" where
  "Stop_enter l =
     (if stopped l then (StopReturned None, l)
      else (case stopFunc l of
              Some r \<Rightarrow> (StopReleasing r, l\<lparr>stopped := True, mu_locked := True\<rparr>)
            | None \<Rightarrow> (StopReturned None, l\<lparr>stopped := True\<rparr>)))"

definition Stop_leave :: "lifecycle \<Rightarrow> lifecycle" where
  "Stop_leave l = l\<lparr>mu_locked := False\<rparr>"

section \<open>Ready and WaitReady\<close>

definition Ready :: "lifecycle \<Rightarrow> lifecycle" where
  "Ready l = initReady l"

text \<open>The free function \<open>WaitReady\<close>: the channel is given by the moment it closes, if ever.\<close>

definition WaitReady :: "bool \<Rightarrow> go_ctx \<Rightarrow> int option \<Rightarrow> int \<Rightarrow> (go_error option \<times> int) outcome" where
  "WaitReady pick ctx ready now =
     (case select2 pick now ready (done_time ctx) of
        Some (True, t) \<Rightarrow> Returned (None, t)
      | Some (False, t) \<Rightarrow> Returned (ctx_Err ctx t, t)
      | None \<Rightarrow> Blocked)"

text \<open>
  The method \<open>WaitReady\<close> as an action on a world with a clock: \<open>readyAt\<close> is the moment at which the
  component's readiness channel closes, \<open>elapse t\<close> what the other goroutines do to the world until
  t, \<open>pick\<close> the select's choice.
\<close>

definition wait_ready ::
  "bool \<Rightarrow> ('s \<Rightarrow> int option) \<Rightarrow> (int \<Rightarrow> 's \<Rightarrow> 's) \<Rightarrow> go_ctx \<Rightarrow> (int \<times> 's, go_error option) action" where
  "wait_ready pick readyAt elapse ctx w =
     (case WaitReady pick ctx (readyAt (snd w)) (fst w) of
        Returned (err, t) \<Rightarrow> (Returned err, t, elapse t (snd w))
      | Panicked p \<Rightarrow> (Panicked p, w)
      | Blocked \<Rightarrow> (Blocked, w))"

section \<open>Interleaved calls\<close>

record lc_state =
  lc :: lifecycle
  starts :: "nat \<Rightarrow> start_pc"
  stops :: "nat \<Rightarrow> stop_pc"
  next_res :: nat
  released :: "nat list"

definition lc_init :: "bool \<Rightarrow> lc_state \<Rightarrow> bool" where
  "lc_init connect s =
     (s = \<lparr>lc = NewLifecycle connect, starts = (\<lambda>_. StartIdle), stops = (\<lambda>_. StopIdle),
           next_res = 0, released = []\<rparr>)"

abbreviation set_start :: "nat \<Rightarrow> start_pc \<times> lifecycle \<Rightarrow> lc_state \<Rightarrow> lc_state" where
  "set_start i r s \<equiv> s\<lparr>starts := (starts s)(i := fst r), lc := snd r\<rparr>"

abbreviation set_stop :: "nat \<Rightarrow> stop_pc \<times> lifecycle \<Rightarrow> lc_state \<Rightarrow> lc_state" where
  "set_stop j r s \<equiv> s\<lparr>stops := (stops s)(j := fst r), lc := snd r\<rparr>"

text \<open>\<open>who\<close> is the set of goroutines that may call \<open>Start\<close>.\<close>

inductive lc_step :: "nat set \<Rightarrow> lc_state \<Rightarrow> lc_state \<Rightarrow> bool" for who :: "nat set" where
  start_enter: "i \<in> who \<Longrightarrow> starts s i = StartIdle \<Longrightarrow>
     lc_step who s (set_start i (Start_enter (lc s)) s)"
| connect_fail: "i \<in> who \<Longrightarrow> starts s i = Connecting \<Longrightarrow>
     lc_step who s (set_start i (Start_connected (Inl e), lc s) s)"
| connect_nil: "i \<in> who \<Longrightarrow> starts s i = Connecting \<Longrightarrow>
     lc_step who s (set_start i (Start_connected (Inr None), lc s) s)"
| connect_ok: "i \<in> who \<Longrightarrow> starts s i = Connecting \<Longrightarrow>
     lc_step who s ((set_start i (Start_connected (Inr (Some (next_res s))), lc s) s)
                  \<lparr>next_res := Suc (next_res s)\<rparr>)"
| start_commit: "i \<in> who \<Longrightarrow> starts s i = Connected r \<Longrightarrow> \<not> mu_locked (lc s) \<Longrightarrow>
     lc_step who s (set_start i (Start_commit r (lc s)) s)"
| start_publish: "i \<in> who \<Longrightarrow> starts s i = Publishing \<Longrightarrow>
     lc_step who s (set_start i (Start_publish (lc s)) s)"
| start_release: "i \<in> who \<Longrightarrow> starts s i = StartReleasing r \<Longrightarrow>
     lc_step who s ((set_start i (StartReturned StoppedEarly e, lc s) s)\<lparr>released := r # released s\<rparr>)"
| start_done: "i \<in> who \<Longrightarrow> starts s i = Waiting \<Longrightarrow>
     lc_step who s (set_start i (StartReturned CtxDone (Some e), lc s) s)"
| stop_enter: "stops s j = StopIdle \<Longrightarrow> \<not> mu_locked (lc s) \<Longrightarrow>
     lc_step who s (set_stop j (Stop_enter (lc s)) s)"
| stop_release: "stops s j = StopReleasing r \<Longrightarrow>
     lc_step who s ((set_stop j (StopReturned e, Stop_leave (lc s)) s)\<lparr>released := r # released s\<rparr>)"
| call_ready: "lc_step who s (s\<lparr>lc := Ready (lc s)\<rparr>)"

lemmas lc_defs =
  Start_enter_def Start_connected_def Start_commit_def Start_publish_def Stop_enter_def
  Stop_leave_def Ready_def initReady_def

section \<open>Release at most once\<close>

text \<open>The resource a call of \<open>Start\<close> still holds.\<close>

fun holds :: "start_pc \<Rightarrow> nat option" where
  "holds (Connected r) = r"
| "holds (StartReleasing r) = Some r"
| "holds _ = None"

definition lc_once :: "lc_state \<Rightarrow> bool" where
  "lc_once s \<longleftrightarrow>
     distinct (released s)
   \<and> (\<forall>r\<in>set (released s). r < next_res s)
   \<and> (\<forall>i r. holds (starts s i) = Some r \<longrightarrow>
        r < next_res s \<and> r \<notin> set (released s) \<and> stopFunc (lc s) \<noteq> Some r
        \<and> (\<forall>j. stops s j \<noteq> StopReleasing r)
        \<and> (\<forall>i'. holds (starts s i') = Some r \<longrightarrow> i' = i))
   \<and> (\<forall>r. stopFunc (lc s) = Some r \<longrightarrow> r < next_res s)
   \<and> (\<forall>r. stopFunc (lc s) = Some r \<longrightarrow> \<not> stopped (lc s) \<longrightarrow> r \<notin> set (released s))
   \<and> (\<forall>j r. stops s j = StopReleasing r \<longrightarrow>
        mu_locked (lc s) \<and> stopped (lc s) \<and> r < next_res s \<and> r \<notin> set (released s)
        \<and> (\<forall>j' r'. stops s j' = StopReleasing r' \<longrightarrow> j' = j))"

lemma lc_once_init: "lc_init c s \<Longrightarrow> lc_once s"
  by (simp add: lc_init_def lc_once_def NewLifecycle_def)

lemma lc_once_holds:
  assumes "lc_once s" and "holds (starts s i) = Some r"
  shows "r < next_res s" "r \<notin> set (released s)" "stopFunc (lc s) \<noteq> Some r"
    "stops s j \<noteq> StopReleasing r" "holds (starts s i') = Some r \<Longrightarrow> i' = i"
  using assms by (auto simp: lc_once_def)

lemma lc_once_step: "lc_once s \<Longrightarrow> lc_step who s t \<Longrightarrow> lc_once t"
proof (rotate_tac, induction rule: lc_step.induct)
  case (connect_ok i s)
  then show ?case by (auto simp: lc_once_def lc_defs less_Suc_eq split: if_splits)
next
  case (start_commit i s r)
  note held = lc_once_holds [OF start_commit(4), of i]
  show ?case
  proof (cases r)
    case None
    with start_commit show ?thesis by (auto simp: lc_once_def lc_defs split: if_splits)
  next
    case (Some a)
    then have "a < next_res s" "a \<notin> set (released s)" "stopFunc (lc s) \<noteq> Some a"
      "\<And>j. stops s j \<noteq> StopReleasing a" "\<And>i'. holds (starts s i') = Some a \<Longrightarrow> i' = i"
      using start_commit held by auto
    with Some start_commit show ?thesis by (auto simp: lc_once_def lc_defs split: if_splits)
  qed
next
  case (start_release i s r e)
  then have "r < next_res s" "r \<notin> set (released s)" "stopFunc (lc s) \<noteq> Some r"
    "\<And>j. stops s j \<noteq> StopReleasing r" "\<And>i'. holds (starts s i') = Some r \<Longrightarrow> i' = i"
    using lc_once_holds [OF start_release(3), of i] by auto
  with start_release show ?case by (auto simp: lc_once_def lc_defs split: if_splits)
qed (auto simp: lc_once_def lc_defs Let_def split: if_splits option.splits)

interpretation once: inductive_invariant "lc_init c" "lc_step who" lc_once
  by unfold_locales (auto intro: lc_once_init lc_once_step)

section \<open>One starter: readiness, no panic, exactly one release\<close>

text \<open>
  The runner calls \<open>Start\<close> of a component once. With a single starter (goroutine 0) every resource
  is accounted for at all times, and the readiness channel is closed exactly after a Connect that
  succeeded before any Stop.
\<close>

definition lc_ready :: "lc_state \<Rightarrow> bool" where
  "lc_ready s \<longleftrightarrow>
     (\<forall>i. i \<noteq> 0 \<longrightarrow> starts s i = StartIdle)
   \<and> starts s 0 \<noteq> StartPanicked
   \<and> (ready_closed (lc s) \<longleftrightarrow> starts s 0 = Waiting \<or> (\<exists>e. starts s 0 = StartReturned CtxDone e))
   \<and> (stopFunc (lc s) \<noteq> None \<longrightarrow> starts s 0 = Publishing \<or> ready_closed (lc s))"

fun stop_ok :: "lifecycle \<Rightarrow> stop_pc \<Rightarrow> bool" where
  "stop_ok l StopIdle = True"
| "stop_ok l (StopReleasing r) = (stopFunc l = Some r \<and> stopped l)"
| "stop_ok l (StopReturned e) = stopped l"

definition lc_account :: "lc_state \<Rightarrow> bool" where
  "lc_account s \<longleftrightarrow>
     (\<forall>j. stop_ok (lc s) (stops s j))
   \<and> (\<forall>r < next_res s.
        r \<in> set (released s) \<or> holds (starts s 0) = Some r
        \<or> (stopFunc (lc s) = Some r \<and> (stopped (lc s) \<longrightarrow> mu_locked (lc s))))"

definition lc_single :: "lc_state \<Rightarrow> bool" where
  "lc_single s \<longleftrightarrow> lc_ready s \<and> lc_account s"

lemma lc_single_init: "lc_init c s \<Longrightarrow> lc_single s"
  by (simp add: lc_init_def lc_single_def lc_ready_def lc_account_def NewLifecycle_def)

lemma Stop_enter_frame [simp]:
  "ready_closed (snd (Stop_enter l)) = ready_closed l"
  "stopFunc (snd (Stop_enter l)) = stopFunc l"
  "stopped (snd (Stop_enter l))"
  by (simp_all add: Stop_enter_def split: option.split)

lemma lc_ready_step: "lc_ready s \<Longrightarrow> lc_step {0} s t \<Longrightarrow> lc_ready t"
proof (rotate_tac, induction rule: lc_step.induct)
  case (start_commit i s r)
  then show ?case by (cases r) (auto simp: lc_ready_def lc_defs)
next
  case (stop_enter s j)
  then show ?case by (auto simp: lc_ready_def)
qed (auto simp: lc_ready_def lc_defs Let_def)

lemma stop_ok_all:
  "\<forall>j. stop_ok l (stops s j) \<Longrightarrow> stops s j = StopReleasing r \<Longrightarrow> stopFunc l = Some r \<and> stopped l"
  by (metis stop_ok.simps(2))

lemma stop_ok_commit:
  "stop_ok l p \<Longrightarrow> \<not> stopped l \<Longrightarrow> stop_ok (l\<lparr>stopFunc := r\<rparr>) p"
  by (cases p) simp_all

lemma stop_ok_frame [simp]:
  "stop_ok (l\<lparr>ready_made := b\<rparr>) p = stop_ok l p"
  "stop_ok (l\<lparr>ready_closed := b\<rparr>) p = stop_ok l p"
  "stop_ok (l\<lparr>mu_locked := b\<rparr>) p = stop_ok l p"
  by (cases p; simp)+

lemma stop_ok_stopped: "stop_ok l p \<Longrightarrow> stop_ok (l\<lparr>stopped := True\<rparr>) p"
  by (cases p) simp_all

lemma lc_account_step:
  assumes "lc_ready s" and "lc_account s" and "lc_step {0} s t"
  shows "lc_account t"
  using assms(3,1,2)
proof (induction rule: lc_step.induct)
  case (start_commit i s r)
  moreover from start_commit have "stopFunc (lc s) = None" by (auto simp: lc_ready_def)
  ultimately show ?case by (cases r) (auto simp: lc_account_def lc_defs stop_ok_commit)
next
  case (stop_enter s j)
  then show ?case by (auto simp: lc_account_def lc_defs stop_ok_stopped split: option.splits)
next
  case (stop_release s j r e)
  then have "stopFunc (lc s) = Some r \<and> stopped (lc s)"
    using stop_ok_all [of "lc s" s j r] by (simp add: lc_account_def)
  with stop_release show ?case by (auto simp: lc_account_def lc_defs)
next
  case (connect_ok i s)
  then show ?case by (auto simp: lc_account_def lc_defs less_Suc_eq)
next
  case (start_release i s r e)
  then show ?case by (auto simp: lc_account_def lc_defs)
qed (auto simp: lc_account_def lc_defs Let_def split: if_splits)

interpretation single: inductive_invariant "lc_init c" "lc_step {0}" lc_single
  by unfold_locales (auto simp: lc_single_def intro: lc_ready_step lc_account_step
      dest: lc_single_init [unfolded lc_single_def])

section \<open>The mutex is never orphaned\<close>

definition lc_lock :: "lc_state \<Rightarrow> bool" where
  "lc_lock s \<longleftrightarrow> (mu_locked (lc s) \<longrightarrow> (\<exists>j r. stops s j = StopReleasing r))"

lemma lc_lock_init: "lc_init c s \<Longrightarrow> lc_lock s"
  by (simp add: lc_init_def lc_lock_def NewLifecycle_def)

lemma lc_lock_step: "lc_lock s \<Longrightarrow> lc_step who s t \<Longrightarrow> lc_lock t"
proof (rotate_tac, induction rule: lc_step.induct)
  case (stop_enter s j)
  then show ?case by (auto simp: lc_lock_def lc_defs split: option.splits)
qed (auto simp: lc_lock_def lc_defs Let_def)

interpretation lock: inductive_invariant "lc_init c" "lc_step who" lc_lock
  by unfold_locales (auto intro: lc_lock_init lc_lock_step)

section \<open>Executing schedules\<close>

text \<open>
  A schedule names the action taken at each point; \<open>lc_exec\<close> runs it and fails when an action is
  not enabled. Every state it reaches is reachable by \<open>lc_step\<close>.
\<close>

datatype lc_action =
    ActStart nat
  | ActConnect nat "(go_error + bool)"
  | ActCommit nat
  | ActPublish nat
  | ActStartRelease nat "go_error option"
  | ActCtxDone nat go_error
  | ActStop nat
  | ActStopRelease nat "go_error option"

fun lc_do :: "lc_action \<Rightarrow> lc_state \<Rightarrow> lc_state option" where
  "lc_do (ActStart i) s =
     (if starts s i = StartIdle then Some (set_start i (Start_enter (lc s)) s) else None)"
| "lc_do (ActConnect i (Inl e)) s =
     (if starts s i = Connecting then Some (set_start i (Start_connected (Inl e), lc s) s) else None)"
| "lc_do (ActConnect i (Inr False)) s =
     (if starts s i = Connecting then Some (set_start i (Start_connected (Inr None), lc s) s) else None)"
| "lc_do (ActConnect i (Inr True)) s =
     (if starts s i = Connecting
      then Some ((set_start i (Start_connected (Inr (Some (next_res s))), lc s) s)
                   \<lparr>next_res := Suc (next_res s)\<rparr>) else None)"
| "lc_do (ActCommit i) s =
     (case starts s i of
        Connected r \<Rightarrow> if mu_locked (lc s) then None else Some (set_start i (Start_commit r (lc s)) s)
      | _ \<Rightarrow> None)"
| "lc_do (ActPublish i) s =
     (if starts s i = Publishing then Some (set_start i (Start_publish (lc s)) s) else None)"
| "lc_do (ActStartRelease i e) s =
     (case starts s i of
        StartReleasing r \<Rightarrow>
          Some ((set_start i (StartReturned StoppedEarly e, lc s) s)\<lparr>released := r # released s\<rparr>)
      | _ \<Rightarrow> None)"
| "lc_do (ActCtxDone i e) s =
     (if starts s i = Waiting then Some (set_start i (StartReturned CtxDone (Some e), lc s) s) else None)"
| "lc_do (ActStop j) s =
     (if stops s j = StopIdle \<and> \<not> mu_locked (lc s) then Some (set_stop j (Stop_enter (lc s)) s) else None)"
| "lc_do (ActStopRelease j e) s =
     (case stops s j of
        StopReleasing r \<Rightarrow>
          Some ((set_stop j (StopReturned e, Stop_leave (lc s)) s)\<lparr>released := r # released s\<rparr>)
      | _ \<Rightarrow> None)"

fun actor_ok :: "nat set \<Rightarrow> lc_action \<Rightarrow> bool" where
  "actor_ok who (ActStop j) = True"
| "actor_ok who (ActStopRelease j e) = True"
| "actor_ok who (ActStart i) = (i \<in> who)"
| "actor_ok who (ActConnect i r) = (i \<in> who)"
| "actor_ok who (ActCommit i) = (i \<in> who)"
| "actor_ok who (ActPublish i) = (i \<in> who)"
| "actor_ok who (ActStartRelease i e) = (i \<in> who)"
| "actor_ok who (ActCtxDone i e) = (i \<in> who)"

fun lc_exec :: "lc_action list \<Rightarrow> lc_state \<Rightarrow> lc_state option" where
  "lc_exec [] s = Some s"
| "lc_exec (a # as) s = (case lc_do a s of None \<Rightarrow> None | Some t \<Rightarrow> lc_exec as t)"

definition lc_new :: "bool \<Rightarrow> lc_state" where
  "lc_new connect =
     \<lparr>lc = NewLifecycle connect, starts = (\<lambda>_. StartIdle), stops = (\<lambda>_. StopIdle),
      next_res = 0, released = []\<rparr>"

lemma lc_do_step: "lc_do a s = Some t \<Longrightarrow> actor_ok who a \<Longrightarrow> lc_step who s t"
  by (induction a s rule: lc_do.induct)
    (auto split: if_splits start_pc.splits stop_pc.splits
      intro: lc_step.intros lc_step.intros [simplified])

lemma lc_exec_reach:
  "lc_exec as s = Some t \<Longrightarrow> list_all (actor_ok who) as \<Longrightarrow>
   reach (lc_init c) (lc_step who) s \<Longrightarrow> reach (lc_init c) (lc_step who) t"
proof (induction as arbitrary: s)
  case (Cons a as)
  from Cons.prems(1) obtain u where u: "lc_do a s = Some u" "lc_exec as u = Some t"
    by (auto split: option.splits)
  from u(1) Cons.prems(2) have "lc_step who s u" by (auto intro: lc_do_step)
  with Cons.prems(3) have "reach (lc_init c) (lc_step who) u" by (rule reach.reach_step)
  with Cons.IH u(2) Cons.prems(2) show ?case by simp
qed simp

lemma lc_new_reach: "reach (lc_init c) (lc_step who) (lc_new c)"
  by (rule reach.reach_init) (simp add: lc_init_def lc_new_def)

lemmas lc_eval = lc_defs lc_new_def NewLifecycle_def

section \<open>Properties\<close>

text \<open>
  C6: however many goroutines start and stop a Lifecycle and in whatever order their actions
  interleave, the stop closure of every resource that Connect returned runs at most once.
\<close>

theorem lifecycle_release_at_most_once:
  assumes "reach (lc_init connect) (lc_step who) s"
  shows "distinct (released s) \<and> (\<forall>r\<in>set (released s). r < next_res s)"
  using once.inv_reach [OF assms] by (simp add: lc_once_def)

definition stop_race :: "lc_action list" where
  "stop_race = [ActStart 0, ActConnect 0 (Inr True), ActCommit 0, ActPublish 0, ActStop 0,
                ActStopRelease 0 None, ActStop 1, ActCtxDone 0 context_Canceled]"

lemma stop_race_run:
  "map_option (\<lambda>s. (released s, next_res s, stops s 1, starts s 0, stops s 0, mu_locked (lc s)))
     (lc_exec stop_race (lc_new True))
   = Some ([0], 1, StopReturned None, StartReturned CtxDone (Some context_Canceled),
           StopReturned None, False)"
  by (simp add: stop_race_def lc_eval)

theorem lifecycle_release_at_most_once_witness:
  "\<exists>s. lc_exec stop_race (lc_new True) = Some s \<and> released s = [0] \<and> distinct (released s)"
proof -
  obtain s where s: "lc_exec stop_race (lc_new True) = Some s" and r: "released s = [0]"
    using stop_race_run by (auto simp: map_option_case split: option.splits)
  have "reach (lc_init True) (lc_step {0}) s"
    by (rule lc_exec_reach [OF s _ lc_new_reach]) (simp add: stop_race_def)
  from lifecycle_release_at_most_once [OF this] s r show ?thesis by blast
qed

text \<open>
  C25: with one call of \<open>Start\<close>, once it has returned and some \<open>Stop\<close> has returned while no other
  \<open>Stop\<close> is still running a closure, every acquired resource has been released, exactly once.
\<close>

theorem lifecycle_release_exactly_once:
  assumes "reach (lc_init connect) (lc_step {0}) s"
    and "starts s 0 = StartReturned site e"
    and "stops s j = StopReturned e'" and "\<not> mu_locked (lc s)"
  shows "set (released s) = {..<next_res s} \<and> distinct (released s)"
proof -
  have once: "lc_once s" and acc: "lc_account s"
    using once.inv_reach [OF assms(1)] single.inv_reach [OF assms(1)] by (auto simp: lc_single_def)
  have "stop_ok (lc s) (stops s j)" using acc by (simp add: lc_account_def)
  with assms have "stopped (lc s)" by simp
  with acc assms have "{..<next_res s} \<subseteq> set (released s)" by (auto simp: lc_account_def)
  with once show ?thesis by (auto simp: lc_once_def)
qed

theorem lifecycle_release_exactly_once_witness:
  "\<exists>s. lc_exec stop_race (lc_new True) = Some s \<and> set (released s) = {..<1}"
proof -
  obtain s where s: "lc_exec stop_race (lc_new True) = Some s" and r: "next_res s = 1"
    "starts s 0 = StartReturned CtxDone (Some context_Canceled)" "stops s 0 = StopReturned None"
    "\<not> mu_locked (lc s)"
    using stop_race_run by (auto simp: map_option_case split: option.splits)
  have "reach (lc_init True) (lc_step {0}) s"
    by (rule lc_exec_reach [OF s _ lc_new_reach]) (simp add: stop_race_def)
  from lifecycle_release_exactly_once [OF this r(2,3,4)] s r(1) show ?thesis by auto
qed

text \<open>
  C26: with one call of \<open>Start\<close> nothing panics, and the readiness channel is closed exactly when
  that call has connected before any Stop and is waiting for, or was ended by, its context; a
  missing or failed Connect or an earlier Stop leaves it open.
\<close>

theorem lifecycle_ready_iff_connected:
  assumes "reach (lc_init connect) (lc_step {0}) s"
  shows "starts s i \<noteq> StartPanicked
    \<and> (ready_closed (lc s) \<longleftrightarrow> starts s 0 = Waiting \<or> (\<exists>e. starts s 0 = StartReturned CtxDone e))"
  using single.inv_reach [OF assms] by (cases "i = 0") (auto simp: lc_single_def lc_ready_def)

theorem lifecycle_ready_iff_connected_witness:
  "\<exists>s. lc_exec [ActStart 0, ActConnect 0 (Inr True), ActStop 0, ActCommit 0] (lc_new True) = Some s
     \<and> starts s 0 = StartReleasing 0 \<and> \<not> ready_closed (lc s)"
proof -
  let ?as = "[ActStart 0, ActConnect 0 (Inr True), ActStop 0, ActCommit 0]"
  have "map_option (\<lambda>s. starts s 0) (lc_exec ?as (lc_new True)) = Some (StartReleasing 0)"
    by (simp add: lc_eval)
  then obtain s where s: "lc_exec ?as (lc_new True) = Some s" "starts s 0 = StartReleasing 0"
    by (auto simp: map_option_case split: option.splits)
  have "reach (lc_init True) (lc_step {0}) s"
    by (rule lc_exec_reach [OF s(1) _ lc_new_reach]) simp
  from lifecycle_ready_iff_connected [OF this] s show ?thesis by auto
qed

text \<open>
  The mutex is held across actions only by a \<open>Stop\<close> that is running its closure and unlocks
  when it returns, for any set of starters: no call waits for a lock nobody will release.
\<close>

theorem lifecycle_mutex_has_owner:
  assumes "reach (lc_init connect) (lc_step who) s" and "mu_locked (lc s)"
  shows "\<exists>j r e t. stops s j = StopReleasing r \<and> lc_step who s t
    \<and> stops t j = StopReturned e \<and> \<not> mu_locked (lc t)"
proof -
  obtain j r where j: "stops s j = StopReleasing r"
    using lock.inv_reach [OF assms(1)] assms(2) by (auto simp: lc_lock_def)
  show ?thesis
    using lc_step.stop_release [OF j, of who None] j
    by (intro exI [of _ j] exI [of _ r] exI [of _ None]) (auto simp: Stop_leave_def)
qed

theorem lifecycle_mutex_has_owner_witness:
  "\<exists>s t. lc_exec [ActStart 0, ActConnect 0 (Inr True), ActCommit 0, ActStop 3] (lc_new True) = Some s
     \<and> mu_locked (lc s) \<and> lc_step {0} s t \<and> \<not> mu_locked (lc t)"
proof -
  let ?as = "[ActStart 0, ActConnect 0 (Inr True), ActCommit 0, ActStop 3]"
  have "map_option (\<lambda>s. mu_locked (lc s)) (lc_exec ?as (lc_new True)) = Some True"
    by (simp add: lc_eval)
  then obtain s where s: "lc_exec ?as (lc_new True) = Some s" "mu_locked (lc s)"
    by (auto simp: map_option_case split: option.splits)
  have "reach (lc_init True) (lc_step {0}) s"
    by (rule lc_exec_reach [OF s(1) _ lc_new_reach]) simp
  from lifecycle_mutex_has_owner [OF this s(2)] s show ?thesis by blast
qed

text \<open>
  A second successful \<open>Start\<close> of the same Lifecycle panics on closing the readiness channel
  again, after it has overwritten the first closure: resource 0 is then neither released nor
  reachable through \<open>stopFunc\<close>.
\<close>

theorem lifecycle_second_start_panics:
  "\<exists>s. reach (lc_init True) (lc_step {0, 1}) s \<and> starts s 1 = StartPanicked
     \<and> next_res s = 2 \<and> stopFunc (lc s) = Some 1 \<and> released s = []
     \<and> (\<forall>i. holds (starts s i) \<noteq> Some 0)"
proof -
  let ?as = "[ActStart 0, ActConnect 0 (Inr True), ActCommit 0, ActPublish 0,
              ActStart 1, ActConnect 1 (Inr True), ActCommit 1, ActPublish 1]"
  have "map_option (\<lambda>s. (starts s, next_res s, stopFunc (lc s), released s)) (lc_exec ?as (lc_new True))
      = Some ((\<lambda>_. StartIdle)(0 := Waiting, 1 := StartPanicked), 2, Some 1, [])"
    by (simp add: lc_eval fun_eq_iff)
  then obtain s where s: "lc_exec ?as (lc_new True) = Some s"
    "starts s = (\<lambda>_. StartIdle)(0 := Waiting, 1 := StartPanicked)" "next_res s = 2"
    "stopFunc (lc s) = Some 1" "released s = []"
    by (auto simp: map_option_case split: option.splits)
  have "reach (lc_init True) (lc_step {0, 1}) s"
    by (rule lc_exec_reach [OF s(1) _ lc_new_reach]) simp
  with s show ?thesis by (intro exI [of _ s]) simp
qed

text \<open>
  \<open>WaitReady\<close> blocks only when neither the channel nor the context will ever be ready; with a
  deadline it returns by the deadline, nil only once the channel is closed, and otherwise the
  context's error at a moment at which the channel was not closed before the context was done.
\<close>

theorem WaitReady_honours_deadline:
  "(WaitReady pick ctx ready now = Blocked \<longleftrightarrow> ready = None \<and> ctx_done ctx = None)
   \<and> (\<forall>t. WaitReady pick ctx ready now = Returned (None, t) \<longrightarrow>
        (\<exists>x. ready = Some x \<and> t = max now x \<and> (\<forall>d e. ctx_done ctx = Some (d, e) \<longrightarrow> t \<le> max now d)))
   \<and> (\<forall>e t. WaitReady pick ctx ready now = Returned (Some e, t) \<longrightarrow>
        (\<exists>d. ctx_done ctx = Some (d, e) \<and> t = max now d \<and> (\<forall>x. ready = Some x \<longrightarrow> t \<le> max now x)))"
  by (cases ready; cases "ctx_done ctx")
    (auto simp: WaitReady_def select2_def done_time_def ctx_Err_def split: if_splits bool.splits)

theorem WaitReady_honours_deadline_witness:
  "WaitReady True (Background\<lparr>ctx_done := Some (7, context_DeadlineExceeded)\<rparr>) (Some 9) 2
     = Returned (Some context_DeadlineExceeded, 7)
   \<and> (\<exists>d. ctx_done (Background\<lparr>ctx_done := Some (7, context_DeadlineExceeded)\<rparr>)
            = Some (d, context_DeadlineExceeded) \<and> 7 = max 2 d)"
proof -
  let ?c = "Background\<lparr>ctx_done := Some (7, context_DeadlineExceeded)\<rparr>"
  have "WaitReady True ?c (Some 9) 2 = Returned (Some context_DeadlineExceeded, 7)"
    by (simp add: WaitReady_def select2_def done_time_def ctx_Err_def)
  then show ?thesis using WaitReady_honours_deadline [of True ?c "Some 9" 2] by auto
qed

end
