(* ===== verification/Health.thy ===== *)
theory Health
  imports GoPrelude
begin

text \<open>
  core/healthkit/health.go: checks grouped by kind, a result cache with a time to live, and a
  single evaluation in flight per kind. A check's function takes its context and the moment it is
  called and returns its error and the moment it finishes. The order in which failing checks send
  on the error channel is up to the scheduler: \<open>arrive\<close> is the order of arrival, a permutation.

  Calls of \<open>evaluate\<close> are processed in the order of their arrival times. A call stores its result
  under the moment it finished; another call that arrives before that moment does not see the
  stored result yet but joins the flight, as \<open>singleflight.Group.Do\<close> does. \<open>live_runs\<close> counts the
  evaluations that ran the checks; it exists for the statements only.
\<close>

section \<open>Data\<close>

definition Liveness :: int where [simp]: "Liveness = 0"
definition Readiness :: int where [simp]: "Readiness = 1"
definition Startup :: int where [simp]: "Startup = 2"

definition Kind_String :: "int \<Rightarrow> string" where
  "Kind_String k =
     (if k = Liveness then ''liveness''
      else if k = Readiness then ''readiness''
      else if k = Startup then ''startup''
      else ''unknown'')"

record check =
  check_Fn :: "go_ctx \<Rightarrow> int \<Rightarrow> go_error option \<times> int"
  check_Name :: string
  check_Kind :: int
  check_Timeout :: int

record cachedResult =
  cr_err :: "go_error option"
  cr_at :: int

record 'h aggregator =
  agg_cache :: "int \<Rightarrow> cachedResult option"
  agg_checks :: "int \<Rightarrow> check list"
  cacheTTL :: int
  agg_hook :: "(int \<Rightarrow> int \<Rightarrow> go_error option \<Rightarrow> 'h \<Rightarrow> 'h) option"
  agg_flight :: "int \<Rightarrow> (int \<times> go_error option) option"
  live_runs :: nat

definition defaultCacheTTLFloor :: int where
  "defaultCacheTTLFloor = 1 * Second"

section \<open>Construction and registration\<close>

definition StandardChecks ::
  "string \<Rightarrow> (go_ctx \<Rightarrow> int \<Rightarrow> go_error option \<times> int) \<Rightarrow> check list" where
  "StandardChecks name readyFn =
     [\<lparr>check_Fn = (\<lambda>ctx now. (None, now)), check_Name = name @ ''-liveness'',
       check_Kind = Liveness, check_Timeout = 0\<rparr>,
      \<lparr>check_Fn = readyFn, check_Name = name @ ''-readiness'',
       check_Kind = Readiness, check_Timeout = 2 * Second\<rparr>]"

definition NewAggregator :: "int \<Rightarrow> 'h aggregator" where
  "NewAggregator ttl =
     \<lparr>agg_cache = (\<lambda>_. None), agg_checks = (\<lambda>_. []),
      cacheTTL = (if ttl = 0 then defaultCacheTTLFloor else if ttl < 0 then 0 else ttl),
      agg_hook = None, agg_flight = (\<lambda>_. None), live_runs = 0\<rparr>"

definition with_default_timeout :: "check \<Rightarrow> check" where
  "with_default_timeout c =
     (if check_Timeout c \<le> 0 then c\<lparr>check_Timeout := 300 * Millisecond\<rparr> else c)"

fun Register :: "check list \<Rightarrow> 'h aggregator \<Rightarrow> 'h aggregator" where
  "Register [] a = a"
| "Register (c # cs) a =
     Register cs (a\<lparr>agg_checks := (agg_checks a)(check_Kind c :=
        agg_checks a (check_Kind c) @ [with_default_timeout c])\<rparr>)"

definition SetHook ::
  "(int \<Rightarrow> int \<Rightarrow> go_error option \<Rightarrow> 'h \<Rightarrow> 'h) \<Rightarrow> 'h aggregator \<Rightarrow> 'h aggregator" where
  "SetHook hook a = a\<lparr>agg_hook := Some hook\<rparr>"

section \<open>Evaluation\<close>

definition kind_ok :: "int \<Rightarrow> bool" where
  "kind_ok k \<longleftrightarrow> 0 \<le> k \<and> k < 3"

definition run_check :: "go_ctx \<Rightarrow> int \<Rightarrow> check \<Rightarrow> go_error option \<times> int" where
  "run_check ctx now c =
     (case check_Fn c (WithTimeout ctx now (check_Timeout c)) now of
        (None, t) \<Rightarrow> (None, t)
      | (Some e, t) \<Rightarrow> (Some (wrapf (check_Name c) e), t))"

definition check_errs :: "go_ctx \<Rightarrow> int \<Rightarrow> check list \<Rightarrow> go_error list" where
  "check_errs ctx now cs = List.map_filter (\<lambda>c. fst (run_check ctx now c)) cs"

text \<open>\<open>wg.Wait()\<close>: the last check to finish.\<close>

definition checks_end :: "go_ctx \<Rightarrow> int \<Rightarrow> check list \<Rightarrow> int" where
  "checks_end ctx now cs = fold (\<lambda>c t. max t (snd (run_check ctx now c))) cs now"

definition cache_fresh :: "'h aggregator \<Rightarrow> int \<Rightarrow> int \<Rightarrow> go_error option option" where
  "cache_fresh a kind now =
     (if cacheTTL a > 0
      then (case agg_cache a kind of
              Some r \<Rightarrow> if cr_at r \<le> now \<and> now - cr_at r < cacheTTL a then Some (cr_err r) else None
            | None \<Rightarrow> None)
      else None)"

definition call_hook :: "'h aggregator \<Rightarrow> int \<Rightarrow> int \<Rightarrow> go_error option \<Rightarrow> 'h \<Rightarrow> 'h" where
  "call_hook a kind duration err h =
     (case agg_hook a of None \<Rightarrow> h | Some f \<Rightarrow> f kind duration err h)"

text \<open>The function run inside \<open>flight.Do\<close>: it stores the joined error and when it was obtained.\<close>

definition run_flight ::
  "(go_error list \<Rightarrow> go_error list) \<Rightarrow> go_ctx \<Rightarrow> int \<Rightarrow> int \<Rightarrow> 'h aggregator
     \<Rightarrow> go_error option \<times> int \<times> 'h aggregator" where
  "run_flight arrive ctx kind now a =
     (let cs = agg_checks a kind;
          err = errors_Join (map Some (arrive (check_errs ctx now cs)));
          t = checks_end ctx now cs
      in (err, t, a\<lparr>agg_cache := (agg_cache a)(kind := Some \<lparr>cr_err = err, cr_at = t\<rparr>),
                    agg_flight := (agg_flight a)(kind := Some (t, err)),
                    live_runs := Suc (live_runs a)\<rparr>))"

definition evaluate ::
  "(go_error list \<Rightarrow> go_error list) \<Rightarrow> go_ctx \<Rightarrow> int \<Rightarrow> int \<Rightarrow> 'h aggregator \<Rightarrow> 'h
     \<Rightarrow> go_error option outcome \<times> int \<times> 'h aggregator \<times> 'h" where
  "evaluate arrive ctx kind now a h =
     (if \<not> kind_ok kind
      then (if cacheTTL a > 0 then (Panicked ''index out of range'', now, a, h)
            else (Panicked ''index out of range'', checks_end ctx now (agg_checks a kind),
                  a\<lparr>live_runs := Suc (live_runs a)\<rparr>, h))
      else (case cache_fresh a kind now of
        Some err \<Rightarrow> (Returned err, now, a, h)
      | None \<Rightarrow>
          (case agg_flight a kind of
             Some (t, err) \<Rightarrow>
               if now < t then (Returned err, t, a, call_hook a kind (t - now) err h)
               else (case run_flight arrive ctx kind now a of
                       (err', t', a') \<Rightarrow> (Returned err', t', a', call_hook a kind (t' - now) err' h))
           | None \<Rightarrow>
               (case run_flight arrive ctx kind now a of
                  (err', t', a') \<Rightarrow> (Returned err', t', a', call_hook a kind (t' - now) err' h)))))"

section \<open>The HTTP handler\<close>

type_synonym response = "int \<times> string"

definition Handler ::
  "(go_error list \<Rightarrow> go_error list) \<Rightarrow> int \<Rightarrow> go_ctx \<Rightarrow> int \<Rightarrow> 'h aggregator \<Rightarrow> 'h
     \<Rightarrow> response outcome \<times> int \<times> 'h aggregator \<times> 'h" where
  "Handler arrive kind ctx now a h =
     (case evaluate arrive ctx kind now a h of
        (Returned (Some err), t, a', h') \<Rightarrow> (Returned (503, error_text err), t, a', h')
      | (Returned None, t, a', h') \<Rightarrow> (Returned (200, ''ok''), t, a', h')
      | (Panicked m, t, a', h') \<Rightarrow> (Panicked m, t, a', h')
      | (Blocked, t, a', h') \<Rightarrow> (Blocked, t, a', h'))"

section \<open>Lemmas\<close>

lemma agg_checks_Register:
  "agg_checks (Register cs a) k
   = agg_checks a k @ map with_default_timeout (filter (\<lambda>c. check_Kind c = k) cs)"
  by (induction cs arbitrary: a) auto

lemma Register_frame [simp]:
  "agg_cache (Register cs a) = agg_cache a" "cacheTTL (Register cs a) = cacheTTL a"
  "agg_hook (Register cs a) = agg_hook a" "agg_flight (Register cs a) = agg_flight a"
  "live_runs (Register cs a) = live_runs a"
  by (induction cs arbitrary: a) auto

lemma with_default_timeout_pos [simp]: "0 < check_Timeout (with_default_timeout c)"
  by (simp add: with_default_timeout_def Millisecond_def)

lemma with_default_timeout_frame [simp]:
  "check_Fn (with_default_timeout c) = check_Fn c" "check_Name (with_default_timeout c) = check_Name c"
  "check_Kind (with_default_timeout c) = check_Kind c"
  by (simp_all add: with_default_timeout_def)

lemma set_check_errs:
  "e \<in> set (check_errs ctx now cs) \<longleftrightarrow> (\<exists>c\<in>set cs. fst (run_check ctx now c) = Some e)"
  by (auto simp: check_errs_def List.map_filter_def image_iff)

lemma check_errs_Nil:
  "check_errs ctx now cs = [] \<longleftrightarrow> (\<forall>c\<in>set cs. fst (run_check ctx now c) = None)"
  by (auto simp: check_errs_def List.map_filter_def filter_empty_conv)

lemma arrive_Nil: "(\<And>xs. mset (arrive xs) = mset xs) \<Longrightarrow> arrive xs = [] \<longleftrightarrow> xs = []"
  by (metis mset_zero_iff)

lemma checks_end_ge: "now \<le> checks_end ctx now cs"
proof -
  have "x \<le> fold (\<lambda>c t. max t (snd (run_check ctx now c))) cs x" for x
    by (induction cs arbitrary: x) (auto intro: order_trans [OF max.cobounded1])
  then show ?thesis by (simp add: checks_end_def)
qed

text \<open>The verdict a live evaluation gives: nil exactly when every registered check passes.\<close>

definition all_pass :: "go_ctx \<Rightarrow> int \<Rightarrow> check list \<Rightarrow> bool" where
  "all_pass ctx now cs = list_all (\<lambda>c. fst (check_Fn c (WithTimeout ctx now (check_Timeout c)) now) = None) cs"

lemma run_check_None:
  "fst (run_check ctx now c) = None
   \<longleftrightarrow> fst (check_Fn c (WithTimeout ctx now (check_Timeout c)) now) = None"
  by (auto simp: run_check_def split: prod.splits option.splits)

lemma check_errs_all_pass: "check_errs ctx now cs = [] \<longleftrightarrow> all_pass ctx now cs"
  by (simp add: check_errs_Nil run_check_None all_pass_def list_all_iff)

lemma run_flight_err:
  assumes "\<And>xs. mset (arrive xs) = mset xs" and "run_flight arrive ctx kind now a = (err, t, a')"
  shows "err = None \<longleftrightarrow> all_pass ctx now (agg_checks a kind)"
    and "err = Some x \<Longrightarrow> \<exists>es. x = JoinError es \<and> mset es = mset (check_errs ctx now (agg_checks a kind))"
  using assms arrive_Nil [of arrive]
  by (auto simp: run_flight_def Let_def check_errs_all_pass split: if_splits)

lemma evaluate_flight:
  assumes "kind_ok kind" and "cache_fresh a kind now = None"
    and "\<And>t e. agg_flight a kind = Some (t, e) \<Longrightarrow> t \<le> now"
    and "run_flight arrive ctx kind now a = (err, t, a')"
  shows "evaluate arrive ctx kind now a h = (Returned err, t, a', call_hook a kind (t - now) err h)"
  using assms by (force simp: evaluate_def split: option.splits)

section \<open>Properties\<close>

text \<open>
  Registration keeps, per kind, the checks in registration order after those already there,
  touches no other kind, and leaves every check with a positive timeout: its own, or 300ms when it
  came with none.
\<close>

theorem Register_appends:
  assumes "\<And>c. c \<in> set (agg_checks a k) \<Longrightarrow> 0 < check_Timeout c"
  shows "agg_checks (Register cs a) k
      = agg_checks a k @ map with_default_timeout (filter (\<lambda>c. check_Kind c = k) cs)
    \<and> (\<forall>c\<in>set (agg_checks (Register cs a) k). 0 < check_Timeout c)
    \<and> (\<forall>c. 0 < check_Timeout c \<longrightarrow> with_default_timeout c = c)"
  using assms by (auto simp: agg_checks_Register with_default_timeout_def [of "_ :: check"] Millisecond_def)

theorem Register_appends_witness:
  "agg_checks (Register (StandardChecks ''db'' (\<lambda>c t. (None, t))) (NewAggregator 0 :: unit aggregator)) Liveness
   = [\<lparr>check_Fn = (\<lambda>ctx now. (None, now)), check_Name = ''db-liveness'', check_Kind = Liveness,
      check_Timeout = 300000000\<rparr>]"
  using Register_appends [of "NewAggregator 0 :: unit aggregator" Liveness "StandardChecks ''db'' (\<lambda>c t. (None, t))"]
  by (simp add: NewAggregator_def StandardChecks_def with_default_timeout_def Millisecond_def)

text \<open>
  C11: an evaluation that neither finds a fresh cached result nor joins a flight returns nil
  exactly when every check of its kind passes under the caller's context bounded by the check's
  timeout; otherwise it returns the join of precisely the failing checks' errors, each prefixed
  with its check's name, in some order. The result is cached with the moment it was obtained.
\<close>

theorem evaluate_live_verdict:
  assumes "\<And>xs. mset (arrive xs) = mset xs" and "kind_ok kind" and "cache_fresh a kind now = None"
    and "\<And>t e. agg_flight a kind = Some (t, e) \<Longrightarrow> t \<le> now"
    and "evaluate arrive ctx kind now a h = (r, t, a', h')"
  shows "(r = Returned None \<longleftrightarrow> all_pass ctx now (agg_checks a kind))
    \<and> (\<forall>x. r = Returned (Some x) \<longrightarrow>
          (\<exists>es. x = JoinError es \<and> mset es = mset (check_errs ctx now (agg_checks a kind))))
    \<and> (\<exists>err. r = Returned err \<and> agg_cache a' kind = Some \<lparr>cr_err = err, cr_at = t\<rparr>
           \<and> h' = call_hook a kind (t - now) err h)
    \<and> now \<le> t \<and> live_runs a' = Suc (live_runs a)"
proof -
  obtain err t1 a1 where f: "run_flight arrive ctx kind now a = (err, t1, a1)"
    by (cases "run_flight arrive ctx kind now a") auto
  with evaluate_flight [OF assms(2,3,4) f, where h = h] assms(5)
  have eq: "r = Returned err" "t = t1" "a' = a1" "h' = call_hook a kind (t1 - now) err h" by auto
  have "t1 = checks_end ctx now (agg_checks a kind)" "live_runs a1 = Suc (live_runs a)"
    "agg_cache a1 kind = Some \<lparr>cr_err = err, cr_at = t1\<rparr>"
    using f by (auto simp: run_flight_def Let_def)
  with eq run_flight_err [OF assms(1) f] show ?thesis by (auto simp: checks_end_ge)
qed

definition probe_agg :: "nat aggregator" where
  "probe_agg = SetHook (\<lambda>k d e n. Suc n)
     (Register [\<lparr>check_Fn = (\<lambda>c t. (ctx_Err c t, t + 3)), check_Name = ''db'',
                 check_Kind = Readiness, check_Timeout = 50\<rparr>] (NewAggregator 0))"

definition gone_client :: go_ctx where
  "gone_client = Background\<lparr>ctx_done := Some (0, context_Canceled)\<rparr>"

lemmas health_eval =
  evaluate_def run_flight_def run_check_def check_errs_def checks_end_def cache_fresh_def call_hook_def
  probe_agg_def gone_client_def SetHook_def NewAggregator_def with_default_timeout_def kind_ok_def
  WithTimeout_def ctx_Err_def Background_def defaultCacheTTLFloor_def Second_def Let_def
  List.map_filter_def all_pass_def errors_Join_def

theorem evaluate_live_verdict_witness:
  "fst (evaluate rev Background Readiness 0 probe_agg 0) = Returned None
   \<and> all_pass Background 0 (agg_checks probe_agg Readiness)"
proof -
  have r: "evaluate rev Background Readiness 0 probe_agg 0
      = (Returned None, 3, snd (snd (evaluate rev Background Readiness 0 probe_agg 0)))"
    by (simp add: health_eval)
  show ?thesis
    using evaluate_live_verdict [of rev Readiness probe_agg 0 Background 0] r
    by (cases "snd (snd (evaluate rev Background Readiness 0 probe_agg 0))") (auto simp: health_eval)
qed

text \<open>
  Within the time to live of a cached result every caller gets that result at once, whatever
  its context; no check runs, the hook is not called and nothing changes. A caller that arrives
  while an evaluation of its kind is in flight gets that evaluation's result without running the
  checks again.
\<close>

theorem evaluate_collapses:
  assumes "kind_ok kind" and "0 < cacheTTL a" and "evaluate arrive ctx kind now a h = (r, t, a', h')"
    and "cache_fresh a kind now = None" and "\<And>t e. agg_flight a kind = Some (t, e) \<Longrightarrow> t \<le> now"
    and "now \<le> now2" and "now2 < t + cacheTTL a"
  shows "(t \<le> now2 \<longrightarrow> evaluate arrive2 ctx2 kind now2 a' h2 = (r, now2, a', h2))
    \<and> (now2 < t \<longrightarrow> (\<exists>h3. evaluate arrive2 ctx2 kind now2 a' h2 = (r, t, a', h3)))"
proof -
  obtain err t1 a1 where f: "run_flight arrive ctx kind now a = (err, t1, a1)"
    by (cases "run_flight arrive ctx kind now a") auto
  with evaluate_flight [OF assms(1,4,5) f, where h = h] assms(3)
  have eq: "r = Returned err" "t = t1" "a' = a1" by auto
  have "agg_cache a1 kind = Some \<lparr>cr_err = err, cr_at = t1\<rparr>" "agg_flight a1 kind = Some (t1, err)"
    "cacheTTL a1 = cacheTTL a"
    using f by (auto simp: run_flight_def Let_def)
  with eq assms show ?thesis by (auto simp: evaluate_def cache_fresh_def)
qed

theorem evaluate_collapses_witness:
  "fst (evaluate id Background Readiness 2 (fst (snd (snd (evaluate id Background Readiness 0 probe_agg 0)))) 7)
     = Returned None"
proof -
  let ?e = "evaluate id Background Readiness 0 probe_agg 0"
  obtain a' h' where e: "?e = (Returned None, 3, a', h')"
    by (simp add: health_eval)
  have "\<exists>h3. evaluate id Background Readiness 2 a' 7 = (Returned None, 3, a', h3)"
    using evaluate_collapses [OF _ _ e, of 2 id Background 7] by (simp add: health_eval)
  with e show ?thesis by auto
qed

text \<open>
  With a negative TTL nothing is ever served from the cache: every call that joins no flight
  runs the checks.
\<close>

theorem evaluate_uncached:
  assumes "ttl < 0" and "cacheTTL a = cacheTTL (NewAggregator ttl :: 'h aggregator)" and "kind_ok kind"
    and "\<And>t e. agg_flight a kind = Some (t, e) \<Longrightarrow> t \<le> now"
    and "evaluate arrive ctx kind now (a :: 'h aggregator) h = (r, t, a', h')"
  shows "live_runs a' = Suc (live_runs a)"
proof -
  have "cache_fresh a kind now = None" using assms(1,2) by (simp add: cache_fresh_def NewAggregator_def)
  moreover obtain err t1 a1 where f: "run_flight arrive ctx kind now a = (err, t1, a1)"
    by (cases "run_flight arrive ctx kind now a") auto
  ultimately show ?thesis
    using evaluate_flight [OF assms(3) _ assms(4) f, where h = h] assms(5) f
    by (auto simp: run_flight_def Let_def)
qed

theorem evaluate_uncached_witness:
  "\<exists>r t a' h'. evaluate id Background Liveness 5 (NewAggregator (-1) :: unit aggregator) () = (r, t, a', h')
     \<and> live_runs a' = 1"
proof -
  obtain r t a' h' where e: "evaluate id Background Liveness 5 (NewAggregator (-1) :: unit aggregator) () = (r, t, a', h')"
    by (cases "evaluate id Background Liveness 5 (NewAggregator (-1) :: unit aggregator) ()") auto
  have "live_runs a' = Suc 0"
    using evaluate_uncached [OF _ _ _ _ e, of "-1"] by (simp add: NewAggregator_def kind_ok_def)
  with e show ?thesis by auto
qed

text \<open>
  The handler answers 200 \<open>ok\<close> exactly when the evaluation returns nil, 503 with the error's
  text when it returns an error, and only a kind outside the three constants makes it panic.
\<close>

theorem Handler_status:
  "(fst (Handler arrive kind ctx now a h) = Returned (200, ''ok'')
      \<longleftrightarrow> fst (evaluate arrive ctx kind now a h) = Returned None)
   \<and> (\<forall>e. fst (evaluate arrive ctx kind now a h) = Returned (Some e) \<longrightarrow>
        fst (Handler arrive kind ctx now a h) = Returned (503, error_text e))
   \<and> (kind_ok kind \<longleftrightarrow> (\<exists>status body. fst (Handler arrive kind ctx now a h) = Returned (status, body)
                        \<and> (status = 200 \<or> status = 503)))"
  by (auto simp: Handler_def evaluate_def split: prod.splits option.splits if_splits)

theorem Handler_status_witness:
  "fst (Handler id Readiness gone_client 0 probe_agg 0) = Returned (503, ''db: context canceled'')"
  using Handler_status [of id Readiness gone_client 0 probe_agg 0]
  by (simp add: health_eval wrapf_def context_Canceled_def)

text \<open>
  The standard pair. The liveness check passes under every context and at every time, so
  components built on it never fail liveness; the readiness verdict is that of the supplied
  function under a context bounded by two seconds.
\<close>

theorem StandardChecks_verdicts:
  "let agg = Register (StandardChecks name readyFn) (NewAggregator ttl) :: 'h aggregator in
     all_pass ctx now (agg_checks agg Liveness)
     \<and> (all_pass ctx now (agg_checks agg Readiness)
         \<longleftrightarrow> fst (readyFn (WithTimeout ctx now 2000000000) now) = None)
     \<and> agg_checks agg Startup = []"
  by (simp add: agg_checks_Register StandardChecks_def NewAggregator_def all_pass_def
      with_default_timeout_def Second_def)


end
