(* ===== verification/Cache.thy ===== *)
theory Cache
  imports Retry Lifecycle Health
begin

text \<open>
  cachekit/cache.go, cachekit/generics.go and cachekit/memcache/memcache.go: the cache interface
  with its two implementations. \<open>'v\<close> is the type of the cached values. The go-redis client is not
  part of the repository: it is the parameter \<open>redis\<close> (a record of its methods over a world with a
  clock, \<open>int \<times> 's\<close>), and so is the default codec \<open>dc\<close>, which is encoding/json.
\<close>

section \<open>The interface\<close>

text \<open>\<open>Unmarshal\<close> writes into the destination it is given, also when it fails.\<close>

record 'v codec =
  Marshal :: "'v \<Rightarrow> go_error + string"
  Unmarshal :: "string \<Rightarrow> 'v \<Rightarrow> 'v \<times> go_error option"

text \<open>What a codec is relied on for: a value it reads back without an error is the value it wrote.\<close>

definition reads_back :: "('v \<Rightarrow> bool) \<Rightarrow> 'v codec \<Rightarrow> bool" where
  "reads_back P K \<longleftrightarrow> (\<forall>v b d q. P v \<longrightarrow> Marshal K v = Inr b \<longrightarrow> Unmarshal K b d = (q, None) \<longrightarrow> q = v)"

lemma reads_backD: "reads_back P K \<Longrightarrow> P v \<Longrightarrow> Marshal K v = Inr b \<Longrightarrow> Unmarshal K b d = (q, None) \<Longrightarrow> q = v"
  by (auto simp: reads_back_def)

lemma reads_back_mono: "reads_back P K \<Longrightarrow> (\<And>v. Q v \<Longrightarrow> P v) \<Longrightarrow> reads_back Q K"
  by (auto simp: reads_back_def)

lemma exact_reads_back: "(\<And>v b d. Marshal K v = Inr b \<Longrightarrow> Unmarshal K b d = (v, None)) \<Longrightarrow> reads_back P K"
  by (auto simp: reads_back_def)

record ('w, 'v) cache =
  cache_Get :: "go_ctx \<Rightarrow> string \<Rightarrow> 'v \<Rightarrow> ('w, 'v \<times> go_error option) action"
  cache_Set :: "go_ctx \<Rightarrow> string \<Rightarrow> 'v \<Rightarrow> int \<Rightarrow> ('w, go_error option) action"
  cache_Delete :: "go_ctx \<Rightarrow> string \<Rightarrow> ('w, go_error option) action"
  cache_Exists :: "go_ctx \<Rightarrow> string \<Rightarrow> ('w, bool \<times> go_error option) action"

definition ErrCacheMiss :: go_error where
  "ErrCacheMiss = ErrorString (Sentinel ''cachekit.ErrCacheMiss'') ''cache miss''"

text \<open>The generic helpers; \<open>zero\<close> is the zero value of the type parameter.\<close>

definition Get_T :: "'v \<Rightarrow> go_ctx \<Rightarrow> ('w, 'v) cache \<Rightarrow> string \<Rightarrow> ('w, 'v \<times> go_error option) action" where
  "Get_T zero ctx c key = cache_Get c ctx key zero"

definition Set_T :: "go_ctx \<Rightarrow> ('w, 'v) cache \<Rightarrow> string \<Rightarrow> 'v \<Rightarrow> int \<Rightarrow> ('w, go_error option) action" where
  "Set_T ctx c key value ttl = cache_Set c ctx key value ttl"

section \<open>MemoryCache\<close>

record 'v MemoryCache =
  mc_data :: "string \<Rightarrow> string option"
  mc_codec :: "'v codec option"

definition mc_WithCodec :: "'v codec option \<Rightarrow> 'v MemoryCache \<Rightarrow> 'v MemoryCache" where
  "mc_WithCodec codec c = (if codec \<noteq> None then c\<lparr>mc_codec := codec\<rparr> else c)"

definition mc_New :: "('v MemoryCache \<Rightarrow> 'v MemoryCache) list \<Rightarrow> 'v MemoryCache" where
  "mc_New opts = fold (\<lambda>opt c. opt c) opts \<lparr>mc_data = (\<lambda>_. None), mc_codec = None\<rparr>"

definition mc_codecOrDefault :: "'v codec \<Rightarrow> 'v MemoryCache \<Rightarrow> 'v codec" where
  "mc_codecOrDefault dc c = (case mc_codec c of Some k \<Rightarrow> k | None \<Rightarrow> dc)"

definition mc_Get :: "'v codec \<Rightarrow> go_ctx \<Rightarrow> string \<Rightarrow> 'v \<Rightarrow> ('v MemoryCache, 'v \<times> go_error option) action" where
  "mc_Get dc ctx key dest c =
     (case mc_data c key of
        None \<Rightarrow> (Returned (dest, Some (wrapf key ErrCacheMiss)), c)
      | Some v \<Rightarrow> (Returned (Unmarshal (mc_codecOrDefault dc c) v dest), c))"

definition mc_Set :: "'v codec \<Rightarrow> go_ctx \<Rightarrow> string \<Rightarrow> 'v \<Rightarrow> int \<Rightarrow> ('v MemoryCache, go_error option) action" where
  "mc_Set dc ctx key value ttl c =
     (case Marshal (mc_codecOrDefault dc c) value of
        Inl err \<Rightarrow> (Returned (Some err), c)
      | Inr b \<Rightarrow> (Returned None, c\<lparr>mc_data := (mc_data c)(key \<mapsto> b)\<rparr>))"

definition mc_Delete :: "go_ctx \<Rightarrow> string \<Rightarrow> ('v MemoryCache, go_error option) action" where
  "mc_Delete ctx key c = (Returned None, c\<lparr>mc_data := (mc_data c)(key := None)\<rparr>)"

definition mc_Exists :: "go_ctx \<Rightarrow> string \<Rightarrow> ('v MemoryCache, bool \<times> go_error option) action" where
  "mc_Exists ctx key c = (Returned (mc_data c key \<noteq> None, None), c)"

definition mc_Reset :: "'v MemoryCache \<Rightarrow> 'v MemoryCache" where
  "mc_Reset c = c\<lparr>mc_data := (\<lambda>_. None)\<rparr>"

definition MemoryCache_cache :: "'v codec \<Rightarrow> ('v MemoryCache, 'v) cache" where
  "MemoryCache_cache dc =
     \<lparr>cache_Get = mc_Get dc, cache_Set = mc_Set dc, cache_Delete = mc_Delete, cache_Exists = mc_Exists\<rparr>"

section \<open>RedisCache\<close>

record redis_Options =
  ro_Addr :: string
  ro_Password :: string
  ro_DB :: int
  ro_Username :: string

text \<open>The methods of the go-redis client the code calls, on client handles \<open>'cl\<close>.\<close>

record ('cl, 's) redis =
  redis_NewClient :: "redis_Options \<Rightarrow> int \<times> 's \<Rightarrow> 'cl \<times> int \<times> 's"
  redis_Ping :: "'cl \<Rightarrow> go_ctx \<Rightarrow> int \<times> 's \<Rightarrow> go_error option \<times> int \<times> 's"
  redis_Close :: "'cl \<Rightarrow> int \<times> 's \<Rightarrow> go_error option \<times> int \<times> 's"
  redis_Set :: "'cl \<Rightarrow> go_ctx \<Rightarrow> string \<Rightarrow> string \<Rightarrow> int \<Rightarrow> int \<times> 's \<Rightarrow> go_error option \<times> int \<times> 's"
  redis_Get :: "'cl \<Rightarrow> go_ctx \<Rightarrow> string \<Rightarrow> int \<times> 's \<Rightarrow> (string \<times> go_error option) \<times> int \<times> 's"
  redis_Del :: "'cl \<Rightarrow> go_ctx \<Rightarrow> string \<Rightarrow> int \<times> 's \<Rightarrow> (int \<times> go_error option) \<times> int \<times> 's"
  redis_Exists :: "'cl \<Rightarrow> go_ctx \<Rightarrow> string \<Rightarrow> int \<times> 's \<Rightarrow> (int \<times> go_error option) \<times> int \<times> 's"

definition redis_Nil :: go_error where
  "redis_Nil = ErrorString (Sentinel ''redis.Nil'') ''redis: nil''"

record ('cl, 'v) RedisCache =
  rc_client :: "'cl option"
  rc_options :: redis_Options
  rc_codec :: "'v codec option"
  rc_name :: string
  rc_logger :: bool
  rc_retryAttempts :: int
  rc_retryBackoff :: int

type_synonym ('cl, 'v) redis_option = "('cl, 'v) RedisCache \<Rightarrow> ('cl, 'v) RedisCache"

definition rc_WithName :: "string \<Rightarrow> ('cl, 'v) redis_option" where
  "rc_WithName name r = r\<lparr>rc_name := name\<rparr>"

definition rc_WithLogger :: "bool \<Rightarrow> ('cl, 'v) redis_option" where
  "rc_WithLogger logger r = r\<lparr>rc_logger := logger\<rparr>"

definition rc_WithConnectRetry :: "int \<Rightarrow> int \<Rightarrow> ('cl, 'v) redis_option" where
  "rc_WithConnectRetry maxAttempts backoff r =
     (if maxAttempts > 0 \<and> backoff > 0
      then r\<lparr>rc_retryAttempts := maxAttempts, rc_retryBackoff := backoff\<rparr> else r)"

definition rc_WithPassword :: "string \<Rightarrow> ('cl, 'v) redis_option" where
  "rc_WithPassword password r = r\<lparr>rc_options := (rc_options r)\<lparr>ro_Password := password\<rparr>\<rparr>"

definition rc_WithDB :: "int \<Rightarrow> ('cl, 'v) redis_option" where
  "rc_WithDB db r = r\<lparr>rc_options := (rc_options r)\<lparr>ro_DB := db\<rparr>\<rparr>"

definition rc_WithUsername :: "string \<Rightarrow> ('cl, 'v) redis_option" where
  "rc_WithUsername username r = r\<lparr>rc_options := (rc_options r)\<lparr>ro_Username := username\<rparr>\<rparr>"

definition rc_WithCodec :: "'v codec option \<Rightarrow> ('cl, 'v) redis_option" where
  "rc_WithCodec codec r = (if codec \<noteq> None then r\<lparr>rc_codec := codec\<rparr> else r)"

definition NewRedisCache :: "string \<Rightarrow> ('cl, 'v) redis_option list \<Rightarrow> go_error + ('cl, 'v) RedisCache" where
  "NewRedisCache addr options =
     (if addr = [] then Inl (errors_New ''redis address cannot be empty'')
      else Inr (fold (\<lambda>option c. option c) options
        \<lparr>rc_client = None,
         rc_options = \<lparr>ro_Addr = addr, ro_Password = [], ro_DB = 0, ro_Username = []\<rparr>,
         rc_codec = None, rc_name = ''redis-cache'', rc_logger = False,
         rc_retryAttempts = 0, rc_retryBackoff = 0\<rparr>))"

text \<open>
  One attempt of the connect closure: the state beside the world is the captured variable
  \<open>client\<close>.
\<close>

definition redis_attempt ::
  "('cl, 's) redis \<Rightarrow> redis_Options \<Rightarrow> ('s \<times> 'cl option) attempt_fn" where
  "redis_attempt R options ctx now sc =
     (case redis_NewClient R options (now, fst sc) of (c, w1) \<Rightarrow>
        case redis_Ping R c ctx w1 of
          (Some pingErr, w2) \<Rightarrow>
            (case redis_Close R c w2 of (_, t3, s3) \<Rightarrow> (Some pingErr, t3, s3, snd sc))
        | (None, t2, s2) \<Rightarrow> (None, t2, s2, Some c))"

definition redis_connect ::
  "('cl, 's) redis \<Rightarrow> (nat \<Rightarrow> int \<Rightarrow> int option) \<Rightarrow> (nat \<Rightarrow> bool) \<Rightarrow> go_ctx \<Rightarrow> ('cl, 'v) RedisCache
     \<Rightarrow> int \<times> 's \<Rightarrow> go_error option \<times> ('cl, 'v) RedisCache \<times> int \<times> 's" where
  "redis_connect R rand pick ctx cache w =
     (let attempts = (if rc_retryAttempts cache \<le> 0 then 1 else rc_retryAttempts cache) in
      case retry_Do ctx attempts (rc_retryBackoff cache) (redis_attempt R (rc_options cache))
             rand pick (fst w) (snd w, None) of
        (Some err, t, s, _) \<Rightarrow> (Some (wrapf ''failed to connect to Redis'' err), cache, t, s)
      | (None, t, s, client) \<Rightarrow> (None, cache\<lparr>rc_client := client\<rparr>, t, s))"

abbreviation nil_deref :: "'a outcome" where
  "nil_deref \<equiv> Panicked ''nil pointer dereference''"

definition redis_stop ::
  "('cl, 's) redis \<Rightarrow> ('cl, 'v) RedisCache \<Rightarrow> go_ctx \<Rightarrow> (int \<times> 's, go_error option) action" where
  "redis_stop R cache ctx w =
     (case rc_client cache of None \<Rightarrow> (nil_deref, w) | Some c \<Rightarrow> act_call (redis_Close R c) w)"

definition rc_codecOrDefault :: "'v codec \<Rightarrow> ('cl, 'v) RedisCache \<Rightarrow> 'v codec" where
  "rc_codecOrDefault dc r = (case rc_codec r of Some k \<Rightarrow> k | None \<Rightarrow> dc)"

definition rc_Set ::
  "('cl, 's) redis \<Rightarrow> 'v codec \<Rightarrow> ('cl, 'v) RedisCache
     \<Rightarrow> go_ctx \<Rightarrow> string \<Rightarrow> 'v \<Rightarrow> int \<Rightarrow> (int \<times> 's, go_error option) action" where
  "rc_Set R dc r ctx key value expiration w =
     (case Marshal (rc_codecOrDefault dc r) value of
        Inl err \<Rightarrow> (Returned (Some err), w)
      | Inr b \<Rightarrow>
          (case rc_client r of
             None \<Rightarrow> (nil_deref, w)
           | Some c \<Rightarrow> act_call (redis_Set R c ctx key b expiration) w))"

definition rc_Get ::
  "('cl, 's) redis \<Rightarrow> 'v codec \<Rightarrow> ('cl, 'v) RedisCache
     \<Rightarrow> go_ctx \<Rightarrow> string \<Rightarrow> 'v \<Rightarrow> (int \<times> 's, 'v \<times> go_error option) action" where
  "rc_Get R dc r ctx key dest w =
     (case rc_client r of
        None \<Rightarrow> (nil_deref, w)
      | Some c \<Rightarrow>
          (case redis_Get R c ctx key w of
             ((str, Some err), w') \<Rightarrow>
               (if errors_Is err ''redis.Nil'' then (Returned (dest, Some (wrapf key ErrCacheMiss)), w')
                else (Returned (dest, Some err), w'))
           | ((str, None), w') \<Rightarrow> (Returned (Unmarshal (rc_codecOrDefault dc r) str dest), w')))"

definition rc_Delete ::
  "('cl, 's) redis \<Rightarrow> ('cl, 'v) RedisCache \<Rightarrow> go_ctx \<Rightarrow> string \<Rightarrow> (int \<times> 's, go_error option) action" where
  "rc_Delete R r ctx key w =
     (case rc_client r of
        None \<Rightarrow> (nil_deref, w)
      | Some c \<Rightarrow> (case redis_Del R c ctx key w of ((n, err), w') \<Rightarrow> (Returned err, w')))"

definition rc_Exists ::
  "('cl, 's) redis \<Rightarrow> ('cl, 'v) RedisCache \<Rightarrow> go_ctx \<Rightarrow> string \<Rightarrow> (int \<times> 's, bool \<times> go_error option) action" where
  "rc_Exists R r ctx key w =
     (case rc_client r of
        None \<Rightarrow> (nil_deref, w)
      | Some c \<Rightarrow> (case redis_Exists R c ctx key w of ((n, err), w') \<Rightarrow> (Returned (n > 0, err), w')))"

definition RedisCache_cache :: "('cl, 's) redis \<Rightarrow> 'v codec \<Rightarrow> ('cl, 'v) RedisCache \<Rightarrow> (int \<times> 's, 'v) cache" where
  "RedisCache_cache R dc r =
     \<lparr>cache_Get = rc_Get R dc r, cache_Set = rc_Set R dc r, cache_Delete = rc_Delete R r,
      cache_Exists = rc_Exists R r\<rparr>"

definition rc_HealthChecks :: "('cl, 's) redis \<Rightarrow> ('cl, 'v) RedisCache \<Rightarrow> 's \<Rightarrow> check list" where
  "rc_HealthChecks R r s =
     StandardChecks (rc_name r) (\<lambda>ctx now.
       case rc_client r of
         None \<Rightarrow> (Some (errors_New ''redis client is not initialized''), now)
       | Some c \<Rightarrow> (case redis_Ping R c ctx (now, s) of (err, t, _) \<Rightarrow> (err, t)))"

section \<open>What a cache promises\<close>

text \<open>
  The contract every implementation keeps, stated over the bytes it holds (\<open>view\<close>): an entry may
  vanish at any time, but a value that \<open>Get\<close> delivers was decoded from the stored bytes, \<open>Set\<close>
  changes at most its own key, to the encoded value, and a successful \<open>Delete\<close> leaves no entry.
  \<open>inv\<close> is what the implementation's state satisfies between calls.
\<close>

locale lossy_cache =
  fixes C :: "('w, 'v) cache" and K :: "'v codec" and view :: "'w \<Rightarrow> string \<Rightarrow> string option"
    and inv :: "'w \<Rightarrow> bool"
  assumes get_law: "inv w \<Longrightarrow> cache_Get C ctx key d w = (Returned (d', e), w') \<Longrightarrow>
      inv w' \<and> view w' \<subseteq>\<^sub>m view w \<and>
      (e = None \<longrightarrow> (\<exists>b. view w key = Some b \<and> Unmarshal K b d = (d', None)))"
    and set_law: "inv w \<Longrightarrow> cache_Set C ctx key v ttl w = (Returned e, w') \<Longrightarrow>
      inv w' \<and> ((\<exists>b. Marshal K v = Inr b \<and> view w' \<subseteq>\<^sub>m (view w)(key \<mapsto> b))
                 \<or> (e \<noteq> None \<and> view w' \<subseteq>\<^sub>m view w))"
    and delete_law: "inv w \<Longrightarrow> cache_Delete C ctx key w = (Returned e, w') \<Longrightarrow>
      inv w' \<and> view w' \<subseteq>\<^sub>m view w \<and> (e = None \<longrightarrow> view w' key = None)"
    and exists_law: "inv w \<Longrightarrow> cache_Exists C ctx key w = (Returned (b, e), w') \<Longrightarrow>
      inv w' \<and> view w' \<subseteq>\<^sub>m view w \<and> (e = None \<longrightarrow> b = (view w' key \<noteq> None))"
begin

text \<open>Every entry encodes what \<open>f\<close> says about its key.\<close>

definition coherent :: "(string \<Rightarrow> 'v option) \<Rightarrow> 'w \<Rightarrow> bool" where
  "coherent f w \<longleftrightarrow> (\<forall>key b. view w key = Some b \<longrightarrow> (\<exists>v. f key = Some v \<and> Marshal K v = Inr b))"

lemma coherent_sub: "coherent f w \<Longrightarrow> view w' \<subseteq>\<^sub>m view w \<Longrightarrow> coherent f w'"
  unfolding coherent_def map_le_def by (metis domI)

lemma coherent_get:
  assumes "inv w" and "coherent f w" and "cache_Get C ctx key d w = (Returned (d', e), w')"
  shows "inv w'" "coherent f w'"
    "e = None \<Longrightarrow> \<exists>v b. f key = Some v \<and> Marshal K v = Inr b \<and> Unmarshal K b d = (d', None)"
  using get_law [OF assms(1,3)] assms(2) coherent_sub unfolding coherent_def by blast+

lemma coherent_set:
  assumes "inv w" and "coherent f w" and "f key = Some v" and "cache_Set C ctx key v ttl w = (Returned e, w')"
  shows "inv w'" "coherent f w'"
proof -
  show "inv w'" using set_law [OF assms(1,4)] by blast
  consider b where "Marshal K v = Inr b" "view w' \<subseteq>\<^sub>m (view w)(key \<mapsto> b)" | "view w' \<subseteq>\<^sub>m view w"
    using set_law [OF assms(1,4)] by blast
  then show "coherent f w'"
  proof cases
    case (1 b)
    have "\<exists>v'. f k = Some v' \<and> Marshal K v' = Inr x" if "view w' k = Some x" for k x
    proof (cases "k = key")
      case True
      with that 1(2) have "x = b" by (auto simp: map_le_def dom_def)
      with True 1(1) assms(3) show ?thesis by auto
    next
      case False
      with that 1(2) have "view w k = Some x" by (auto simp: map_le_def dom_def)
      with assms(2) show ?thesis by (simp add: coherent_def)
    qed
    then show ?thesis by (simp add: coherent_def)
  next
    case 2
    with assms(2) show ?thesis by (rule coherent_sub)
  qed
qed

text \<open>A value read after a successful \<open>Set\<close> of its key is the value that was set.\<close>

lemma set_then_get:
  assumes "inv w" and "\<And>b d. Marshal K v = Inr b \<Longrightarrow> Unmarshal K b d = (v, None)"
    and "cache_Set C ctx key v ttl w = (Returned None, w1)"
    and "cache_Get C ctx' key d w1 = (Returned (d', None), w2)"
  shows "d' = v"
proof -
  obtain b where b: "inv w1" "Marshal K v = Inr b" "view w1 \<subseteq>\<^sub>m (view w)(key \<mapsto> b)"
    using set_law [OF assms(1,3)] by auto
  obtain x where x: "view w1 key = Some x" "Unmarshal K x d = (d', None)"
    using get_law [OF b(1) assms(4)] by auto
  from x(1) b(3) have "x = b" by (auto simp: map_le_def dom_def)
  with x(2) assms(2) [OF b(2)] show ?thesis by simp
qed

text \<open>After a successful invalidation the source of truth may change at that key.\<close>

lemma coherent_delete:
  assumes "inv w" and "coherent f w" and "cache_Delete C ctx key w = (Returned None, w')"
  shows "inv w'" "coherent (f(key := x)) w'"
proof -
  have w': "inv w'" "view w' \<subseteq>\<^sub>m view w" "view w' key = None"
    using delete_law [OF assms(1,3)] by auto
  show "inv w'" by (rule w'(1))
  show "coherent (f(key := x)) w'"
    using coherent_sub [OF assms(2) w'(2)] w'(3) by (auto simp: coherent_def)
qed

end

text \<open>A cache that loses nothing and never fails.\<close>

locale exact_cache = lossy_cache +
  assumes get_exact: "inv w \<Longrightarrow> cache_Get C ctx key d w =
      (Returned (case view w key of None \<Rightarrow> (d, Some (wrapf key ErrCacheMiss)) | Some b \<Rightarrow> Unmarshal K b d), w)"
    and set_exact: "inv w \<Longrightarrow> Marshal K v = Inr b \<Longrightarrow>
      \<exists>w'. cache_Set C ctx key v ttl w = (Returned None, w') \<and> inv w' \<and> view w' = (view w)(key \<mapsto> b)"
    and delete_exact: "inv w \<Longrightarrow>
      \<exists>w'. cache_Delete C ctx key w = (Returned None, w') \<and> inv w' \<and> view w' = (view w)(key := None)"
begin

lemma set_get:
  assumes "inv w" and "Marshal K v = Inr b" and "\<And>d. Unmarshal K b d = (v, None)"
    and "cache_Set C ctx key v ttl w = (r, w')"
  shows "r = Returned None"
    and "cache_Get C ctx' key' d w' =
      (if key' = key then (Returned (v, None), w')
       else (fst (cache_Get C ctx' key' d w), w'))"
proof -
  obtain w1 where w1: "cache_Set C ctx key v ttl w = (Returned None, w1)" "inv w1" "view w1 = (view w)(key \<mapsto> b)"
    using set_exact [OF assms(1,2)] by blast
  with assms(4) have "r = Returned None" "w' = w1" by auto
  with w1 assms(1,3) show "r = Returned None"
    and "cache_Get C ctx' key' d w' =
      (if key' = key then (Returned (v, None), w')
       else (fst (cache_Get C ctx' key' d w), w'))"
    by (simp_all add: get_exact)
qed

lemma delete_get:
  assumes "inv w" and "cache_Delete C ctx key w = (r, w')"
  shows "r = Returned None"
    and "cache_Get C ctx' key' d w' =
      (if key' = key then (Returned (d, Some (wrapf key ErrCacheMiss)), w')
       else (fst (cache_Get C ctx' key' d w), w'))"
proof -
  obtain w1 where w1: "cache_Delete C ctx key w = (Returned None, w1)" "inv w1" "view w1 = (view w)(key := None)"
    using delete_exact [OF assms(1)] by blast
  with assms(2) have "r = Returned None" "w' = w1" by auto
  with w1 assms(1) show "r = Returned None"
    and "cache_Get C ctx' key' d w' =
      (if key' = key then (Returned (d, Some (wrapf key ErrCacheMiss)), w')
       else (fst (cache_Get C ctx' key' d w), w'))"
    by (simp_all add: get_exact)
qed

end

section \<open>MemoryCache keeps the exact contract\<close>

lemmas mc_defs =
  mc_Get_def mc_Set_def mc_Delete_def mc_Exists_def MemoryCache_cache_def

interpretation mem: exact_cache "MemoryCache_cache dc" K mc_data "\<lambda>c. mc_codecOrDefault dc c = K"
  for dc K :: "'v codec"
  by unfold_locales
    (auto simp: mc_defs mc_codecOrDefault_def map_le_def split: option.splits sum.splits)

section \<open>RedisCache keeps the lossy contract\<close>

text \<open>
  What the code relies on of go-redis and the server behind it, for one sequential user: commands
  read and change the stored bytes as Redis documents them, an entry may expire at any moment, a
  failed command may or may not have been executed, and \<open>NewClient\<close> and \<open>Close\<close> open and close a
  client.
\<close>

locale redis_server =
  fixes R :: "('cl, 's) redis" and store :: "int \<times> 's \<Rightarrow> string \<Rightarrow> string option"
    and opened :: "'s \<Rightarrow> 'cl multiset"
  assumes get_cmd: "redis_Get R c ctx key w = ((b, e), w') \<Longrightarrow>
      store w' \<subseteq>\<^sub>m store w \<and> (e = None \<longrightarrow> store w key = Some b)"
    and set_cmd: "redis_Set R c ctx key b ttl w = (e, w') \<Longrightarrow>
      store w' \<subseteq>\<^sub>m (store w)(key \<mapsto> b) \<or> (e \<noteq> None \<and> store w' \<subseteq>\<^sub>m store w)"
    and del_cmd: "redis_Del R c ctx key w = ((n, e), w') \<Longrightarrow>
      store w' \<subseteq>\<^sub>m store w \<and> (e = None \<longrightarrow> store w' key = None)"
    and exists_cmd: "redis_Exists R c ctx key w = ((n, e), w') \<Longrightarrow>
      store w' \<subseteq>\<^sub>m store w \<and> (e = None \<longrightarrow> (n > 0) = (store w' key \<noteq> None))"
    and new_client: "redis_NewClient R opts w = (c, w') \<Longrightarrow> opened (snd w') = add_mset c (opened (snd w))"
    and ping_client: "redis_Ping R c ctx w = (e, w') \<Longrightarrow> opened (snd w') = opened (snd w)"
    and close_client: "redis_Close R c w = (e, w') \<Longrightarrow> opened (snd w') = opened (snd w) - {#c#}"
begin

lemma redis_lossy_cache:
  assumes "rc_codecOrDefault dc r = K"
  shows "lossy_cache (RedisCache_cache R dc r) K store (\<lambda>_. True)"
proof (unfold_locales, goal_cases)
  case (1 w ctx key d d' e w')
  then show ?case
    using assms get_cmd [of _ ctx key w]
    by (auto simp: RedisCache_cache_def rc_Get_def split: option.splits prod.splits if_splits)
next
  case (2 w ctx key v ttl e w')
  show ?case
  proof (cases "Marshal K v")
    case (Inl x)
    with 2 assms show ?thesis by (auto simp: RedisCache_cache_def rc_Set_def)
  next
    case (Inr b)
    with 2 assms obtain c where "redis_Set R c ctx key b ttl w = (e, w')"
      by (auto simp: RedisCache_cache_def rc_Set_def prod_eq_iff split: option.splits)
    from set_cmd [OF this] Inr show ?thesis by auto
  qed
next
  case (3 w ctx key e w')
  then show ?case
    using del_cmd [of _ ctx key w]
    by (auto simp: RedisCache_cache_def rc_Delete_def split: option.splits prod.splits)
next
  case (4 w ctx key b e w')
  then obtain c n where "redis_Exists R c ctx key w = ((n, e), w')" "b = (n > 0)"
    by (auto simp: RedisCache_cache_def rc_Exists_def split: option.splits prod.splits)
  with exists_cmd [OF this(1)] show ?case by auto
qed

lemma redis_attempt_clients:
  assumes "redis_attempt R opts ctx t0 (s0, cl) = (e, t1, s1, cl')"
  shows "case e of Some x \<Rightarrow> opened s1 = opened s0 \<and> cl' = cl
         | None \<Rightarrow> \<exists>c. cl' = Some c \<and> opened s1 = add_mset c (opened s0)"
proof -
  obtain c w1 where n: "redis_NewClient R opts (t0, s0) = (c, w1)" by (rule prod.exhaust)
  obtain e2 w2 where p: "redis_Ping R c ctx w1 = (e2, w2)" by (rule prod.exhaust)
  obtain e3 w3 where cl: "redis_Close R c w2 = (e3, w3)" by (rule prod.exhaust)
  show ?thesis
    using assms new_client [OF n] ping_client [OF p] close_client [OF cl] n p cl
    by (cases e2; cases w2; cases w3) (auto simp: redis_attempt_def)
qed

lemma redis_connect_clients:
  assumes "redis_connect R rand pick ctx cache (now, s) = (err, cache', t, s')"
  shows "case err of Some e \<Rightarrow> opened s' = opened s \<and> cache' = cache
         | None \<Rightarrow> \<exists>c. cache' = cache\<lparr>rc_client := Some c\<rparr> \<and> opened s' = add_mset c (opened s)"
proof -
  let ?n = "if rc_retryAttempts cache \<le> 0 then 1 else rc_retryAttempts cache"
  let ?P = "\<lambda>sc. opened (fst sc) = opened s"
  let ?Q = "\<lambda>sc. \<exists>c. snd sc = Some c \<and> opened (fst sc) = add_mset c (opened s)"
  obtain r u v cl where run: "retry_Do ctx ?n (rc_retryBackoff cache) (redis_attempt R (rc_options cache))
      rand pick now (s, None) = (r, u, v, cl)" by (metis prod_cases4)
  have "case r of None \<Rightarrow> ?Q (v, cl) | Some e \<Rightarrow> ?P (v, cl)"
    by (rule retry_Do_rule [where P = ?P and Q = ?Q, OF _ _ _ run])
      (auto dest!: redis_attempt_clients)
  with assms run show ?thesis
    by (cases r) (auto simp: redis_connect_def Let_def)
qed

end

text \<open>A reference server: one store with expiry, commands that take a millisecond each.\<close>

record redis_state =
  rs_up :: bool
  rs_next :: nat
  rs_open :: "nat multiset"
  rs_data :: "string \<Rightarrow> (string \<times> int option) option"

definition rs_dial_err :: go_error where
  "rs_dial_err = errors_New ''dial tcp: connection refused''"

definition rs_fail :: "go_ctx \<Rightarrow> int \<times> redis_state \<Rightarrow> go_error option" where
  "rs_fail ctx w = (case ctx_Err ctx (fst w) of Some e \<Rightarrow> Some e
     | None \<Rightarrow> if rs_up (snd w) then None else Some rs_dial_err)"

definition rs_store :: "int \<times> redis_state \<Rightarrow> string \<Rightarrow> string option" where
  "rs_store w key =
     (case rs_data (snd w) key of
        Some (b, None) \<Rightarrow> Some b
      | Some (b, Some t) \<Rightarrow> if fst w < t then Some b else None
      | None \<Rightarrow> None)"

definition rs_tick :: "int \<times> redis_state \<Rightarrow> int \<times> redis_state" where
  "rs_tick w = (fst w + Millisecond, snd w)"

definition ref_redis :: "(nat, redis_state) redis" where
  "ref_redis =
     \<lparr>redis_NewClient = (\<lambda>opts w. (rs_next (snd w), fst w,
        (snd w)\<lparr>rs_next := Suc (rs_next (snd w)), rs_open := add_mset (rs_next (snd w)) (rs_open (snd w))\<rparr>)),
      redis_Ping = (\<lambda>c ctx w. (rs_fail ctx w, rs_tick w)),
      redis_Close = (\<lambda>c w. (None, fst w, (snd w)\<lparr>rs_open := rs_open (snd w) - {#c#}\<rparr>)),
      redis_Set = (\<lambda>c ctx key b ttl w. case rs_fail ctx w of
          Some e \<Rightarrow> (Some e, rs_tick w)
        | None \<Rightarrow> (None, rs_tick (fst w, (snd w)\<lparr>rs_data := (rs_data (snd w))
            (key \<mapsto> (b, if ttl > 0 then Some (fst w + ttl) else None))\<rparr>))),
      redis_Get = (\<lambda>c ctx key w. case rs_fail ctx w of
          Some e \<Rightarrow> (([], Some e), rs_tick w)
        | None \<Rightarrow> (case rs_store w key of
              None \<Rightarrow> (([], Some redis_Nil), rs_tick w)
            | Some b \<Rightarrow> ((b, None), rs_tick w))),
      redis_Del = (\<lambda>c ctx key w. case rs_fail ctx w of
          Some e \<Rightarrow> ((0, Some e), rs_tick w)
        | None \<Rightarrow> ((if rs_store w key = None then 0 else 1, None),
            rs_tick (fst w, (snd w)\<lparr>rs_data := (rs_data (snd w))(key := None)\<rparr>))),
      redis_Exists = (\<lambda>c ctx key w. case rs_fail ctx w of
          Some e \<Rightarrow> ((0, Some e), rs_tick w)
        | None \<Rightarrow> ((if rs_store (rs_tick w) key = None then 0 else 1, None), rs_tick w))\<rparr>"

lemma rs_store_later: "t \<le> t' \<Longrightarrow> rs_store (t', s) \<subseteq>\<^sub>m rs_store (t, s)"
  by (auto simp: rs_store_def map_le_def dom_def split: option.splits if_splits)

lemma rs_tick_sub: "rs_store (rs_tick w) \<subseteq>\<^sub>m rs_store w"
  using rs_store_later [of "fst w" "fst w + Millisecond" "snd w"] by (simp add: rs_tick_def Millisecond_def)

interpretation ref: redis_server ref_redis rs_store rs_open
proof (unfold_locales, goal_cases)
  case (2 c ctx key b ttl w e w')
  then show ?case
    using rs_tick_sub [of w]
    by (fastforce simp: ref_redis_def rs_tick_def rs_store_def map_le_def dom_def Millisecond_def
        split: option.splits if_splits)
next
  case (3 c ctx key w n e w')
  then show ?case
    using rs_tick_sub [of w]
    by (fastforce simp: ref_redis_def rs_tick_def rs_store_def map_le_def dom_def Millisecond_def
        split: option.splits if_splits)
qed (use rs_tick_sub in \<open>auto simp: ref_redis_def rs_tick_def split: option.splits if_splits\<close>)

section \<open>Properties\<close>

text \<open>A codec on strings that rejects the empty one, for the witnesses.\<close>

definition text_codec :: "string codec" where
  "text_codec =
     \<lparr>Marshal = (\<lambda>v. if v = [] then Inl (errors_New ''empty value'') else Inr (CHR ''T'' # v)),
      Unmarshal = (\<lambda>b d. case b of c # v \<Rightarrow> (if c = CHR ''T'' then (v, None) else (d, Some (errors_New ''malformed'')))
                            | [] \<Rightarrow> (d, Some (errors_New ''malformed'')))\<rparr>"

text \<open>
  C31: the in-memory cache is a map. A stored value is read back until it is overwritten or
  deleted, whatever its expiration; other keys are untouched; a deleted key is a miss, which
  \<open>errors.Is\<close> recognises; \<open>Exists\<close> says whether there is an entry; a value that cannot be encoded
  changes nothing.
\<close>

theorem memcache_map:
  assumes "Marshal (mc_codecOrDefault dc c) v = Inr b"
    and "\<And>d. Unmarshal (mc_codecOrDefault dc c) b d = (v, None)"
    and "mc_Set dc ctx key v ttl c = (r, c1)" and "mc_Delete ctx key c1 = (r', c2)"
  shows "r = Returned None \<and> r' = Returned None
    \<and> mc_Get dc ctx' key d c1 = (Returned (v, None), c1)
    \<and> (\<forall>k. k \<noteq> key \<longrightarrow> mc_Get dc ctx' k d c1 = (fst (mc_Get dc ctx' k d c), c1)
                     \<and> mc_Get dc ctx' k d c2 = (fst (mc_Get dc ctx' k d c), c2))
    \<and> (\<exists>e. mc_Get dc ctx' key d c2 = (Returned (d, Some e), c2) \<and> errors_Is e ''cachekit.ErrCacheMiss'')
    \<and> mc_Exists ctx' key c1 = (Returned (True, None), c1)
    \<and> mc_Exists ctx' key c2 = (Returned (False, None), c2)
    \<and> (\<forall>x e. Marshal (mc_codecOrDefault dc c) x = Inl e \<longrightarrow> mc_Set dc ctx key x ttl c = (Returned (Some e), c))"
proof -
  let ?K = "mc_codecOrDefault dc c"
  have set: "cache_Set (MemoryCache_cache dc) ctx key v ttl c = (r, c1)"
    and del: "cache_Delete (MemoryCache_cache dc) ctx key c1 = (r', c2)"
    using assms(3,4) by (simp_all add: MemoryCache_cache_def)
  have inv1: "mc_codecOrDefault dc c1 = ?K"
    using assms(1,3) by (auto simp: mc_Set_def mc_codecOrDefault_def)
  note sg = mem.set_get [where K = ?K and dc = dc, OF refl assms(1,2) set]
    and dg = mem.delete_get [where K = ?K and dc = dc, OF inv1 del]
  show ?thesis
    using sg(1) dg(1) sg(2) [of ctx' _ d] dg(2) [of ctx' _ d] assms
    by (auto simp: MemoryCache_cache_def mc_Exists_def mc_Set_def mc_Delete_def ErrCacheMiss_def)
qed

theorem memcache_map_witness:
  "\<exists>c1 c2. mc_Set text_codec Background ''k'' ''hello'' 60 (mc_New []) = (Returned None, c1)
     \<and> mc_Delete Background ''k'' c1 = (Returned None, c2)
     \<and> mc_Get text_codec Background ''k'' ''zero'' c1 = (Returned (''hello'', None), c1)
     \<and> mc_Exists Background ''k'' c2 = (Returned (False, None), c2)"
proof -
  have k: "mc_codecOrDefault text_codec (mc_New []) = text_codec"
    by (simp add: mc_New_def mc_codecOrDefault_def)
  obtain r c1 where s: "mc_Set text_codec Background ''k'' ''hello'' 60 (mc_New []) = (r, c1)"
    by (rule prod.exhaust)
  obtain r' c2 where d: "mc_Delete Background ''k'' c1 = (r', c2)" by (rule prod.exhaust)
  have "Marshal (mc_codecOrDefault text_codec (mc_New [])) ''hello'' = Inr ''Thello''"
    and "\<And>x. Unmarshal (mc_codecOrDefault text_codec (mc_New [])) ''Thello'' x = (''hello'', None)"
    unfolding k by (simp_all add: text_codec_def)
  from memcache_map [OF this s d, of Background "''zero''"] s d show ?thesis by auto
qed

text \<open>
  \<open>RedisCache\<close> over a server that behaves as Redis documents it. What a \<open>Get\<close> delivers after a
  successful \<open>Set\<close> of the same key is the value that was set: the entry may have expired or the
  command may fail, and then an error is returned, but never another value.
\<close>

theorem redis_set_get:
  assumes "redis_server R store opened"
    and "\<And>b d. Marshal (rc_codecOrDefault dc r) v = Inr b \<Longrightarrow> Unmarshal (rc_codecOrDefault dc r) b d = (v, None)"
    and "rc_Set R dc r ctx key v ttl w = (Returned None, w1)"
    and "rc_Get R dc r ctx' key d w1 = (Returned (d', e), w2)"
  shows "d' = v \<or> e \<noteq> None"
proof (cases e)
  case None
  have "lossy_cache (RedisCache_cache R dc r) (rc_codecOrDefault dc r) store (\<lambda>_. True)"
    using assms(1) by (rule redis_server.redis_lossy_cache) simp
  from lossy_cache.set_then_get [OF this TrueI assms(2), of ctx key ttl w w1 ctx' d d' w2] assms(3,4) None
  show ?thesis by (simp add: RedisCache_cache_def)
qed simp

definition demo_redis :: "(nat, string) RedisCache" where
  "demo_redis = \<lparr>rc_client = Some 0, rc_options = \<lparr>ro_Addr = ''r'', ro_Password = [], ro_DB = 0, ro_Username = []\<rparr>,
     rc_codec = None, rc_name = ''redis-cache'', rc_logger = False, rc_retryAttempts = 3, rc_retryBackoff = 10\<rparr>"

definition demo_server :: "bool \<Rightarrow> redis_state" where
  "demo_server up = \<lparr>rs_up = up, rs_next = 0, rs_open = {#}, rs_data = (\<lambda>_. None)\<rparr>"

lemma demo_set:
  "rc_Set ref_redis text_codec demo_redis Background ''k'' ''hello'' (60 * Second) (0, demo_server True)
     = (Returned None, Millisecond, (demo_server True)\<lparr>rs_data := [''k'' \<mapsto> (''Thello'', Some (60 * Second))]\<rparr>)"
  by (simp add: rc_Set_def ref_redis_def demo_redis_def rc_codecOrDefault_def text_codec_def rs_fail_def
      demo_server_def rs_tick_def time_units)

theorem redis_set_get_witness:
  "\<exists>w1 w2. rc_Set ref_redis text_codec demo_redis Background ''k'' ''hello'' (60 * Second) (0, demo_server True)
       = (Returned None, w1)
     \<and> rc_Get ref_redis text_codec demo_redis Background ''k'' ''zero'' w1 = (Returned (''hello'', None), w2)"
proof -
  let ?w1 = "(Millisecond, (demo_server True)\<lparr>rs_data := [''k'' \<mapsto> (''Thello'', Some (60 * Second))]\<rparr>)"
  obtain d' w2 where get: "rc_Get ref_redis text_codec demo_redis Background ''k'' ''zero'' ?w1
      = (Returned (d', None), w2)"
    by (simp add: rc_Get_def ref_redis_def demo_redis_def rc_codecOrDefault_def text_codec_def rs_fail_def
      demo_server_def rs_tick_def time_units rs_store_def)
  have "Unmarshal (rc_codecOrDefault text_codec demo_redis) b d = (''hello'', None)"
    if "Marshal (rc_codecOrDefault text_codec demo_redis) ''hello'' = Inr b" for b d
    using that by (auto simp: rc_codecOrDefault_def demo_redis_def text_codec_def)
  from redis_set_get [OF ref.redis_server_axioms this demo_set get] get demo_set show ?thesis by auto
qed

text \<open>
  Connecting leaks nothing. However many attempts are made, when connecting fails every client
  that was opened has been closed again and the cache still has none; when it succeeds exactly one
  more client is open, the one the cache uses and its stop closure closes.
\<close>

theorem redis_connect_no_leak:
  assumes "redis_server R store opened"
    and "redis_connect R rand pick ctx cache (now, s) = (err, cache', t, s')"
  shows "case err of
      Some e \<Rightarrow> opened s' = opened s \<and> cache' = cache
    | None \<Rightarrow> (\<exists>c. rc_client cache' = Some c \<and> opened s' = add_mset c (opened s)
        \<and> (\<forall>ctx' t' e t'' s''. redis_stop R cache' ctx' (t', s') = (Returned e, t'', s'') \<longrightarrow> opened s'' = opened s))"
proof (cases err)
  case (Some e)
  with redis_server.redis_connect_clients [OF assms] show ?thesis by simp
next
  case None
  with redis_server.redis_connect_clients [OF assms] obtain c where
    c: "cache' = cache\<lparr>rc_client := Some c\<rparr>" "opened s' = add_mset c (opened s)" by auto
  have "opened s'' = opened s" if "redis_stop R cache' ctx' (t', s') = (Returned e, t'', s'')" for ctx' t' e t'' s''
  proof -
    have "redis_Close R c (t', s') = (e, t'', s'')"
      using that c(1) by (auto simp: redis_stop_def prod_eq_iff)
    from redis_server.close_client [OF assms(1) this] c(2) show ?thesis by simp
  qed
  with None c show ?thesis by auto
qed

theorem redis_connect_no_leak_witness:
  "\<exists>e t s'. redis_connect ref_redis (\<lambda>_ _. None) (\<lambda>_. True) Background demo_redis (0, demo_server False)
       = (Some e, demo_redis, t, s')
     \<and> rs_open s' = {#} \<and> rs_next s' = 3"
proof -
  obtain e t s' where run: "redis_connect ref_redis (\<lambda>_ _. None) (\<lambda>_. True) Background demo_redis (0, demo_server False)
       = (Some e, demo_redis, t, s')" "rs_next s' = 3"
    by (simp add: redis_connect_def demo_redis_def demo_server_def retry_Do_def retry_loop.simps redis_attempt_def
        ref_redis_def rs_fail_def rs_tick_def time_units select2_def done_time_def Background_def ctx_Err_def
        retry_delay_def retry_backoff_def retry_jitter_def)
  from redis_connect_no_leak [OF ref.redis_server_axioms run(1)] run show ?thesis
    by (simp add: demo_server_def)
qed

end
