(* ===== verification/Database.thy ===== *)
theory Database
  imports Retry Lifecycle Health
begin

text \<open>
  databasekit/txmanager.go, adapter.go and database.go: the pgx-free query surface, the transaction
  manager and the lifecycle-managed pool. pgx is not part of the repository: its pool and
  transaction methods are the parameter \<open>pgx\<close>, over a world with a clock, \<open>int \<times> 's\<close>. A transaction
  and a result set are handles (numbers), as they are references in the code.
\<close>

section \<open>The driver\<close>

datatype dbval = DInt int | DStr string | DTime int

text \<open>
  \<open>None\<close> as first argument of a query method or of \<open>Begin\<close> is the pool, \<open>Some h\<close> the transaction h.
  The query methods return handles of a result set or a row, which the later calls use.
\<close>

record 's pgx =
  pgx_Exec :: "nat option \<Rightarrow> go_ctx \<Rightarrow> string \<Rightarrow> dbval list \<Rightarrow> int \<times> 's \<Rightarrow> (int \<times> go_error option) \<times> int \<times> 's"
  pgx_Query :: "nat option \<Rightarrow> go_ctx \<Rightarrow> string \<Rightarrow> dbval list \<Rightarrow> int \<times> 's \<Rightarrow> (go_error + nat) \<times> int \<times> 's"
  pgx_QueryRow :: "nat option \<Rightarrow> go_ctx \<Rightarrow> string \<Rightarrow> dbval list \<Rightarrow> int \<times> 's \<Rightarrow> nat \<times> int \<times> 's"
  pgx_Row_Scan :: "nat \<Rightarrow> int \<times> 's \<Rightarrow> (dbval list \<times> go_error option) \<times> int \<times> 's"
  pgx_Rows_Next :: "nat \<Rightarrow> int \<times> 's \<Rightarrow> bool \<times> int \<times> 's"
  pgx_Rows_Scan :: "nat \<Rightarrow> int \<times> 's \<Rightarrow> (dbval list \<times> go_error option) \<times> int \<times> 's"
  pgx_Rows_Err :: "nat \<Rightarrow> int \<times> 's \<Rightarrow> go_error option"
  pgx_Rows_Close :: "nat \<Rightarrow> int \<times> 's \<Rightarrow> int \<times> 's"
  pgx_Begin :: "nat option \<Rightarrow> go_ctx \<Rightarrow> int \<times> 's \<Rightarrow> (go_error + nat) \<times> int \<times> 's"
  pgx_Commit :: "nat \<Rightarrow> go_ctx \<Rightarrow> int \<times> 's \<Rightarrow> go_error option \<times> int \<times> 's"
  pgx_Rollback :: "nat \<Rightarrow> go_ctx \<Rightarrow> int \<times> 's \<Rightarrow> go_error option \<times> int \<times> 's"

definition ErrNoRows :: go_error where
  "ErrNoRows = ErrorString (Sentinel ''databasekit.ErrNoRows'') ''databasekit: no rows in result set''"

definition ErrTxClosed :: go_error where
  "ErrTxClosed = ErrorString (Sentinel ''databasekit.ErrTxClosed'') ''databasekit: transaction is closed''"

section \<open>Rows and adapters\<close>

datatype row = ErrRow go_error | PgxRow nat

datatype rows = PgxRows nat

definition errRow_Scan :: "go_error \<Rightarrow> dbval list \<times> go_error option" where
  "errRow_Scan err = ([], Some err)"

definition pgxRowAdapter_Scan ::
  "'s pgx \<Rightarrow> nat \<Rightarrow> int \<times> 's \<Rightarrow> (dbval list \<times> go_error option) \<times> int \<times> 's" where
  "pgxRowAdapter_Scan P n w =
     (case pgx_Row_Scan P n w of
        ((vs, err), w') \<Rightarrow> if err_is err ''pgx.ErrNoRows'' then ((vs, Some ErrNoRows), w') else ((vs, err), w'))"

definition Row_Scan :: "'s pgx \<Rightarrow> row \<Rightarrow> int \<times> 's \<Rightarrow> (dbval list \<times> go_error option) \<times> int \<times> 's" where
  "Row_Scan P r w = (case r of ErrRow e \<Rightarrow> (errRow_Scan e, w) | PgxRow n \<Rightarrow> pgxRowAdapter_Scan P n w)"

fun Rows_Next :: "'s pgx \<Rightarrow> rows \<Rightarrow> int \<times> 's \<Rightarrow> bool \<times> int \<times> 's" where
  "Rows_Next P (PgxRows n) w = pgx_Rows_Next P n w"

fun Rows_Scan :: "'s pgx \<Rightarrow> rows \<Rightarrow> int \<times> 's \<Rightarrow> (dbval list \<times> go_error option) \<times> int \<times> 's" where
  "Rows_Scan P (PgxRows n) w = pgx_Rows_Scan P n w"

fun Rows_Err :: "'s pgx \<Rightarrow> rows \<Rightarrow> int \<times> 's \<Rightarrow> go_error option" where
  "Rows_Err P (PgxRows n) w = pgx_Rows_Err P n w"

fun Rows_Close :: "'s pgx \<Rightarrow> rows \<Rightarrow> int \<times> 's \<Rightarrow> int \<times> 's" where
  "Rows_Close P (PgxRows n) w = pgx_Rows_Close P n w"

text \<open>\<open>pgxProviderAdapter\<close>, over the pool or a transaction.\<close>

definition adapter_Exec ::
  "'s pgx \<Rightarrow> nat option \<Rightarrow> go_ctx \<Rightarrow> string \<Rightarrow> dbval list \<Rightarrow> int \<times> 's \<Rightarrow> (int \<times> go_error option) \<times> int \<times> 's" where
  "adapter_Exec P src ctx sql args w = pgx_Exec P src ctx sql args w"

definition adapter_Query ::
  "'s pgx \<Rightarrow> nat option \<Rightarrow> go_ctx \<Rightarrow> string \<Rightarrow> dbval list \<Rightarrow> int \<times> 's \<Rightarrow> (go_error + rows) \<times> int \<times> 's" where
  "adapter_Query P src ctx sql args w =
     (case pgx_Query P src ctx sql args w of
        (Inl err, w') \<Rightarrow> (Inl err, w')
      | (Inr n, w') \<Rightarrow> (Inr (PgxRows n), w'))"

definition adapter_QueryRow ::
  "'s pgx \<Rightarrow> nat option \<Rightarrow> go_ctx \<Rightarrow> string \<Rightarrow> dbval list \<Rightarrow> int \<times> 's \<Rightarrow> row \<times> int \<times> 's" where
  "adapter_QueryRow P src ctx sql args w =
     (case pgx_QueryRow P src ctx sql args w of (n, w') \<Rightarrow> (PgxRow n, w'))"

definition adapter_Begin :: "'s pgx \<Rightarrow> nat option \<Rightarrow> go_ctx \<Rightarrow> int \<times> 's \<Rightarrow> (go_error + nat) \<times> int \<times> 's" where
  "adapter_Begin P src ctx w =
     (case pgx_Begin P src ctx w of (Inl err, w') \<Rightarrow> (Inl err, w') | (Inr tx, w') \<Rightarrow> (Inr tx, w'))"

definition tx_Commit :: "'s pgx \<Rightarrow> nat \<Rightarrow> go_ctx \<Rightarrow> int \<times> 's \<Rightarrow> go_error option \<times> int \<times> 's" where
  "tx_Commit P tx ctx w = pgx_Commit P tx ctx w"

definition tx_Rollback :: "'s pgx \<Rightarrow> nat \<Rightarrow> go_ctx \<Rightarrow> int \<times> 's \<Rightarrow> go_error option \<times> int \<times> 's" where
  "tx_Rollback P tx ctx w =
     (case pgx_Rollback P tx ctx w of
        (err, w') \<Rightarrow> if err_is err ''pgx.ErrTxClosed'' then (Some ErrTxClosed, w') else (err, w'))"

section \<open>Providers\<close>

text \<open>
  A \<open>TxProvider\<close>. \<open>prov_Wait\<close> is \<open>core.WaitReady(ctx, rd.Ready())\<close> of a provider that is
  \<open>Readyable\<close>; it is \<open>None\<close> for one that is not.
\<close>

record 's provider =
  prov_Exec :: "go_ctx \<Rightarrow> string \<Rightarrow> dbval list \<Rightarrow> int \<times> 's \<Rightarrow> (int \<times> go_error option) \<times> int \<times> 's"
  prov_Query :: "go_ctx \<Rightarrow> string \<Rightarrow> dbval list \<Rightarrow> int \<times> 's \<Rightarrow> (go_error + rows) \<times> int \<times> 's"
  prov_QueryRow :: "go_ctx \<Rightarrow> string \<Rightarrow> dbval list \<Rightarrow> int \<times> 's \<Rightarrow> row \<times> int \<times> 's"
  prov_Begin :: "go_ctx \<Rightarrow> int \<times> 's \<Rightarrow> (go_error + nat) \<times> int \<times> 's"
  prov_Wait :: "(go_ctx \<Rightarrow> (int \<times> 's, go_error option) action) option"

definition NewPoolProvider :: "'s pgx \<Rightarrow> 's provider" where
  "NewPoolProvider P =
     \<lparr>prov_Exec = adapter_Exec P None, prov_Query = adapter_Query P None,
      prov_QueryRow = adapter_QueryRow P None, prov_Begin = adapter_Begin P None, prov_Wait = None\<rparr>"

text \<open>
  \<open>PostgresDB\<close>: \<open>db_pool\<close> says whether the pool pointer is set. \<open>'p\<close> is the type of a pool.
\<close>

record 'p PostgresDB =
  db_pool :: "'p option"
  db_name :: string
  db_connStr :: string
  db_logger :: bool
  db_maxConns :: int
  db_minConns :: int
  db_retryAttempts :: int
  db_retryBackoff :: int

definition pool_nil_err :: go_error where
  "pool_nil_err = errors_New ''database pool is not initialized''"

definition db_exec ::
  "'s pgx \<Rightarrow> 'p PostgresDB \<Rightarrow> go_ctx \<Rightarrow> string \<Rightarrow> dbval list \<Rightarrow> int \<times> 's \<Rightarrow> (int \<times> go_error option) \<times> int \<times> 's" where
  "db_exec P db ctx sql args w =
     (if db_pool db = None then ((0, Some pool_nil_err), w) else pgx_Exec P None ctx sql args w)"

definition db_query ::
  "'s pgx \<Rightarrow> 'p PostgresDB \<Rightarrow> go_ctx \<Rightarrow> string \<Rightarrow> dbval list \<Rightarrow> int \<times> 's \<Rightarrow> (go_error + rows) \<times> int \<times> 's" where
  "db_query P db ctx sql args w =
     (if db_pool db = None then (Inl pool_nil_err, w)
      else (case pgx_Query P None ctx sql args w of
              (Inl err, w') \<Rightarrow> (Inl err, w')
            | (Inr n, w') \<Rightarrow> (Inr (PgxRows n), w')))"

definition db_queryRow ::
  "'s pgx \<Rightarrow> 'p PostgresDB \<Rightarrow> go_ctx \<Rightarrow> string \<Rightarrow> dbval list \<Rightarrow> int \<times> 's \<Rightarrow> row \<times> int \<times> 's" where
  "db_queryRow P db ctx sql args w =
     (if db_pool db = None then (ErrRow pool_nil_err, w)
      else (case pgx_QueryRow P None ctx sql args w of (n, w') \<Rightarrow> (PgxRow n, w')))"

definition db_begin :: "'s pgx \<Rightarrow> 'p PostgresDB \<Rightarrow> go_ctx \<Rightarrow> int \<times> 's \<Rightarrow> (go_error + nat) \<times> int \<times> 's" where
  "db_begin P db ctx w =
     (if db_pool db = None then (Inl pool_nil_err, w)
      else (case pgx_Begin P None ctx w of (Inl err, w') \<Rightarrow> (Inl err, w') | (Inr tx, w') \<Rightarrow> (Inr tx, w')))"

text \<open>
  \<open>txProviderAdapter\<close>. The component lives in the world (\<open>dbof\<close>), since the goroutine that runs
  \<open>Start\<close> sets its pool while others wait.
\<close>

definition db_TxProvider ::
  "'s pgx \<Rightarrow> ('s \<Rightarrow> 'p PostgresDB) \<Rightarrow> bool \<Rightarrow> ('s \<Rightarrow> int option) \<Rightarrow> (int \<Rightarrow> 's \<Rightarrow> 's) \<Rightarrow> 's provider" where
  "db_TxProvider P dbof pick readyAt elapse =
     \<lparr>prov_Exec = (\<lambda>ctx sql args w. db_exec P (dbof (snd w)) ctx sql args w),
      prov_Query = (\<lambda>ctx sql args w. db_query P (dbof (snd w)) ctx sql args w),
      prov_QueryRow = (\<lambda>ctx sql args w. db_queryRow P (dbof (snd w)) ctx sql args w),
      prov_Begin = (\<lambda>ctx w. db_begin P (dbof (snd w)) ctx w),
      prov_Wait = Some (wait_ready pick readyAt elapse)\<rparr>"

section \<open>Queriers\<close>

datatype querier = QTx nat | QReady | QProvider

definition TxFromContext :: "go_ctx \<Rightarrow> nat option" where
  "TxFromContext ctx = ctx_tx ctx"

definition QuerierFromContext :: "'s provider \<Rightarrow> go_ctx \<Rightarrow> querier" where
  "QuerierFromContext prov ctx =
     (case TxFromContext ctx of
        Some tx \<Rightarrow> QTx tx
      | None \<Rightarrow> if prov_Wait prov \<noteq> None then QReady else QProvider)"

definition ready_wait :: "'s provider \<Rightarrow> go_ctx \<Rightarrow> (int \<times> 's, go_error option) action" where
  "ready_wait prov ctx w =
     (case prov_Wait prov of
        None \<Rightarrow> (Returned None, w)
      | Some wait \<Rightarrow>
          (case wait ctx w of
             (Returned (Some err), w') \<Rightarrow> (Returned (Some (wrapf ''pool not ready'' err)), w')
           | r \<Rightarrow> r))"

definition ready_Exec ::
  "'s provider \<Rightarrow> go_ctx \<Rightarrow> string \<Rightarrow> dbval list \<Rightarrow> (int \<times> 's, int \<times> go_error option) action" where
  "ready_Exec prov ctx sql args =
     act_bind (ready_wait prov ctx) (\<lambda>err. case err of
        Some e \<Rightarrow> act_ret (0, Some e)
      | None \<Rightarrow> act_call (prov_Exec prov ctx sql args))"

definition ready_Query ::
  "'s provider \<Rightarrow> go_ctx \<Rightarrow> string \<Rightarrow> dbval list \<Rightarrow> (int \<times> 's, go_error + rows) action" where
  "ready_Query prov ctx sql args =
     act_bind (ready_wait prov ctx) (\<lambda>err. case err of
        Some e \<Rightarrow> act_ret (Inl e)
      | None \<Rightarrow> act_call (prov_Query prov ctx sql args))"

definition ready_QueryRow ::
  "'s provider \<Rightarrow> go_ctx \<Rightarrow> string \<Rightarrow> dbval list \<Rightarrow> (int \<times> 's, row) action" where
  "ready_QueryRow prov ctx sql args =
     act_bind (ready_wait prov ctx) (\<lambda>err. case err of
        Some e \<Rightarrow> act_ret (ErrRow e)
      | None \<Rightarrow> act_call (prov_QueryRow prov ctx sql args))"

text \<open>The methods of whatever \<open>QuerierFromContext\<close> returned.\<close>

definition q_Exec ::
  "'s pgx \<Rightarrow> 's provider \<Rightarrow> querier \<Rightarrow> go_ctx \<Rightarrow> string \<Rightarrow> dbval list \<Rightarrow> (int \<times> 's, int \<times> go_error option) action" where
  "q_Exec P prov q ctx sql args =
     (case q of
        QTx tx \<Rightarrow> act_call (adapter_Exec P (Some tx) ctx sql args)
      | QReady \<Rightarrow> ready_Exec prov ctx sql args
      | QProvider \<Rightarrow> act_call (prov_Exec prov ctx sql args))"

definition q_Query ::
  "'s pgx \<Rightarrow> 's provider \<Rightarrow> querier \<Rightarrow> go_ctx \<Rightarrow> string \<Rightarrow> dbval list \<Rightarrow> (int \<times> 's, go_error + rows) action" where
  "q_Query P prov q ctx sql args =
     (case q of
        QTx tx \<Rightarrow> act_call (adapter_Query P (Some tx) ctx sql args)
      | QReady \<Rightarrow> ready_Query prov ctx sql args
      | QProvider \<Rightarrow> act_call (prov_Query prov ctx sql args))"

definition q_QueryRow ::
  "'s pgx \<Rightarrow> 's provider \<Rightarrow> querier \<Rightarrow> go_ctx \<Rightarrow> string \<Rightarrow> dbval list \<Rightarrow> (int \<times> 's, row) action" where
  "q_QueryRow P prov q ctx sql args =
     (case q of
        QTx tx \<Rightarrow> act_call (adapter_QueryRow P (Some tx) ctx sql args)
      | QReady \<Rightarrow> ready_QueryRow prov ctx sql args
      | QProvider \<Rightarrow> act_call (prov_QueryRow prov ctx sql args))"

section \<open>WithTx\<close>

definition begin_tx :: "'s pgx \<Rightarrow> 's provider \<Rightarrow> go_ctx \<Rightarrow> (int \<times> 's, go_error + nat) action" where
  "begin_tx P prov ctx =
     (case TxFromContext ctx of
        Some existing \<Rightarrow>
          act_bind (act_call (adapter_Begin P (Some existing) ctx)) (\<lambda>r. case r of
              Inl err \<Rightarrow> act_ret (Inl (wrapf ''failed to begin nested transaction (savepoint)'' err))
            | Inr tx \<Rightarrow> act_ret (Inr tx))
      | None \<Rightarrow>
          act_bind (ready_wait prov ctx) (\<lambda>err. case err of
              Some e \<Rightarrow> act_ret (Inl e)
            | None \<Rightarrow>
                act_bind (act_call (prov_Begin prov ctx)) (\<lambda>r. case r of
                    Inl err \<Rightarrow> act_ret (Inl (wrapf ''failed to begin transaction'' err))
                  | Inr tx \<Rightarrow> act_ret (Inr tx))))"

text \<open>What follows the call of \<open>fn\<close>: rollback or commit, and the result.\<close>

definition finish_tx ::
  "'s pgx \<Rightarrow> nat \<Rightarrow> go_ctx \<Rightarrow> go_error option \<Rightarrow> (int \<times> 's, go_error option) action" where
  "finish_tx P tx ctx fnErr =
     (case fnErr of
        Some e \<Rightarrow>
          act_bind (act_call (tx_Rollback P tx ctx)) (\<lambda>rollbackErr. case rollbackErr of
              Some re \<Rightarrow>
                if \<not> errors_Is re ''databasekit.ErrTxClosed''
                then act_ret (Some (WrapError (''transaction failed: '' @ error_text e @ '', rollback failed: ''
                                               @ error_text re) [e, re]))
                else act_ret (Some e)
            | None \<Rightarrow> act_ret (Some e))
      | None \<Rightarrow>
          act_bind (act_call (tx_Commit P tx ctx)) (\<lambda>commitErr. case commitErr of
              Some ce \<Rightarrow> act_ret (Some (wrapf ''failed to commit transaction'' ce))
            | None \<Rightarrow> act_ret None))"

text \<open>The deferred rollback runs when the body returns or panics; its error is dropped.\<close>

definition with_deferred_rollback ::
  "'s pgx \<Rightarrow> nat \<Rightarrow> go_ctx \<Rightarrow> (int \<times> 's, 'a) action \<Rightarrow> (int \<times> 's, 'a) action" where
  "with_deferred_rollback P tx ctx body w =
     (case body w of
        (Blocked, w') \<Rightarrow> (Blocked, w')
      | (r, w') \<Rightarrow> (r, snd (tx_Rollback P tx ctx w')))"

definition WithTx ::
  "'s pgx \<Rightarrow> 's provider \<Rightarrow> go_ctx \<Rightarrow> (go_ctx \<Rightarrow> (int \<times> 's, go_error option) action)
     \<Rightarrow> (int \<times> 's, go_error option) action" where
  "WithTx P prov ctx fn =
     act_bind (begin_tx P prov ctx) (\<lambda>r. case r of
        Inl err \<Rightarrow> act_ret (Some err)
      | Inr tx \<Rightarrow>
          with_deferred_rollback P tx ctx
            (act_bind (fn (ctx\<lparr>ctx_tx := Some tx\<rparr>)) (finish_tx P tx ctx)))"

text \<open>
  \<open>WithTx\<close> called with a closure that also assigns to captured variables: their last values are a
  second result.
\<close>

definition WithTx_capture ::
  "'s pgx \<Rightarrow> 's provider \<Rightarrow> go_ctx \<Rightarrow> (go_ctx \<Rightarrow> (int \<times> 's, go_error option \<times> 'a) action)
     \<Rightarrow> (int \<times> 's, go_error option \<times> 'a option) action" where
  "WithTx_capture P prov ctx fn =
     act_bind (begin_tx P prov ctx) (\<lambda>r. case r of
        Inl err \<Rightarrow> act_ret (Some err, None)
      | Inr tx \<Rightarrow>
          with_deferred_rollback P tx ctx
            (act_bind (fn (ctx\<lparr>ctx_tx := Some tx\<rparr>)) (\<lambda>(fnErr, a).
               act_bind (finish_tx P tx ctx fnErr) (\<lambda>res. act_ret (res, Some a)))))"

definition act_fst :: "('w, 'a \<times> 'b) action \<Rightarrow> ('w, 'a) action" where
  "act_fst m = act_bind m (\<lambda>x. act_ret (fst x))"

lemma WithTx_capture_erase:
  "act_fst (WithTx_capture P prov ctx fn) w = WithTx P prov ctx (\<lambda>c. act_fst (fn c)) w"
proof -
  obtain b v where b: "begin_tx P prov ctx w = (b, v)" by (rule prod.exhaust)
  show ?thesis
  proof (cases "\<exists>tx. b = Returned (Inr tx)")
    case True
    then obtain tx where tx: "b = Returned (Inr tx)" by blast
    obtain f u where f: "fn (ctx\<lparr>ctx_tx := Some tx\<rparr>) v = (f, u)" by (rule prod.exhaust)
    show ?thesis
    proof (cases f)
      case (Returned x)
      obtain g y where g: "finish_tx P tx ctx (fst x) u = (g, y)" by (rule prod.exhaust)
      with b tx f Returned show ?thesis
        by (cases g; cases x)
          (simp_all add: act_fst_def WithTx_capture_def WithTx_def act_bind_def with_deferred_rollback_def)
    next
      case (Panicked p)
      with b tx f show ?thesis
        by (simp add: act_fst_def WithTx_capture_def WithTx_def act_bind_def with_deferred_rollback_def)
    next
      case Blocked
      with b tx f show ?thesis
        by (simp add: act_fst_def WithTx_capture_def WithTx_def act_bind_def with_deferred_rollback_def)
    qed
  next
    case False
    with b show ?thesis
      by (auto simp: act_fst_def WithTx_capture_def WithTx_def act_bind_def split: outcome.splits sum.splits)
  qed
qed

section \<open>PostgresDB construction and connection\<close>

record pool_config =
  pc_connStr :: string
  pc_MaxConns :: int
  pc_MinConns :: int

text \<open>The constructor functions of pgxpool the code calls.\<close>

record ('p, 's) pgxpool =
  pgxpool_ParseConfig :: "string \<Rightarrow> go_error + pool_config"
  pgxpool_New :: "pool_config \<Rightarrow> go_ctx \<Rightarrow> int \<times> 's \<Rightarrow> (go_error + 'p) \<times> int \<times> 's"
  pgxpool_Ping :: "'p \<Rightarrow> go_ctx \<Rightarrow> int \<times> 's \<Rightarrow> go_error option \<times> int \<times> 's"
  pgxpool_Close :: "'p \<Rightarrow> int \<times> 's \<Rightarrow> int \<times> 's"

type_synonym 'p pg_option = "'p PostgresDB \<Rightarrow> 'p PostgresDB"

definition WithDBName :: "string \<Rightarrow> 'p pg_option" where
  "WithDBName name db = db\<lparr>db_name := name\<rparr>"

definition WithMaxConns :: "int \<Rightarrow> 'p pg_option" where
  "WithMaxConns n db = (if n > 0 then db\<lparr>db_maxConns := n\<rparr> else db)"

definition WithMinConns :: "int \<Rightarrow> 'p pg_option" where
  "WithMinConns n db = (if n > 0 then db\<lparr>db_minConns := n\<rparr> else db)"

definition db_WithLogger :: "bool \<Rightarrow> 'p pg_option" where
  "db_WithLogger logger db = db\<lparr>db_logger := logger\<rparr>"

definition db_WithConnectRetry :: "int \<Rightarrow> int \<Rightarrow> 'p pg_option" where
  "db_WithConnectRetry maxAttempts backoff db =
     (if maxAttempts > 0 \<and> backoff > 0
      then db\<lparr>db_retryAttempts := maxAttempts, db_retryBackoff := backoff\<rparr> else db)"

definition buildPoolConfig :: "('p, 's) pgxpool \<Rightarrow> 'p PostgresDB \<Rightarrow> go_error + pool_config" where
  "buildPoolConfig PP db =
     (case pgxpool_ParseConfig PP (db_connStr db) of
        Inl err \<Rightarrow> Inl (wrapf ''failed to parse connection string'' err)
      | Inr config \<Rightarrow>
          let c1 = (if db_maxConns db > 0 then config\<lparr>pc_MaxConns := db_maxConns db\<rparr> else config);
              c2 = (if db_minConns db > 0 then c1\<lparr>pc_MinConns := db_minConns db\<rparr> else c1)
          in Inr c2)"

text \<open>The result carries the configuration the connect closure captures.\<close>

definition NewPostgresDB ::
  "('p, 's) pgxpool \<Rightarrow> string \<Rightarrow> 'p pg_option list \<Rightarrow> go_error + 'p PostgresDB \<times> pool_config" where
  "NewPostgresDB PP connStr options =
     (if connStr = [] then Inl (errors_New ''connection string cannot be empty'')
      else
        let db = fold (\<lambda>option d. option d) options
          \<lparr>db_pool = None, db_name = ''postgres-db'', db_connStr = connStr, db_logger = False,
           db_maxConns = 0, db_minConns = 0, db_retryAttempts = 0, db_retryBackoff = 0\<rparr>
        in case buildPoolConfig PP db of Inl err \<Rightarrow> Inl err | Inr config \<Rightarrow> Inr (db, config))"

definition pg_attempt :: "('p, 's) pgxpool \<Rightarrow> pool_config \<Rightarrow> ('s \<times> 'p option) attempt_fn" where
  "pg_attempt PP config ctx now sp =
     (case pgxpool_New PP config ctx (now, fst sp) of
        (Inl createErr, t1, s1) \<Rightarrow> (Some createErr, t1, s1, snd sp)
      | (Inr p, w1) \<Rightarrow>
          (case pgxpool_Ping PP p ctx w1 of
             (Some pingErr, w2) \<Rightarrow> (case pgxpool_Close PP p w2 of (t3, s3) \<Rightarrow> (Some pingErr, t3, s3, snd sp))
           | (None, t2, s2) \<Rightarrow> (None, t2, s2, Some p)))"

definition pg_connect ::
  "('p, 's) pgxpool \<Rightarrow> (nat \<Rightarrow> int \<Rightarrow> int option) \<Rightarrow> (nat \<Rightarrow> bool) \<Rightarrow> go_ctx \<Rightarrow> pool_config
     \<Rightarrow> 'p PostgresDB \<Rightarrow> int \<times> 's \<Rightarrow> go_error option \<times> 'p PostgresDB \<times> int \<times> 's" where
  "pg_connect PP rand pick ctx config db w =
     (let attempts = (if db_retryAttempts db \<le> 0 then 1 else db_retryAttempts db) in
      case retry_Do ctx attempts (db_retryBackoff db) (pg_attempt PP config) rand pick (fst w) (snd w, None) of
        (Some err, t, s, _) \<Rightarrow> (Some (wrapf ''failed to connect to database'' err), db, t, s)
      | (None, t, s, pool) \<Rightarrow> (None, db\<lparr>db_pool := pool\<rparr>, t, s))"

definition pg_stop :: "('p, 's) pgxpool \<Rightarrow> 'p PostgresDB \<Rightarrow> go_ctx \<Rightarrow> (int \<times> 's, go_error option) action" where
  "pg_stop PP db ctx w =
     (case db_pool db of
        None \<Rightarrow> (Panicked ''nil pointer dereference'', w)
      | Some p \<Rightarrow> (Returned None, pgxpool_Close PP p w))"

definition db_HealthChecks :: "('p, 's) pgxpool \<Rightarrow> 'p PostgresDB \<Rightarrow> 's \<Rightarrow> check list" where
  "db_HealthChecks PP db s =
     StandardChecks (db_name db) (\<lambda>ctx now.
       case db_pool db of
         None \<Rightarrow> (Some (errors_New ''db is not initialized''), now)
       | Some p \<Rightarrow> (case pgxpool_Ping PP p ctx (now, s) of (err, t, _) \<Rightarrow> (err, t)))"

section \<open>What the driver promises about transactions\<close>

text \<open>
  The abstract state of one connection: the committed data and the open transactions, innermost
  first, each with the data it sees. \<open>top_tx\<close> is the transaction a query has to go through,
  \<open>put_data\<close> replaces what it sees.
\<close>

type_synonym 'd txstate = "'d \<times> (nat \<times> 'd) list"

fun top_tx :: "'d txstate \<Rightarrow> nat option" where
  "top_tx (b, []) = None"
| "top_tx (b, (h, d) # st) = Some h"

fun top_data :: "'d txstate \<Rightarrow> 'd" where
  "top_data (b, []) = b"
| "top_data (b, (h, d) # st) = d"

fun put_data :: "'d \<Rightarrow> 'd txstate \<Rightarrow> 'd txstate" where
  "put_data x (b, []) = (x, [])"
| "put_data x (b, (h, d) # st) = (b, (h, x) # st)"

definition push_tx :: "nat \<Rightarrow> 'd txstate \<Rightarrow> 'd txstate" where
  "push_tx h a = (fst a, (h, top_data a) # snd a)"

lemma top_put [simp]: "top_tx (put_data x a) = top_tx a" "top_data (put_data x a) = x"
  "put_data y (put_data x a) = put_data y a" "put_data (top_data a) a = a"
  by (cases "(x, a)" rule: put_data.cases; simp)+

lemma fst_put [simp]: "map fst (snd (put_data x a)) = map fst (snd a)"
  by (cases "(x, a)" rule: put_data.cases; simp)

lemma open_put [simp]: "fst ` set (snd (put_data x a)) = fst ` set (snd a)"
  by (cases "(x, a)" rule: put_data.cases; simp)

lemma put_push: "put_data x (push_tx h a) = (fst a, (h, x) # snd a)"
  by (cases a) (simp add: push_tx_def)

lemma top_push [simp]: "top_tx (push_tx h a) = Some h" "top_data (push_tx h a) = top_data a"
  by (cases a; simp add: push_tx_def)+

text \<open>A function that, given the innermost transaction, changes at most the data it sees.\<close>

definition tx_confined ::
  "('s \<Rightarrow> 'd txstate) \<Rightarrow> (go_ctx \<Rightarrow> (int \<times> 's, go_error option) action) \<Rightarrow> bool" where
  "tx_confined txs fn \<longleftrightarrow>
     (\<forall>ctx w r w'. ctx_tx ctx \<noteq> None \<longrightarrow> ctx_tx ctx = top_tx (txs (snd w)) \<longrightarrow> fn ctx w = (r, w') \<longrightarrow> r \<noteq> Blocked \<longrightarrow>
        (\<exists>x. txs (snd w') = put_data x (txs (snd w))))"

text \<open>
  A provider whose \<open>Begin\<close> opens a transaction on the driver's pool or fails, and whose wait does
  not touch the connection. Both providers of the code are such.
\<close>

definition pool_provider :: "'s pgx \<Rightarrow> ('s \<Rightarrow> 'd txstate) \<Rightarrow> 's provider \<Rightarrow> bool" where
  "pool_provider P txs prov \<longleftrightarrow>
     (\<forall>ctx w r w'. prov_Begin prov ctx w = (r, w') \<longrightarrow>
        pgx_Begin P None ctx w = (r, w') \<or> (\<exists>e. r = Inl e \<and> w' = w))
   \<and> (\<forall>wait ctx w r w'. prov_Wait prov = Some wait \<longrightarrow> wait ctx w = (r, w') \<longrightarrow> txs (snd w') = txs (snd w))"

lemma pool_provider_begin:
  "pool_provider P txs prov \<Longrightarrow> prov_Begin prov ctx w = (r, w') \<Longrightarrow>
   pgx_Begin P None ctx w = (r, w') \<or> (\<exists>e. r = Inl e \<and> w' = w)"
  unfolding pool_provider_def by blast

lemma pool_provider_wait:
  "pool_provider P txs prov \<Longrightarrow> prov_Wait prov = Some wait \<Longrightarrow> wait ctx w = (r, w') \<Longrightarrow> txs (snd w') = txs (snd w)"
  unfolding pool_provider_def by blast

lemma pool_provider_pool: "pool_provider P txs (NewPoolProvider P)"
  by (auto simp: pool_provider_def NewPoolProvider_def adapter_Begin_def split: prod.splits sum.splits)

lemma pool_provider_db:
  assumes "\<And>t s. txs (elapse t s) = txs s"
  shows "pool_provider P txs (db_TxProvider P dbof pick readyAt elapse)"
  using assms
  by (auto simp: pool_provider_def db_TxProvider_def db_begin_def wait_ready_def
      split: prod.splits sum.splits if_splits outcome.splits)

text \<open>
  Nothing of the transaction h reached the enclosing state a: h is closed, or the driver's last
  \<open>Rollback\<close> failed and h is still open.
\<close>

definition rolled_back :: "'s pgx \<Rightarrow> ('s \<Rightarrow> 'd txstate) \<Rightarrow> go_ctx \<Rightarrow> 'd txstate \<Rightarrow> nat \<Rightarrow> int \<times> 's \<Rightarrow> bool" where
  "rolled_back P txs ctx a h w' \<longleftrightarrow>
     txs (snd w') = a
   \<or> (\<exists>x w e. txs (snd w) = put_data x (push_tx h a) \<and> txs (snd w') = txs (snd w)
              \<and> pgx_Rollback P h ctx w = (Some e, w'))"

text \<open>The function ran to its end inside a transaction and left the data \<open>x\<close> there.\<close>

definition completed ::
  "'s pgx \<Rightarrow> 's provider \<Rightarrow> ('s \<Rightarrow> 'd txstate) \<Rightarrow> go_ctx \<Rightarrow> (go_ctx \<Rightarrow> (int \<times> 's, go_error option) action)
     \<Rightarrow> int \<times> 's \<Rightarrow> 'd \<Rightarrow> bool" where
  "completed P prov txs ctx fn w x \<longleftrightarrow>
     (\<exists>h wb w1. begin_tx P prov ctx w = (Returned (Inr h), wb)
        \<and> fn (ctx\<lparr>ctx_tx := Some h\<rparr>) wb = (Returned None, w1)
        \<and> txs (snd w1) = put_data x (push_tx h (txs (snd w))))"

text \<open>
  pgx as documented, for a connection used by one goroutine: \<open>Begin\<close> on the innermost transaction
  (on the pool when there is none) opens a new one that sees the same data, a savepoint when
  nested; a successful \<open>Commit\<close> hands its data to the enclosing one; \<open>Rollback\<close> discards it; both
  fail with \<open>pgx.ErrTxClosed\<close> once the transaction is closed. A \<open>Commit\<close> that fails may have taken
  effect or not.
\<close>

locale tx_driver =
  fixes P :: "'s pgx" and txs :: "'s \<Rightarrow> 'd txstate"
  assumes begin_ok: "pgx_Begin P (top_tx (txs (snd w))) ctx w = (Inr h, w') \<Longrightarrow>
      h \<notin> set (map fst (snd (txs (snd w)))) \<and> txs (snd w') = push_tx h (txs (snd w))"
    and begin_err: "pgx_Begin P (top_tx (txs (snd w))) ctx w = (Inl e, w') \<Longrightarrow> txs (snd w') = txs (snd w)"
    and commit_ok: "txs (snd w) = put_data x (push_tx h a) \<Longrightarrow> pgx_Commit P h ctx w = (None, w') \<Longrightarrow>
      txs (snd w') = put_data x a"
    and commit_err: "txs (snd w) = put_data x (push_tx h a) \<Longrightarrow> pgx_Commit P h ctx w = (Some e, w') \<Longrightarrow>
      txs (snd w') = put_data x (push_tx h a) \<or> txs (snd w') = a \<or> txs (snd w') = put_data x a"
    and rollback_ok: "txs (snd w) = put_data x (push_tx h a) \<Longrightarrow> pgx_Rollback P h ctx w = (None, w') \<Longrightarrow>
      txs (snd w') = a"
    and rollback_err: "txs (snd w) = put_data x (push_tx h a) \<Longrightarrow> pgx_Rollback P h ctx w = (Some e, w') \<Longrightarrow>
      \<not> errors_Is e ''pgx.ErrTxClosed'' \<and> (txs (snd w') = txs (snd w) \<or> txs (snd w') = a)"
    and rollback_closed: "h \<notin> set (map fst (snd (txs (snd w)))) \<Longrightarrow> pgx_Rollback P h ctx w = (r, w') \<Longrightarrow>
      err_is r ''pgx.ErrTxClosed'' \<and> txs (snd w') = txs (snd w)"
begin

lemma confinedD:
  "tx_confined txs fn \<Longrightarrow> ctx_tx ctx = Some h \<Longrightarrow> txs (snd w) = push_tx h a \<Longrightarrow> fn ctx w = (r, w') \<Longrightarrow>
   r \<noteq> Blocked \<Longrightarrow> \<exists>x. txs (snd w') = put_data x (push_tx h a)"
  unfolding tx_confined_def by (metis option.distinct(1) top_push(1))

lemma rollback_open:
  assumes "txs (snd w) = put_data x (push_tx h a)"
  shows "rolled_back P txs ctx a h (snd (tx_Rollback P h ctx w))"
proof -
  obtain e w' where e: "pgx_Rollback P h ctx w = (e, w')" by (rule prod.exhaust)
  then have "snd (tx_Rollback P h ctx w) = w'" by (simp add: tx_Rollback_def)
  moreover have "txs (snd w') = a \<or> (\<exists>e. txs (snd w') = txs (snd w) \<and> pgx_Rollback P h ctx w = (Some e, w'))"
    using rollback_ok [OF assms, of ctx w'] rollback_err [OF assms, of ctx _ w'] e assms by (cases e) auto
  ultimately show ?thesis unfolding rolled_back_def using assms by metis
qed

lemma rollback_shut:
  assumes "h \<notin> set (map fst (snd (txs (snd w))))"
  shows "txs (snd (snd (tx_Rollback P h ctx w))) = txs (snd w)"
  using rollback_closed [OF assms, of ctx] by (cases "pgx_Rollback P h ctx w") (auto simp: tx_Rollback_def)

lemma rollback_again:
  assumes "rolled_back P txs ctx a h w" and "h \<notin> set (map fst (snd a))"
  shows "rolled_back P txs ctx a h (snd (tx_Rollback P h ctx w))"
  using assms rollback_shut [of h w ctx] rollback_open [of w _ h a ctx] unfolding rolled_back_def by auto

text \<open>The transaction's end: what the enclosing state is, by what \<open>fn\<close> returned.\<close>

lemma tx_end:
  assumes fn: "tx_confined txs fn" and wb: "txs (snd wb) = push_tx h a" and h: "h \<notin> set (map fst (snd a))"
    and run: "fn (ctx\<lparr>ctx_tx := Some h\<rparr>) wb = (fr, w1)"
    and res: "with_deferred_rollback P h ctx (act_bind (fn (ctx\<lparr>ctx_tx := Some h\<rparr>)) (finish_tx P h ctx)) wb = (res, w')"
  shows "case fr of
      Returned None \<Rightarrow> \<exists>x. txs (snd w1) = put_data x (push_tx h a)
        \<and> (res = Returned None \<longrightarrow> txs (snd w') = put_data x a)
        \<and> (res \<noteq> Returned None \<longrightarrow> (\<exists>e. res = Returned (Some (wrapf ''failed to commit transaction'' e)))
             \<and> (rolled_back P txs ctx a h w' \<or> txs (snd w') = put_data x a))
    | Returned (Some fe) \<Rightarrow> (\<exists>e. res = Returned (Some e) \<and> (\<forall>t. errors_Is fe t \<longrightarrow> errors_Is e t)) \<and> rolled_back P txs ctx a h w'
    | Panicked p \<Rightarrow> res = Panicked p \<and> rolled_back P txs ctx a h w'
    | Blocked \<Rightarrow> res = Blocked"
proof (cases fr)
  case (Returned fe)
  obtain x where x: "txs (snd w1) = put_data x (push_tx h a)"
    using confinedD [OF fn _ wb run] Returned by auto
  show ?thesis
  proof (cases fe)
    case None
    obtain ce w2 where c: "pgx_Commit P h ctx w1 = (ce, w2)" by (rule prod.exhaust)
    have w': "w' = snd (tx_Rollback P h ctx w2)"
      using res run Returned None c
      by (cases ce) (auto simp: with_deferred_rollback_def act_bind_def finish_tx_def tx_Commit_def)
    have shut: "txs (snd w') = txs (snd w2)" if "txs (snd w2) = put_data x a \<or> txs (snd w2) = a"
      using that rollback_shut [of h w2 ctx] h unfolding w' by auto
    show ?thesis
    proof (cases ce)
      case None
      have "res = Returned None"
        using res run Returned \<open>fe = None\<close> c None
        by (simp add: with_deferred_rollback_def act_bind_def finish_tx_def tx_Commit_def)
      with x shut commit_ok [OF x c [unfolded None]] Returned \<open>fe = None\<close> show ?thesis by auto
    next
      case (Some e)
      have r: "res = Returned (Some (wrapf ''failed to commit transaction'' e))"
        using res run Returned \<open>fe = None\<close> c Some
        by (simp add: with_deferred_rollback_def act_bind_def finish_tx_def tx_Commit_def)
      have "rolled_back P txs ctx a h w' \<or> txs (snd w') = put_data x a"
        using commit_err [OF x c [unfolded Some]] shut rollback_open [of w2 x h a ctx]
        unfolding w' by (auto simp: rolled_back_def)
      with x r Returned \<open>fe = None\<close> show ?thesis by auto
    qed
  next
    case (Some e)
    obtain re w2 where rb: "tx_Rollback P h ctx w1 = (re, w2)" by (rule prod.exhaust)
    have w': "w' = snd (tx_Rollback P h ctx w2)"
      using res run Returned Some rb
      by (cases re) (auto simp: with_deferred_rollback_def act_bind_def finish_tx_def split: if_splits)
    have "\<exists>e'. res = Returned (Some e') \<and> (\<forall>t. errors_Is e t \<longrightarrow> errors_Is e' t)"
      using res run Returned Some rb
      by (cases re) (auto simp: with_deferred_rollback_def act_bind_def finish_tx_def split: if_splits)
    moreover have "rolled_back P txs ctx a h w'"
      using rollback_again [OF _ h] rollback_open [OF x, of ctx] rb unfolding w' by simp
    ultimately show ?thesis using Returned Some by auto
  qed
next
  case (Panicked p)
  obtain x where x: "txs (snd w1) = put_data x (push_tx h a)"
    using confinedD [OF fn _ wb run] Panicked by auto
  then show ?thesis
    using res run Panicked rollback_open [OF x, of ctx]
    by (auto simp: with_deferred_rollback_def act_bind_def)
next
  case Blocked
  then show ?thesis using res run by (auto simp: with_deferred_rollback_def act_bind_def)
qed

lemma ready_wait_quiet:
  assumes "pool_provider P txs prov" and "ready_wait prov ctx w = (r, w')"
  shows "txs (snd w') = txs (snd w)"
proof (cases "prov_Wait prov")
  case None
  with assms(2) show ?thesis by (simp add: ready_wait_def)
next
  case (Some wait)
  obtain x v where x: "wait ctx w = (x, v)" by (rule prod.exhaust)
  with Some assms(2) have "w' = v"
    by (auto simp: ready_wait_def split: outcome.splits option.splits)
  with pool_provider_wait [OF assms(1) Some x] show ?thesis by simp
qed

lemma begin_tx_cases:
  assumes "pool_provider P txs prov" and "ctx_tx ctx = top_tx (txs (snd w))"
    and "begin_tx P prov ctx w = (r, w')"
  shows "case r of
      Returned (Inr h) \<Rightarrow> h \<notin> set (map fst (snd (txs (snd w)))) \<and> txs (snd w') = push_tx h (txs (snd w))
    | _ \<Rightarrow> txs (snd w') = txs (snd w)"
proof (cases "ctx_tx ctx")
  case (Some q)
  obtain b u where b: "pgx_Begin P (Some q) ctx w = (b, u)" by (rule prod.exhaust)
  with Some assms(2) have "pgx_Begin P (top_tx (txs (snd w))) ctx w = (b, u)" by simp
  with b Some assms(3) begin_ok [of w ctx _ u] begin_err [of w ctx _ u] show ?thesis
    by (cases b) (auto simp: begin_tx_def TxFromContext_def act_bind_def adapter_Begin_def)
next
  case None
  obtain e v where wt: "ready_wait prov ctx w = (e, v)" by (rule prod.exhaust)
  note same = ready_wait_quiet [OF assms(1) wt]
  obtain b u where b: "prov_Begin prov ctx v = (b, u)" by (rule prod.exhaust)
  from pool_provider_begin [OF assms(1) this]
  have "pgx_Begin P (top_tx (txs (snd v))) ctx v = (b, u) \<or> (\<exists>e. b = Inl e \<and> u = v)"
    using None assms(2) same by auto
  then have "case b of Inr h \<Rightarrow> h \<notin> set (map fst (snd (txs (snd w)))) \<and> txs (snd u) = push_tx h (txs (snd w))
       | Inl e \<Rightarrow> txs (snd u) = txs (snd w)"
    using begin_ok [of v ctx _ u] begin_err [of v ctx _ u] same by (cases b) auto
  with None assms(3) wt b same show ?thesis
    by (auto simp: begin_tx_def TxFromContext_def act_bind_def split: outcome.splits option.splits sum.splits)
qed

text \<open>What \<open>WithTx\<close> leaves of the state \<open>a\<close> it started from.\<close>

lemma WithTx_end:
  assumes fn: "tx_confined txs fn" and prov: "pool_provider P txs prov"
    and ctx: "ctx_tx ctx = top_tx (txs (snd w))" and run: "WithTx P prov ctx fn w = (res, w')"
  shows "case res of
      Returned None \<Rightarrow> (\<exists>x. completed P prov txs ctx fn w x \<and> txs (snd w') = put_data x (txs (snd w)))
    | Returned (Some e) \<Rightarrow> (\<exists>h. rolled_back P txs ctx (txs (snd w)) h w')
        \<or> (\<exists>x ce. completed P prov txs ctx fn w x
              \<and> e = wrapf ''failed to commit transaction'' ce \<and> txs (snd w') = put_data x (txs (snd w)))
    | Panicked p \<Rightarrow> (\<exists>h. rolled_back P txs ctx (txs (snd w)) h w')
    | Blocked \<Rightarrow> True"
proof -
  obtain br wb where b: "begin_tx P prov ctx w = (br, wb)" by (rule prod.exhaust)
  note bc = begin_tx_cases [OF prov ctx b]
  show ?thesis
  proof (cases "\<exists>h. br = Returned (Inr h)")
    case False
    then have "txs (snd w') = txs (snd w)" and "res \<noteq> Returned None"
      using bc b run by (auto simp: WithTx_def act_bind_def split: outcome.splits sum.splits)
    then show ?thesis by (auto simp: rolled_back_def split: outcome.splits option.splits)
  next
    case True
    then obtain h where h: "br = Returned (Inr h)" by blast
    obtain fr w1 where f: "fn (ctx\<lparr>ctx_tx := Some h\<rparr>) wb = (fr, w1)" by (rule prod.exhaust)
    have body: "with_deferred_rollback P h ctx (act_bind (fn (ctx\<lparr>ctx_tx := Some h\<rparr>)) (finish_tx P h ctx)) wb = (res, w')"
      using run b h by (simp add: WithTx_def act_bind_def)
    have wb: "txs (snd wb) = push_tx h (txs (snd w))" and fresh: "h \<notin> set (map fst (snd (txs (snd w))))"
      using bc h by simp_all
    note e = tx_end [OF fn wb fresh f body]
    show ?thesis
    proof (cases "fr = Returned None")
      case True
      with e obtain x where x: "txs (snd w1) = put_data x (push_tx h (txs (snd w)))"
        "res = Returned None \<longrightarrow> txs (snd w') = put_data x (txs (snd w))"
        "res \<noteq> Returned None \<longrightarrow> (\<exists>e. res = Returned (Some (wrapf ''failed to commit transaction'' e)))
               \<and> (rolled_back P txs ctx (txs (snd w)) h w' \<or> txs (snd w') = put_data x (txs (snd w)))"
        by auto
      have ran: "completed P prov txs ctx fn w x"
        unfolding completed_def using x(1) True f b h by blast
      show ?thesis
      proof (cases "res = Returned None")
        case True
        with x(2) ran show ?thesis by auto
      next
        case False
        with x(3) obtain ce where "res = Returned (Some (wrapf ''failed to commit transaction'' ce))" by blast
        with x(3) ran show ?thesis by auto
      qed
    next
      case False
      with e show ?thesis by (auto split: outcome.splits option.splits)
    qed
  qed
qed

lemma rolled_back_exact:
  assumes "rolled_back P txs ctx a h w'"
    and "\<And>h ctx w e w'. pgx_Rollback P h ctx w = (Some e, w') \<Longrightarrow> errors_Is e ''pgx.ErrTxClosed''"
  shows "txs (snd w') = a"
  using assms rollback_err unfolding rolled_back_def by blast

text \<open>When \<open>Rollback\<close> never fails on an open transaction, \<open>WithTx\<close> nests: it is itself confined.\<close>

lemma WithTx_confined:
  assumes fn: "tx_confined txs fn" and prov: "pool_provider P txs prov"
    and rel: "\<And>h ctx w e w'. pgx_Rollback P h ctx w = (Some e, w') \<Longrightarrow> errors_Is e ''pgx.ErrTxClosed''"
  shows "tx_confined txs (\<lambda>ctx. WithTx P prov ctx fn)"
  unfolding tx_confined_def
proof (intro allI impI)
  fix ctx w r w'
  assume ctx: "ctx_tx ctx = top_tx (txs (snd w))" and run: "WithTx P prov ctx fn w = (r, w')" and r: "r \<noteq> Blocked"
  have undone: "\<exists>x. txs (snd w') = put_data x (txs (snd w))" if "rolled_back P txs ctx (txs (snd w)) h w'" for h
    using rolled_back_exact [OF that rel] by (intro exI [of _ "top_data (txs (snd w))"]) simp
  show "\<exists>x. txs (snd w') = put_data x (txs (snd w))"
    using WithTx_end [OF fn prov ctx run] r undone by (auto split: outcome.splits option.splits)
qed

end

text \<open>Queries on the innermost transaction change at most the data it sees, scanning changes nothing.\<close>

locale query_driver = tx_driver +
  assumes exec_top: "top_tx (txs (snd w)) = Some h \<Longrightarrow> pgx_Exec P (Some h) ctx stmt args w = (r, w') \<Longrightarrow>
      \<exists>x. txs (snd w') = put_data x (txs (snd w))"
    and queryrow_top: "top_tx (txs (snd w)) = Some h \<Longrightarrow> pgx_QueryRow P (Some h) ctx stmt args w = (n, w') \<Longrightarrow>
      \<exists>x. txs (snd w') = put_data x (txs (snd w))"
    and scan_top: "pgx_Row_Scan P n w = (v, w') \<Longrightarrow> txs (snd w') = txs (snd w)"
begin

text \<open>Code that queries through the context's querier, as repositories do.\<close>

lemma q_Exec_top:
  "ctx_tx ctx = Some h \<Longrightarrow> top_tx (txs (snd w)) = Some h \<Longrightarrow>
   q_Exec P prov (QuerierFromContext prov ctx) ctx stmt args w = (r, w') \<Longrightarrow>
   \<exists>x. r = Returned x \<and> (\<exists>d. txs (snd w') = put_data d (txs (snd w)))"
  using exec_top [of w h ctx stmt args]
  by (cases "pgx_Exec P (Some h) ctx stmt args w")
    (auto simp: q_Exec_def QuerierFromContext_def TxFromContext_def adapter_Exec_def)

lemma Row_Scan_top: "Row_Scan P rw w = (v, w') \<Longrightarrow> txs (snd w') = txs (snd w)"
  using scan_top
  by (cases rw) (auto simp: Row_Scan_def pgxRowAdapter_Scan_def split: prod.splits if_splits)

lemma q_QueryRow_top:
  "ctx_tx ctx = Some h \<Longrightarrow> top_tx (txs (snd w)) = Some h \<Longrightarrow>
   q_QueryRow P prov (QuerierFromContext prov ctx) ctx stmt args w = (r, w') \<Longrightarrow>
   \<exists>x. r = Returned x \<and> (\<exists>d. txs (snd w') = put_data d (txs (snd w)))"
  using queryrow_top [of w h ctx stmt args]
  by (cases "pgx_QueryRow P (Some h) ctx stmt args w")
    (auto simp: q_QueryRow_def QuerierFromContext_def TxFromContext_def adapter_QueryRow_def)

end

text \<open>
  What the statements mean: an interpreter \<open>sql\<close> of statements yields the result rows, the number of
  affected rows and the new data, or an error.
\<close>

type_synonym 'd sql_fn = "string \<Rightarrow> dbval list \<Rightarrow> int \<Rightarrow> 'd \<Rightarrow> go_error + dbval list list \<times> int \<times> 'd"

text \<open>
  A driver that runs statements by \<open>sql\<close> on the data of the innermost transaction, at a moment of its
  own choice. Only success is constrained: a statement may fail for whatever reason, and
  the data the transaction sees is then unknown.
\<close>

locale sql_driver = query_driver P txs
  for P :: "'s pgx" and txs :: "'s \<Rightarrow> 'd txstate" +
  fixes sql :: "'d sql_fn"
  assumes exec_sql: "top_tx (txs (snd w)) = Some h \<Longrightarrow> pgx_Exec P (Some h) ctx stmt args w = ((n, None), w') \<Longrightarrow>
      \<exists>t rws d. sql stmt args t (top_data (txs (snd w))) = Inr (rws, n, d) \<and> txs (snd w') = put_data d (txs (snd w))"
    and scan_sql: "top_tx (txs (snd w)) = Some h \<Longrightarrow> pgx_QueryRow P (Some h) ctx stmt args w = (k, w1) \<Longrightarrow>
      pgx_Row_Scan P k w1 = ((vs, None), w2) \<Longrightarrow>
      \<exists>t rs n d. sql stmt args t (top_data (txs (snd w))) = Inr (vs # rs, n, d) \<and> txs (snd w1) = put_data d (txs (snd w))"

section \<open>A reference driver\<close>

text \<open>One connection with savepoints over an interpreter of statements.\<close>

record 'd pg_state =
  pg_txs :: "'d txstate"
  pg_next :: nat
  pg_results :: "nat \<Rightarrow> dbval list list \<times> go_error option"

definition pgx_ErrTxClosed :: go_error where
  "pgx_ErrTxClosed = ErrorString (Sentinel ''pgx.ErrTxClosed'') ''tx is closed''"

definition pgx_ErrNoRows :: go_error where
  "pgx_ErrNoRows = ErrorString (Sentinel ''pgx.ErrNoRows'') ''no rows in result set''"

definition pg_run ::
  "'d sql_fn \<Rightarrow> nat option \<Rightarrow> go_ctx \<Rightarrow> string \<Rightarrow> dbval list \<Rightarrow> int \<times> ('d, 'z) pg_state_scheme
     \<Rightarrow> (go_error + dbval list list \<times> int) \<times> int \<times> ('d, 'z) pg_state_scheme" where
  "pg_run sql q ctx stmt args w =
     (case ctx_Err ctx (fst w) of
        Some e \<Rightarrow> (Inl e, w)
      | None \<Rightarrow>
          if q \<noteq> top_tx (pg_txs (snd w)) then (Inl pgx_ErrTxClosed, w)
          else (case sql stmt args (fst w) (top_data (pg_txs (snd w))) of
                  Inl e \<Rightarrow> (Inl e, fst w + Millisecond, snd w)
                | Inr (rws, n, d) \<Rightarrow>
                    (Inr (rws, n), fst w + Millisecond, (snd w)\<lparr>pg_txs := put_data d (pg_txs (snd w))\<rparr>)))"

definition pg_keep :: "(go_error + dbval list list \<times> int) \<times> int \<times> ('d, 'z) pg_state_scheme \<Rightarrow> nat \<times> int \<times> ('d, 'z) pg_state_scheme" where
  "pg_keep r =
     (case r of (res, t, s) \<Rightarrow>
        (pg_next s, t, s\<lparr>pg_next := Suc (pg_next s), pg_results := (pg_results s)
          (pg_next s := (case res of Inl e \<Rightarrow> ([], Some e) | Inr (rws, n) \<Rightarrow> (rws, None)))\<rparr>))"

definition pop_tx :: "'d txstate \<Rightarrow> 'd txstate" where
  "pop_tx a = (fst a, tl (snd a))"

definition ref_pgx :: "'d sql_fn \<Rightarrow> ('d, 'z) pg_state_scheme pgx" where
  "ref_pgx sql =
     \<lparr>pgx_Exec = (\<lambda>q ctx stmt args w. case pg_run sql q ctx stmt args w of
          (Inl e, w') \<Rightarrow> ((0, Some e), w') | (Inr (rws, n), w') \<Rightarrow> ((n, None), w')),
      pgx_Query = (\<lambda>q ctx stmt args w. case pg_run sql q ctx stmt args w of
          (Inl e, w') \<Rightarrow> (Inl e, w') | r \<Rightarrow> (case pg_keep r of (n, w') \<Rightarrow> (Inr n, w'))),
      pgx_QueryRow = (\<lambda>q ctx stmt args w. pg_keep (pg_run sql q ctx stmt args w)),
      pgx_Row_Scan = (\<lambda>n w. case pg_results (snd w) n of
          (_, Some e) \<Rightarrow> (([], Some e), w)
        | ([], None) \<Rightarrow> (([], Some pgx_ErrNoRows), w)
        | (r # rs, None) \<Rightarrow> ((r, None), w)),
      pgx_Rows_Next = (\<lambda>n w. (fst (pg_results (snd w) n) \<noteq> [], w)),
      pgx_Rows_Scan = (\<lambda>n w. case fst (pg_results (snd w) n) of
          [] \<Rightarrow> (([], Some pgx_ErrNoRows), w)
        | r # rs \<Rightarrow> ((r, None), fst w, (snd w)\<lparr>pg_results := (pg_results (snd w))(n := (rs, None))\<rparr>)),
      pgx_Rows_Err = (\<lambda>n w. snd (pg_results (snd w) n)),
      pgx_Rows_Close = (\<lambda>n w. w),
      pgx_Begin = (\<lambda>q ctx w. case ctx_Err ctx (fst w) of
          Some e \<Rightarrow> (Inl e, w)
        | None \<Rightarrow>
            if q \<noteq> top_tx (pg_txs (snd w)) \<or> pg_next (snd w) \<in> set (map fst (snd (pg_txs (snd w))))
            then (Inl pgx_ErrTxClosed, w)
            else (Inr (pg_next (snd w)), fst w, (snd w)\<lparr>pg_next := Suc (pg_next (snd w)),
                    pg_txs := push_tx (pg_next (snd w)) (pg_txs (snd w))\<rparr>)),
      pgx_Commit = (\<lambda>h ctx w.
          if top_tx (pg_txs (snd w)) \<noteq> Some h then (Some pgx_ErrTxClosed, w)
          else (case ctx_Err ctx (fst w) of
             Some e \<Rightarrow> (Some e, fst w, (snd w)\<lparr>pg_txs := pop_tx (pg_txs (snd w))\<rparr>)
           | None \<Rightarrow> (None, fst w + Millisecond,
               (snd w)\<lparr>pg_txs := put_data (top_data (pg_txs (snd w))) (pop_tx (pg_txs (snd w)))\<rparr>))),
      pgx_Rollback = (\<lambda>h ctx w.
          if top_tx (pg_txs (snd w)) \<noteq> Some h then (Some pgx_ErrTxClosed, w)
          else (None, fst w, (snd w)\<lparr>pg_txs := pop_tx (pg_txs (snd w))\<rparr>))\<rparr>"

lemma pop_push [simp]: "pop_tx (push_tx h a) = a" "pop_tx (put_data x (push_tx h a)) = a"
  by (cases a; simp add: push_tx_def pop_tx_def)+

lemma top_tx_open: "top_tx a = Some h \<Longrightarrow> h \<in> set (map fst (snd a))"
  by (cases a rule: top_tx.cases) auto

lemma pg_run_top:
  "pg_run sql q ctx stmt args w = (r, w') \<Longrightarrow> \<exists>x. pg_txs (snd w') = put_data x (pg_txs (snd w))"
  by (auto simp: pg_run_def split: option.splits if_splits sum.splits prod.splits
      intro: exI [of _ "top_data (pg_txs (snd w))"])

lemma pg_keep_txs: "pg_keep r = (n, w') \<Longrightarrow> pg_txs (snd w') = pg_txs (snd (snd r))"
  by (auto simp: pg_keep_def split: prod.splits)

interpretation savepoints: query_driver "ref_pgx sql" pg_txs
proof (unfold_locales, goal_cases)
  case (8 w h ctx stmt args r w')
  then show ?case
    using pg_run_top [of sql "Some h" ctx stmt args w]
    by (auto simp: ref_pgx_def split: prod.splits sum.splits)
next
  case (9 w h ctx stmt args n w')
  then show ?case
    using pg_run_top [of sql "Some h" ctx stmt args w] pg_keep_txs
    by (cases "pg_run sql (Some h) ctx stmt args w") (fastforce simp: ref_pgx_def)
next
  case (10 n w v w')
  then show ?case by (auto simp: ref_pgx_def split: prod.splits option.splits list.splits)
qed (auto simp: ref_pgx_def pgx_ErrTxClosed_def split: option.splits if_splits dest!: top_tx_open)

interpretation sqls: sql_driver "ref_pgx sql" pg_txs sql
proof (unfold_locales, goal_cases)
  case (1 w h ctx stmt args n w')
  then show ?case
    by (force simp: ref_pgx_def pg_run_def split: option.splits if_splits sum.splits prod.splits)
next
  case (2 w h ctx stmt args k w1 vs w2)
  then show ?case
    by (force simp: ref_pgx_def pg_run_def pg_keep_def split: option.splits if_splits sum.splits prod.splits list.splits)
qed

section \<open>Properties of WithTx\<close>

text \<open>
  C2: \<open>WithTx\<close> is all or nothing, at the top level and inside another transaction. On a nil result
  the function completed inside a fresh transaction and exactly the data it left there is what
  the enclosing transaction (or the database) holds; when the function fails or panics, or no
  transaction could be begun, the enclosing data is unchanged and the transaction closed, unless
  the driver's rollback itself failed; only a failed commit leaves it open which of the two it is.
\<close>

theorem WithTx_atomic:
  assumes "tx_driver P txs" and "tx_confined txs fn" and "pool_provider P txs prov"
    and "ctx_tx ctx = top_tx (txs (snd w))" and "WithTx P prov ctx fn w = (res, w')"
  shows "case res of
      Returned None \<Rightarrow> (\<exists>x. completed P prov txs ctx fn w x \<and> txs (snd w') = put_data x (txs (snd w)))
    | Returned (Some e) \<Rightarrow> (\<exists>h. rolled_back P txs ctx (txs (snd w)) h w')
        \<or> (\<exists>x ce. completed P prov txs ctx fn w x
              \<and> e = wrapf ''failed to commit transaction'' ce \<and> txs (snd w') = put_data x (txs (snd w)))
    | Panicked p \<Rightarrow> (\<exists>h. rolled_back P txs ctx (txs (snd w)) h w')
    | Blocked \<Rightarrow> True"
  by (rule tx_driver.WithTx_end [OF assms])

text \<open>A counter as database, and a function that increments it and may then fail.\<close>

definition counter_sql :: "int sql_fn" where
  "counter_sql stmt args now d =
     (if stmt = ''inc'' then Inr ([], 1, d + 1)
      else if stmt = ''get'' then Inr ([[DInt d]], 0, d)
      else if stmt = ''none'' then Inr ([], 0, d)
      else Inl (errors_New ''syntax error''))"

definition counter_db :: "int pg_state" where
  "counter_db = \<lparr>pg_txs = (7, []), pg_next = 0, pg_results = (\<lambda>_. ([], None))\<rparr>"

abbreviation counter_pgx :: "int pg_state pgx" where
  "counter_pgx \<equiv> ref_pgx counter_sql"

definition inc_then :: "go_error option \<Rightarrow> go_ctx \<Rightarrow> (int \<times> int pg_state, go_error option) action" where
  "inc_then err ctx =
     act_bind (q_Exec counter_pgx (NewPoolProvider counter_pgx)
                 (QuerierFromContext (NewPoolProvider counter_pgx) ctx) ctx ''inc'' [])
       (\<lambda>_. act_ret err)"

lemma inc_then_confined: "tx_confined pg_txs (inc_then err)"
  unfolding tx_confined_def
proof (intro allI impI)
  fix ctx w r w'
  assume "ctx_tx ctx \<noteq> None" and "ctx_tx ctx = top_tx (pg_txs (snd w))" and "inc_then err ctx w = (r, w')"
  then show "\<exists>x. pg_txs (snd w') = put_data x (pg_txs (snd w))"
    using savepoints.q_Exec_top [of ctx _ w counter_sql "NewPoolProvider counter_pgx" "''inc''" "[]"]
    by (auto simp: inc_then_def act_bind_def split: prod.splits outcome.splits)
qed

lemmas counter_eval =
  WithTx_def begin_tx_def inc_then_def act_bind_def ready_wait_def TxFromContext_def Background_def
  NewPoolProvider_def adapter_Begin_def adapter_Exec_def ref_pgx_def counter_db_def ctx_Err_def
  q_Exec_def QuerierFromContext_def pg_run_def counter_sql_def with_deferred_rollback_def
  finish_tx_def tx_Commit_def tx_Rollback_def push_tx_def pop_tx_def pgx_ErrTxClosed_def Millisecond_def

theorem WithTx_atomic_witness:
  "\<exists>w1 w2 e. WithTx counter_pgx (NewPoolProvider counter_pgx) Background (inc_then None) (0, counter_db) = (Returned None, w1)
     \<and> pg_txs (snd w1) = (8, [])
     \<and> WithTx counter_pgx (NewPoolProvider counter_pgx) Background (inc_then (Some (errors_New ''boom''))) (0, counter_db)
         = (Returned (Some e), w2)
     \<and> pg_txs (snd w2) = (7, [])"
proof -
  let ?W = "\<lambda>err. WithTx counter_pgx (NewPoolProvider counter_pgx) Background (inc_then err) (0, counter_db)"
  note atomic = WithTx_atomic [OF savepoints.tx_driver_axioms inc_then_confined pool_provider_pool]
  have top: "ctx_tx Background = top_tx (pg_txs (snd (0, counter_db)))"
    by (simp add: Background_def counter_db_def)
  obtain w1 where w1: "?W None = (Returned None, w1)" "top_data (pg_txs (snd w1)) = 8"
    by (simp add: counter_eval)
  obtain w2 where w2: "?W (Some (errors_New ''boom'')) = (Returned (Some (errors_New ''boom'')), w2)"
    "top_tx (pg_txs (snd w2)) = None"
    by (simp add: counter_eval)
  have "pg_txs (snd w1) = (8, [])"
    using atomic [OF top w1(1)] w1(2) by (auto simp: counter_db_def)
  moreover have "pg_txs (snd w2) = (7, [])"
    using atomic [OF top w2(1)] w2(2)
    by (auto simp: counter_db_def rolled_back_def push_tx_def errors_New_def wrapf_def)
  ultimately show ?thesis using w1(1) w2(1) by auto
qed

text \<open>
  C29: the error of the function survives. Once a transaction is begun, a failing function makes
  \<open>WithTx\<close> return an error in which \<open>errors.Is\<close> finds everything it finds in the function's own
  error, also when the rollback fails as well.
\<close>

theorem WithTx_keeps_error:
  assumes "begin_tx P prov ctx w = (Returned (Inr h), wb)"
    and "fn (ctx\<lparr>ctx_tx := Some h\<rparr>) wb = (Returned (Some fe), w1)"
  shows "\<exists>e w'. WithTx P prov ctx fn w = (Returned (Some e), w') \<and> (\<forall>t. errors_Is fe t \<longrightarrow> errors_Is e t)"
proof -
  obtain re w2 where rb: "tx_Rollback P h ctx w1 = (re, w2)" by (rule prod.exhaust)
  show ?thesis
    by (cases re) (simp_all add: WithTx_def act_bind_def assms with_deferred_rollback_def finish_tx_def rb)
qed

theorem WithTx_keeps_error_witness:
  "\<exists>e w'. WithTx counter_pgx (NewPoolProvider counter_pgx) Background (inc_then (Some context_Canceled)) (0, counter_db)
      = (Returned (Some e), w') \<and> errors_Is e ''context.Canceled''"
proof -
  obtain h wb where b: "begin_tx counter_pgx (NewPoolProvider counter_pgx) Background (0, counter_db) = (Returned (Inr h), wb)"
    by (simp add: counter_eval)
  have "snd (inc_then (Some context_Canceled) (Background\<lparr>ctx_tx := Some h\<rparr>) wb) = w1 \<Longrightarrow>
    inc_then (Some context_Canceled) (Background\<lparr>ctx_tx := Some h\<rparr>) wb = (Returned (Some context_Canceled), w1)" for w1
    by (auto simp: inc_then_def act_bind_def q_Exec_def QuerierFromContext_def TxFromContext_def)
  from WithTx_keeps_error [where fn = "inc_then (Some context_Canceled)", OF b this [OF refl]] show ?thesis by (auto simp: context_Canceled_def)
qed

text \<open>
  \<open>WithTx\<close> nests to any depth. Called with a transaction on the context it changes at most the
  data of that transaction, so it is again a function that the outer \<open>WithTx\<close> treats atomically:
  an outer rollback also undoes what inner calls committed.
\<close>

theorem WithTx_nests:
  assumes drv: "tx_driver P txs" and fn: "tx_confined txs fn" and prov: "pool_provider P txs prov"
    and rel: "\<And>h ctx w e w'. pgx_Rollback P h ctx w = (Some e, w') \<Longrightarrow> errors_Is e ''pgx.ErrTxClosed''"
    and ctx: "ctx_tx ctx = top_tx (txs (snd w))" and res: "res \<noteq> Blocked"
    and run: "WithTx P prov ctx (\<lambda>c. act_bind (WithTx P prov c fn) (\<lambda>_. act_ret (Some stop))) w = (res, w')"
  shows "tx_confined txs (\<lambda>c. WithTx P prov c fn) \<and> res \<noteq> Returned None \<and> txs (snd w') = txs (snd w)"
proof -
  let ?g = "\<lambda>c. act_bind (WithTx P prov c fn) (\<lambda>_. act_ret (Some stop))"
  have inner: "tx_confined txs (\<lambda>c. WithTx P prov c fn)"
    using tx_driver.WithTx_confined [OF drv fn prov] rel by blast
  have g: "tx_confined txs ?g"
    unfolding tx_confined_def
  proof (intro allI impI)
    fix c v r v'
    assume c: "ctx_tx c \<noteq> None" "ctx_tx c = top_tx (txs (snd v))" and r: "?g c v = (r, v')" "r \<noteq> Blocked"
    obtain x u where x: "WithTx P prov c fn v = (x, u)" by (rule prod.exhaust)
    with r have "x \<noteq> Blocked" "v' = u" by (auto simp: act_bind_def split: outcome.splits)
    with inner c x show "\<exists>d. txs (snd v') = put_data d (txs (snd v))" unfolding tx_confined_def by blast
  qed
  have never: "\<not> completed P prov txs ctx ?g w x" for x
    by (auto simp: completed_def act_bind_Returned_iff)
  note e = tx_driver.WithTx_end [OF drv g prov ctx run]
  have exact: "rolled_back P txs ctx (txs (snd w)) h w' \<Longrightarrow> txs (snd w') = txs (snd w)" for h
    by (erule tx_driver.rolled_back_exact [OF drv]) (rule rel)
  have "res \<noteq> Returned None \<and> txs (snd w') = txs (snd w)"
    using e never exact res by (auto split: outcome.splits option.splits)
  with inner show ?thesis by blast
qed

lemma ref_rollback_reliable:
  "pgx_Rollback (ref_pgx sql) h ctx w = (Some e, w') \<Longrightarrow> errors_Is e ''pgx.ErrTxClosed''"
  by (auto simp: ref_pgx_def pgx_ErrTxClosed_def split: if_splits)

theorem WithTx_nests_witness:
  "\<exists>e w'. WithTx counter_pgx (NewPoolProvider counter_pgx) Background
        (\<lambda>c. act_bind (WithTx counter_pgx (NewPoolProvider counter_pgx) c (inc_then None)) (\<lambda>_. act_ret (Some context_Canceled)))
        (0, counter_db) = (Returned (Some e), w')
     \<and> pg_txs (snd w') = (7, [])"
proof -
  let ?W = "WithTx counter_pgx (NewPoolProvider counter_pgx) Background
        (\<lambda>c. act_bind (WithTx counter_pgx (NewPoolProvider counter_pgx) c (inc_then None)) (\<lambda>_. act_ret (Some context_Canceled)))
        (0, counter_db)"
  have top: "ctx_tx Background = top_tx (pg_txs (snd (0, counter_db)))"
    by (simp add: Background_def counter_db_def)
  obtain e w' where w': "?W = (Returned (Some e), w')" by (simp add: counter_eval)
  have rel: "errors_Is x ''pgx.ErrTxClosed''" if "pgx_Rollback counter_pgx h c v = (Some x, v')" for h c v x v'
    using that by (rule ref_rollback_reliable)
  have "pg_txs (snd w') = pg_txs (snd (0, counter_db))"
    using WithTx_nests [OF savepoints.tx_driver_axioms inc_then_confined pool_provider_pool rel top _ w'] by simp
  with w' show ?thesis by (simp add: counter_db_def)
qed

section \<open>Readiness\<close>

lemma db_provider_fields [simp]:
  "prov_Wait (db_TxProvider P dbof pick readyAt elapse) = Some (wait_ready pick readyAt elapse)"
  "prov_Exec (db_TxProvider P dbof pick readyAt elapse) ctx stmt args w = db_exec P (dbof (snd w)) ctx stmt args w"
  by (simp_all add: db_TxProvider_def)

lemma gate_run:
  assumes "ctx_tx ctx = None" and "prov = db_TxProvider P dbof pick readyAt elapse"
  shows "q_Exec P prov (QuerierFromContext prov ctx) ctx stmt args (now, s) =
    (case select2 pick now (readyAt s) (done_time ctx) of
       None \<Rightarrow> (Blocked, now, s)
     | Some (True, u) \<Rightarrow> act_call (db_exec P (dbof (elapse u s)) ctx stmt args) (u, elapse u s)
     | Some (False, u) \<Rightarrow>
         (case ctx_Err ctx u of
            None \<Rightarrow> act_call (db_exec P (dbof (elapse u s)) ctx stmt args) (u, elapse u s)
          | Some ce \<Rightarrow> (Returned (0, Some (wrapf ''pool not ready'' ce)), u, elapse u s)))"
proof -
  have q: "q_Exec P prov (QuerierFromContext prov ctx) ctx stmt args = ready_Exec prov ctx stmt args"
    by (simp add: q_Exec_def QuerierFromContext_def TxFromContext_def assms)
  show ?thesis
  proof (cases "select2 pick now (readyAt s) (done_time ctx)")
    case None
    then show ?thesis
      unfolding q
      by (simp add: ready_Exec_def act_bind_def ready_wait_def assms(2) wait_ready_def WaitReady_def
          del: select2_None)
  next
    case (Some cu)
    then show ?thesis
      unfolding q
      by (cases cu; cases "fst cu"; cases "ctx_Err ctx (snd cu)")
        (auto simp: ready_Exec_def act_bind_def ready_wait_def assms(2) wait_ready_def WaitReady_def)
  qed
qed


definition counter_component :: "nat PostgresDB" where
  "counter_component = \<lparr>db_pool = Some 0, db_name = ''postgres-db'', db_connStr = ''c'', db_logger = False,
     db_maxConns = 0, db_minConns = 0, db_retryAttempts = 0, db_retryBackoff = 0\<rparr>"

lemma counter_exec:
  "pgx_Exec counter_pgx None Background ''inc'' [] (5, counter_db) = ((1, None), 1000005, counter_db\<lparr>pg_txs := (8, [])\<rparr>)"
  by (simp add: ref_pgx_def pg_run_def counter_db_def counter_sql_def Millisecond_def)


section \<open>Connecting\<close>

text \<open>What the code relies on of pgxpool: a pool that was created is open until it is closed.\<close>

locale pool_driver =
  fixes PP :: "('p, 's) pgxpool" and opened :: "'s \<Rightarrow> 'p multiset"
  assumes new_pool: "pgxpool_New PP config ctx w = (Inr p, w') \<Longrightarrow> opened (snd w') = add_mset p (opened (snd w))"
    and new_fails: "pgxpool_New PP config ctx w = (Inl e, w') \<Longrightarrow> opened (snd w') = opened (snd w)"
    and ping_pool: "pgxpool_Ping PP p ctx w = (r, w') \<Longrightarrow> opened (snd w') = opened (snd w)"
    and close_pool: "opened (snd (pgxpool_Close PP p w)) = opened (snd w) - {#p#}"
begin

lemma pg_attempt_pools:
  assumes "pg_attempt PP config ctx t0 (s0, cl) = (e, t1, s1, cl')"
  shows "case e of Some x \<Rightarrow> opened s1 = opened s0 \<and> cl' = cl
         | None \<Rightarrow> \<exists>c. cl' = Some c \<and> opened s1 = add_mset c (opened s0)"
proof -
  obtain r w1 where n: "pgxpool_New PP config ctx (t0, s0) = (r, w1)" by (rule prod.exhaust)
  show ?thesis
  proof (cases r)
    case (Inl x)
    with assms n new_fails [of config ctx "(t0, s0)"] show ?thesis by (cases w1) (auto simp: pg_attempt_def)
  next
    case (Inr p)
    obtain e2 w2 where p: "pgxpool_Ping PP p ctx w1 = (e2, w2)" by (rule prod.exhaust)
    show ?thesis
      using assms new_pool [OF n [unfolded Inr]] ping_pool [OF p] close_pool [of p w2] n p Inr
      by (cases e2; cases w2; cases "pgxpool_Close PP p w2") (auto simp: pg_attempt_def)
  qed
qed

lemma pg_connect_pools:
  assumes "pg_connect PP rand pick ctx config db (now, s) = (err, db', t, s')"
  shows "case err of Some e \<Rightarrow> opened s' = opened s \<and> db' = db
         | None \<Rightarrow> \<exists>p. db' = db\<lparr>db_pool := Some p\<rparr> \<and> opened s' = add_mset p (opened s)"
proof -
  let ?n = "if db_retryAttempts db \<le> 0 then 1 else db_retryAttempts db"
  let ?P = "\<lambda>sc. opened (fst sc) = opened s"
  let ?Q = "\<lambda>sc. \<exists>c. snd sc = Some c \<and> opened (fst sc) = add_mset c (opened s)"
  obtain r u v cl where run: "retry_Do ctx ?n (db_retryBackoff db) (pg_attempt PP config)
      rand pick now (s, None) = (r, u, v, cl)" by (metis prod_cases4)
  have "case r of None \<Rightarrow> ?Q (v, cl) | Some e \<Rightarrow> ?P (v, cl)"
    by (rule retry_Do_rule [where P = ?P and Q = ?Q, OF _ _ _ run])
      (auto dest!: pg_attempt_pools)
  with assms run show ?thesis
    by (cases r) (auto simp: pg_connect_def Let_def)
qed

end

text \<open>A reference pool constructor: the first \<open>n\<close> pings fail.\<close>

record pools_state =
  ps_open :: "nat multiset"
  ps_made :: nat

definition ref_pgxpool :: "nat \<Rightarrow> (nat, pools_state) pgxpool" where
  "ref_pgxpool n =
     \<lparr>pgxpool_ParseConfig = (\<lambda>c. if c = ''bad'' then Inl (errors_New ''cannot parse'')
        else Inr \<lparr>pc_connStr = c, pc_MaxConns = 4, pc_MinConns = 0\<rparr>),
      pgxpool_New = (\<lambda>config ctx w. (Inr (ps_made (snd w)), fst w,
        \<lparr>ps_open = add_mset (ps_made (snd w)) (ps_open (snd w)), ps_made = Suc (ps_made (snd w))\<rparr>)),
      pgxpool_Ping = (\<lambda>p ctx w. (if p < n then Some (errors_New ''refused'') else None, fst w + Millisecond, snd w)),
      pgxpool_Close = (\<lambda>p w. (fst w, (snd w)\<lparr>ps_open := ps_open (snd w) - {#p#}\<rparr>))\<rparr>"

interpretation refpool: pool_driver "ref_pgxpool n" ps_open
  by unfold_locales (auto simp: ref_pgxpool_def)

text \<open>
  Connecting the pool leaks nothing and decides the component's pool. When all attempts fail
  every pool that was created has been closed and the component has none; on success exactly the
  pool the component uses is open, and its stop closure closes it whatever its context.
\<close>

theorem pg_connect_no_leak:
  assumes "pool_driver PP opened"
    and "pg_connect PP rand pick ctx config db (now, s) = (err, db', t, s')"
  shows "case err of
      Some e \<Rightarrow> opened s' = opened s \<and> db' = db
    | None \<Rightarrow> (\<exists>p. db_pool db' = Some p \<and> opened s' = add_mset p (opened s)
        \<and> (\<forall>ctx' t'. \<exists>w''. pg_stop PP db' ctx' (t', s') = (Returned None, w'') \<and> opened (snd w'') = opened s))"
proof (cases err)
  case (Some e)
  with pool_driver.pg_connect_pools [OF assms] show ?thesis by simp
next
  case None
  with pool_driver.pg_connect_pools [OF assms] obtain p where
    p: "db' = db\<lparr>db_pool := Some p\<rparr>" "opened s' = add_mset p (opened s)" by auto
  have "opened (snd (pgxpool_Close PP p (t', s'))) = opened s" for t'
    using pool_driver.close_pool [OF assms(1), of p "(t', s')"] p(2) by simp
  with None p show ?thesis by (auto simp: pg_stop_def)
qed

theorem pg_connect_no_leak_witness:
  "\<exists>db' t s'. pg_connect (ref_pgxpool 2) (\<lambda>_ _. None) (\<lambda>_. True) Background
       \<lparr>pc_connStr = ''c'', pc_MaxConns = 4, pc_MinConns = 0\<rparr>
       (counter_component\<lparr>db_pool := None, db_retryAttempts := 3, db_retryBackoff := 10\<rparr>)
       (0, \<lparr>ps_open = {#}, ps_made = 0\<rparr>) = (None, db', t, s')
     \<and> db_pool db' = Some 2 \<and> ps_open s' = {#2#}"
proof -
  obtain db' t s' where run: "pg_connect (ref_pgxpool 2) (\<lambda>_ _. None) (\<lambda>_. True) Background
       \<lparr>pc_connStr = ''c'', pc_MaxConns = 4, pc_MinConns = 0\<rparr>
       (counter_component\<lparr>db_pool := None, db_retryAttempts := 3, db_retryBackoff := 10\<rparr>)
       (0, \<lparr>ps_open = {#}, ps_made = 0\<rparr>) = (None, db', t, s')" and p: "db_pool db' = Some 2"
    by (simp add: pg_connect_def counter_component_def retry_Do_def retry_loop.simps pg_attempt_def
        ref_pgxpool_def time_units select2_def done_time_def Background_def ctx_Err_def
        retry_delay_def retry_backoff_def retry_jitter_def)
  from pg_connect_no_leak [OF refpool.pool_driver_axioms run] run p show ?thesis by simp
qed

end
