(* ===== verification/Runner.thy ===== *)
theory Runner
  imports Lifecycle Health
begin

text \<open>
  core/runner.go, core/component.go and core/hooks.go: the application runner. Construction and
  options are functions on the runner record; \<open>shutdownOrchestrator\<close> is a recursion over the
  service index with the remaining budget; \<open>startSupervisor\<close> runs one goroutine per service and
  one readiness watcher per deadline-supervised service, so it is a step relation over their
  interleavings. \<open>'w\<close> is the state the services act on, \<open>'h\<close> the state of the observability hooks.
\<close>

section \<open>Components, hooks and the runner\<close>

text \<open>
  What the runner uses of a service: its name, \<open>Stop\<close>, whether it offers a readiness channel
  (\<open>Readyable\<close> with a non-nil channel) and the checks it provides (\<open>HealthCheckProvider\<close>).
\<close>

record 'w component =
  svc_Name :: string
  svc_Stop :: "go_ctx \<Rightarrow> int \<Rightarrow> 'w \<Rightarrow> go_error option \<times> int \<times> 'w"
  svc_Readyable :: bool
  svc_Checks :: "check list option"

record 'h hooks =
  OnComponentStart :: "string \<Rightarrow> int \<Rightarrow> go_error option \<Rightarrow> 'h \<Rightarrow> 'h"
  OnComponentStop :: "string \<Rightarrow> int \<Rightarrow> go_error option \<Rightarrow> 'h \<Rightarrow> 'h"
  OnHealthEvaluated :: "string \<Rightarrow> int \<Rightarrow> go_error option \<Rightarrow> 'h \<Rightarrow> 'h"

definition NoOpHooks :: "'h hooks" where
  "NoOpHooks = \<lparr>OnComponentStart = (\<lambda>n d e h. h), OnComponentStop = (\<lambda>n d e h. h),
                OnHealthEvaluated = (\<lambda>k d e h. h)\<rparr>"

record ('w, 'h) runner =
  runner_logger :: bool
  services :: "'w component list"
  healthAggregator :: "'h aggregator option"
  startDeadline :: int
  shutdownTimeout :: int
  run_hooks :: "'h hooks"

type_synonym ('w, 'h) run_option = "('w, 'h) runner \<Rightarrow> ('w, 'h) runner"

definition NewApplicationRunner :: "('w, 'h) run_option list \<Rightarrow> ('w, 'h) runner" where
  "NewApplicationRunner options =
     fold (\<lambda>option r. option r) options
       \<lparr>runner_logger = False, services = [], healthAggregator = Some (NewAggregator 0),
        startDeadline = 0, shutdownTimeout = 15 * Second, run_hooks = NoOpHooks\<rparr>"

definition WithLogger :: "bool \<Rightarrow> ('w, 'h) run_option" where
  "WithLogger l r = r\<lparr>runner_logger := l\<rparr>"

definition WithShutdownTimeout :: "int \<Rightarrow> ('w, 'h) run_option" where
  "WithShutdownTimeout d r = (if d > 0 then r\<lparr>shutdownTimeout := d\<rparr> else r)"

definition WithStartDeadline :: "int \<Rightarrow> ('w, 'h) run_option" where
  "WithStartDeadline d r = (if d > 0 then r\<lparr>startDeadline := d\<rparr> else r)"

definition HealthAggregator :: "('w, 'h) runner \<Rightarrow> 'h aggregator option" where
  "HealthAggregator r = healthAggregator r"

definition WithServices :: "'w component list \<Rightarrow> ('w, 'h) run_option" where
  "WithServices svcs r = r\<lparr>services := services r @ svcs\<rparr>"

definition WithHooks :: "'h hooks option \<Rightarrow> ('w, 'h) run_option" where
  "WithHooks h r = (case h of Some hk \<Rightarrow> r\<lparr>run_hooks := hk\<rparr> | None \<Rightarrow> r)"

definition WithHealthCacheTTL :: "int \<Rightarrow> ('w, 'h) run_option" where
  "WithHealthCacheTTL d r = r\<lparr>healthAggregator := Some (NewAggregator d)\<rparr>"

definition WithHealthAggregator :: "'h aggregator option \<Rightarrow> ('w, 'h) run_option" where
  "WithHealthAggregator agg r = r\<lparr>healthAggregator := agg\<rparr>"

section \<open>Health wiring\<close>

definition healthWiring :: "('w, 'h) runner \<Rightarrow> ('w, 'h) runner outcome" where
  "healthWiring r =
     (case healthAggregator r of
        None \<Rightarrow> Panicked ''nil pointer dereference''
      | Some agg \<Rightarrow>
          Returned (r\<lparr>healthAggregator := Some
            (fold (\<lambda>s a. case svc_Checks s of Some cs \<Rightarrow> Register cs a | None \<Rightarrow> a) (services r)
               (SetHook (\<lambda>kind d err. OnHealthEvaluated (run_hooks r) (Kind_String kind) d err) agg))\<rparr>))"

section \<open>Shutdown\<close>

text \<open>
  The loop over i = len-1, ..., 0. The result is the list of wrapped errors, what was logged, the
  clock, the services' state and the hooks' state.
\<close>

fun shutdown_loop ::
  "('w, 'h) runner \<Rightarrow> go_ctx \<Rightarrow> nat \<Rightarrow> int \<Rightarrow> int \<Rightarrow> 'w \<Rightarrow> 'h
     \<Rightarrow> go_error list \<times> go_error list \<times> int \<times> 'w \<times> 'h" where
  "shutdown_loop r ctx 0 remaining now w h = ([], [], now, w, h)"
| "shutdown_loop r ctx (Suc i) remaining now w h =
     (let svc = services r ! i;
          budget = i64 (remaining sdiv i64 (int (Suc i)));
          shCtx = WithTimeout ctx now budget
      in case svc_Stop svc shCtx now w of (stopErr, t, w1) \<Rightarrow>
         let h1 = OnComponentStop (run_hooks r) (svc_Name svc) (t - now) stopErr h;
             errs = (case stopErr of
                       None \<Rightarrow> []
                     | Some e \<Rightarrow> [wrapf (svc_Name svc @ '': shutdown error'') e]);
             left = i64 (remaining - (t - now));
             remaining' = (if left < 0 then 0 else left)
         in case shutdown_loop r ctx i remaining' t w1 h1 of
              (errs', logs', t', w', h') \<Rightarrow>
                (errs @ errs', (if runner_logger r then errs else []) @ logs', t', w', h'))"

definition shutdownOrchestrator ::
  "('w, 'h) runner \<Rightarrow> go_ctx \<Rightarrow> int \<Rightarrow> 'w \<Rightarrow> 'h
     \<Rightarrow> go_error list \<times> go_error list \<times> int \<times> 'w \<times> 'h" where
  "shutdownOrchestrator r ctx now w h =
     shutdown_loop r ctx (length (services r)) (shutdownTimeout r) now w h"

text \<open>The end of \<open>Run\<close>: it joins the supervisor's error and the shutdown errors.\<close>

definition Run_result :: "go_error option \<Rightarrow> go_error list \<Rightarrow> go_error option" where
  "Run_result startErr shutdownErrs =
     errors_Join ((case startErr of Some e \<Rightarrow> [Some e] | None \<Rightarrow> []) @ map Some shutdownErrs)"

section \<open>Start supervision\<close>

text \<open>\<open>time.Duration.String\<close>.\<close>

definition duration_String :: "int \<Rightarrow> string" where
  "duration_String d =
     (let u = nat \<bar>d\<bar>;
          body =
            (if u = 0 then ''0s''
             else if u < 1000 then show_nat u @ ''ns''
             else if u < 1000000 then show_nat (u div 1000) @ fmtFrac (u mod 1000) 3 @ [CHR 0xC2, CHR 0xB5] @ ''s''
             else if u < 1000000000 then show_nat (u div 1000000) @ fmtFrac (u mod 1000000) 6 @ ''ms''
             else let secs = u div 1000000000; mins = secs div 60; hours = mins div 60 in
               (if hours > 0 then show_nat hours @ ''h'' else [])
               @ (if mins > 0 then show_nat (mins mod 60) @ ''m'' else [])
               @ show_nat (secs mod 60) @ fmtFrac (u mod 1000000000) 9 @ ''s'')
      in (if d < 0 then CHR ''-'' # body else body))"

datatype watch_pc = NoWatch | Watching | WatchDone

record supervisor =
  sup_parent :: "go_error option"
  grp_ctx :: "go_error option"
  grp_err :: "go_error option"
  start_done :: "nat \<Rightarrow> bool"
  watchers :: "nat \<Rightarrow> watch_pc"
  svc_cancelled :: "nat \<Rightarrow> bool"
  svc_ready :: "nat \<Rightarrow> bool"
  start_hooks :: "(nat \<times> go_error option) list"

definition sup_start :: "('w, 'h) runner \<Rightarrow> supervisor" where
  "sup_start r =
     \<lparr>sup_parent = None, grp_ctx = None, grp_err = None, start_done = (\<lambda>_. False),
      watchers = (\<lambda>i. if i < length (services r) \<and> startDeadline r > 0 \<and> svc_Readyable (services r ! i)
                      then Watching else NoWatch),
      svc_cancelled = (\<lambda>_. False), svc_ready = (\<lambda>_. False), start_hooks = []\<rparr>"

text \<open>What the goroutine that ran \<open>svc.Start\<close> returns to the error group.\<close>

definition start_result :: "string \<Rightarrow> go_error option \<Rightarrow> go_error option" where
  "start_result name err =
     (case err of
        Some e \<Rightarrow> if errors_Is e ''context.Canceled'' then None else Some (wrapf name e)
      | None \<Rightarrow> None)"

definition deadline_err :: "('w, 'h) runner \<Rightarrow> nat \<Rightarrow> go_error" where
  "deadline_err r i =
     errors_New (svc_Name (services r ! i) @ '': start deadline exceeded (''
                 @ duration_String (startDeadline r) @ '')'')"

text \<open>A goroutine of the group returns: the first error is kept and cancels the group's context.\<close>

definition eg_return :: "go_error option \<Rightarrow> supervisor \<Rightarrow> supervisor" where
  "eg_return ret s =
     (case ret of
        None \<Rightarrow> s
      | Some e \<Rightarrow>
          if grp_err s = None
          then s\<lparr>grp_err := Some e,
                 grp_ctx := (if grp_ctx s = None then Some context_Canceled else grp_ctx s)\<rparr>
          else s)"

definition parent_cancel :: "go_error \<Rightarrow> supervisor \<Rightarrow> supervisor" where
  "parent_cancel e s =
     s\<lparr>sup_parent := Some e, grp_ctx := (if grp_ctx s = None then Some e else grp_ctx s)\<rparr>"

definition start_return :: "('w, 'h) runner \<Rightarrow> nat \<Rightarrow> go_error option \<Rightarrow> supervisor \<Rightarrow> supervisor" where
  "start_return r i err s =
     eg_return (start_result (svc_Name (services r ! i)) err)
       (s\<lparr>start_done := (start_done s)(i := True), svc_cancelled := (svc_cancelled s)(i := True),
          start_hooks := start_hooks s @ [(i, err)]\<rparr>)"

definition watch_return :: "nat \<Rightarrow> go_error option \<Rightarrow> supervisor \<Rightarrow> supervisor" where
  "watch_return i ret s = eg_return ret (s\<lparr>watchers := (watchers s)(i := WatchDone)\<rparr>)"

definition watch_expire :: "('w, 'h) runner \<Rightarrow> nat \<Rightarrow> supervisor \<Rightarrow> supervisor" where
  "watch_expire r i s =
     watch_return i (Some (deadline_err r i)) (s\<lparr>svc_cancelled := (svc_cancelled s)(i := True)\<rparr>)"

inductive sup_step :: "('w, 'h) runner \<Rightarrow> supervisor \<Rightarrow> supervisor \<Rightarrow> bool" for r :: "('w, 'h) runner" where
  parent_done: "sup_parent s = None \<Longrightarrow> sup_step r s (parent_cancel e s)"
| becomes_ready: "i < length (services r) \<Longrightarrow> sup_step r s (s\<lparr>svc_ready := (svc_ready s)(i := True)\<rparr>)"
| start_returns: "i < length (services r) \<Longrightarrow> \<not> start_done s i \<Longrightarrow> sup_step r s (start_return r i err s)"
| watch_sees_ready: "watchers s i = Watching \<Longrightarrow> svc_ready s i \<Longrightarrow> sup_step r s (watch_return i None s)"
| watch_timer: "watchers s i = Watching \<Longrightarrow> sup_step r s (watch_expire r i s)"
| watch_sees_ctx: "watchers s i = Watching \<Longrightarrow> grp_ctx s = Some e \<Longrightarrow>
     sup_step r s (watch_return i (Some e) s)"

abbreviation sup_init :: "('w, 'h) runner \<Rightarrow> supervisor \<Rightarrow> bool" where
  "sup_init r s \<equiv> s = sup_start r"

text \<open>\<open>eg.Wait()\<close> returns once every goroutine of the group has.\<close>

definition sup_finished :: "('w, 'h) runner \<Rightarrow> supervisor \<Rightarrow> bool" where
  "sup_finished r s \<longleftrightarrow>
     (\<forall>i < length (services r). start_done s i) \<and> (\<forall>i. watchers s i \<noteq> Watching)"

text \<open>
  \<open>Run\<close>: health wiring, then the supervisor until it has finished, then the orchestrator. The
  context is the one \<open>NotifyContext\<close> derives: it is done at the moment \<open>now\<close> of the shutdown iff
  the supervisor saw it done. \<open>ds\<close> are the durations of the starts.
\<close>

inductive Run_returns ::
  "('w, 'h) runner \<Rightarrow> go_ctx \<Rightarrow> 'w \<Rightarrow> 'h \<Rightarrow> supervisor \<Rightarrow> go_error option \<Rightarrow> int \<Rightarrow> 'w \<Rightarrow> 'h \<Rightarrow> bool"
  for r :: "('w, 'h) runner" and ctx :: go_ctx and w :: 'w and h :: 'h where
  Run: "healthWiring r = Returned r' \<Longrightarrow> reach (sup_init r') (sup_step r') s \<Longrightarrow> sup_finished r' s \<Longrightarrow>
     ctx_Err ctx now = sup_parent s \<Longrightarrow> length ds = length (start_hooks s) \<Longrightarrow>
     h1 = fold (\<lambda>((i, err), d). OnComponentStart (run_hooks r') (svc_Name (services r' ! i)) d err)
            (zip (start_hooks s) ds) h \<Longrightarrow>
     shutdownOrchestrator r' ctx now w h1 = (errs, logs, t, w', h') \<Longrightarrow>
     Run_returns r ctx w h s (Run_result (grp_err s) errs) t w' h'"

lemmas sup_defs =
  eg_return_def parent_cancel_def start_return_def watch_return_def watch_expire_def

section \<open>Observing the calls of Stop\<close>

text \<open>
  A traced service behaves like the service and appends each call of its \<open>Stop\<close> (name, context,
  moment, result) to a list kept beside the services' state.
\<close>

record stop_call =
  sc_name :: string
  sc_ctx :: go_ctx
  sc_at :: int
  sc_err :: "go_error option"

definition traced :: "'w component \<Rightarrow> ('w \<times> stop_call list) component" where
  "traced c =
     \<lparr>svc_Name = svc_Name c,
      svc_Stop = (\<lambda>ctx now wl. case svc_Stop c ctx now (fst wl) of (e, t, w') \<Rightarrow>
        (e, t, w', snd wl @ [\<lparr>sc_name = svc_Name c, sc_ctx = ctx, sc_at = now, sc_err = e\<rparr>])),
      svc_Readyable = svc_Readyable c, svc_Checks = svc_Checks c\<rparr>"

definition traced_runner :: "('w, 'h) runner \<Rightarrow> ('w \<times> stop_call list, 'h) runner" where
  "traced_runner r =
     \<lparr>runner_logger = runner_logger r, services = map traced (services r),
      healthAggregator = healthAggregator r, startDeadline = startDeadline r,
      shutdownTimeout = shutdownTimeout r, run_hooks = run_hooks r\<rparr>"

definition stop_errors :: "stop_call list \<Rightarrow> go_error list" where
  "stop_errors = List.map_filter (\<lambda>c. map_option (wrapf (sc_name c @ '': shutdown error'')) (sc_err c))"

lemma stop_errors_simps [simp]:
  "stop_errors [] = []"
  "stop_errors (c # cs) = (case sc_err c of None \<Rightarrow> [] | Some e \<Rightarrow> [wrapf (sc_name c @ '': shutdown error'') e])
     @ stop_errors cs"
  by (simp_all add: stop_errors_def List.map_filter_def split: option.split)

lemma traced_Stop [simp]:
  "svc_Stop (traced c) ctx now (w, l) =
     (case svc_Stop c ctx now w of (e, t, w') \<Rightarrow>
        (e, t, w', l @ [\<lparr>sc_name = svc_Name c, sc_ctx = ctx, sc_at = now, sc_err = e\<rparr>]))"
  by (simp add: traced_def split: prod.splits)

lemma traced_runner_frame [simp]:
  "services (traced_runner r) = map traced (services r)" "runner_logger (traced_runner r) = runner_logger r"
  "run_hooks (traced_runner r) = run_hooks r" "shutdownTimeout (traced_runner r) = shutdownTimeout r"
  "svc_Name (traced c) = svc_Name c"
  by (simp_all add: traced_runner_def traced_def)

lemma shutdown_loop_trace:
  assumes "n \<le> length (services r)"
    and "shutdown_loop (traced_runner r) ctx n rem now (w, l) h = (errs, logs, t, (w', l'), h')"
  shows "\<exists>calls. l' = l @ calls \<and> map sc_name calls = rev (map svc_Name (take n (services r)))
    \<and> errs = stop_errors calls \<and> logs = (if runner_logger r then errs else [])
    \<and> shutdown_loop r ctx n rem now w h = (errs, logs, t, w', h')"
  using assms
proof (induction n arbitrary: rem now w l h errs logs)
  case 0
  then show ?case by simp
next
  case (Suc i)
  let ?svc = "services r ! i"
  let ?budget = "i64 (rem sdiv i64 (int (Suc i)))"
  obtain e t1 w1 where st: "svc_Stop ?svc (WithTimeout ctx now ?budget) now w = (e, t1, w1)"
    by (cases "svc_Stop ?svc (WithTimeout ctx now ?budget) now w") auto
  let ?call = "\<lparr>sc_name = svc_Name ?svc, sc_ctx = WithTimeout ctx now ?budget, sc_at = now, sc_err = e\<rparr>"
  let ?left = "i64 (rem - (t1 - now))"
  let ?rem = "if ?left < 0 then 0 else ?left"
  let ?h = "OnComponentStop (run_hooks r) (svc_Name ?svc) (t1 - now) e h"
  obtain errs2 logs2 where
    rec: "shutdown_loop (traced_runner r) ctx i ?rem t1 (w1, l @ [?call]) ?h = (errs2, logs2, t, (w', l'), h')"
    and eq: "errs = stop_errors [?call] @ errs2" "logs = (if runner_logger r then stop_errors [?call] else []) @ logs2"
    using Suc.prems st by (cases e) (auto simp: Let_def split: prod.splits)
  from Suc.IH [OF _ rec] Suc.prems(1) obtain calls where
    "l' = l @ ?call # calls" "map sc_name calls = rev (map svc_Name (take i (services r)))"
    "errs2 = stop_errors calls" "logs2 = (if runner_logger r then errs2 else [])"
    "shutdown_loop r ctx i ?rem t1 w1 ?h = (errs2, logs2, t, w', h')"
    by auto
  then show ?case
    using st eq Suc.prems(1)
    by (intro exI [of _ "?call # calls"]) (cases e; auto simp: Let_def take_Suc_conv_app_nth)
qed

section \<open>The shutdown budget\<close>

text \<open>
  The contract under which the budget holds: \<open>Stop\<close> returns by the moment its context is done.
  Components whose stop closure waits on its context provide it.
\<close>

locale bounded_stop =
  fixes stop :: "go_ctx \<Rightarrow> int \<Rightarrow> 'w \<Rightarrow> go_error option \<times> int \<times> 'w"
  assumes forward: "stop ctx now w = (e, t, w') \<Longrightarrow> now \<le> t"
    and by_deadline: "stop ctx now w = (e, t, w') \<Longrightarrow> done_time ctx = Some d \<Longrightarrow> t \<le> max now d"
begin

lemma within_budget:
  assumes "stop (WithTimeout ctx now b) now w = (e, t, w')" and "0 \<le> b"
  shows "now \<le> t" "t \<le> now + b"
proof -
  obtain d x where "ctx_done (WithTimeout ctx now b) = Some (d, x)" "d \<le> now + b"
    using WithTimeout_deadline by blast
  then show "now \<le> t" "t \<le> now + b"
    using forward [OF assms(1)] by_deadline [OF assms(1), of d] assms(2) by (auto simp: done_time_def)
qed

end

lemma budget_div:
  assumes "0 \<le> remaining" and "remaining < 9223372036854775808" and "int (Suc i) < 9223372036854775808"
  shows "i64 (remaining sdiv i64 (int (Suc i))) = remaining div int (Suc i)"
    and "0 \<le> remaining div int (Suc i)" and "remaining div int (Suc i) \<le> remaining"
proof -
  have pos: "0 < int (Suc i)" by simp
  show b: "0 \<le> remaining div int (Suc i)" using assms(1) pos by (simp add: pos_imp_zdiv_nonneg_iff)
  have "remaining div int (Suc i) \<le> remaining div 1" using assms(1) by (intro zdiv_mono2) auto
  then show c: "remaining div int (Suc i) \<le> remaining" by simp
  have "i64 (int (Suc i)) = int (Suc i)" using assms(3) by (intro i64_id) auto
  moreover have "remaining sdiv int (Suc i) = remaining div int (Suc i)"
    using assms(1) pos by (auto simp: signed_divide_int_def sgn_if)
  ultimately show "i64 (remaining sdiv i64 (int (Suc i))) = remaining div int (Suc i)"
    using b c assms(2) by simp
qed

lemma budget_share:
  assumes "0 \<le> remaining" and "elapsed \<le> remaining div (1 + int i)" and "0 < i"
  shows "remaining div (1 + int i) \<le> (remaining - elapsed) div int i"
proof -
  let ?q = "remaining div (1 + int i)"
  have "0 \<le> remaining mod (1 + int i)" by simp
  then have "?q * (1 + int i) \<le> remaining"
    using minus_mod_eq_div_mult [of remaining "1 + int i"] by linarith
  then have "?q * int i \<le> remaining - elapsed" using assms(2) by (simp add: algebra_simps)
  then have "?q * int i div int i \<le> (remaining - elapsed) div int i"
    using assms(3) by (intro zdiv_mono1) auto
  then show ?thesis using assms(3) by simp
qed

definition granted :: "go_ctx \<Rightarrow> int \<Rightarrow> int \<Rightarrow> stop_call \<Rightarrow> bool" where
  "granted ctx since least c \<longleftrightarrow>
     since \<le> sc_at c \<and> (\<exists>b. 0 \<le> b \<and> least \<le> b \<and> sc_ctx c = WithTimeout ctx (sc_at c) b)"

lemma granted_mono:
  "granted ctx t b c \<Longrightarrow> t' \<le> t \<Longrightarrow> b' \<le> b \<Longrightarrow> granted ctx t' b' c"
  by (auto simp: granted_def intro: order_trans)

lemma shutdown_loop_calls:
  assumes "n \<le> length (services r)" and "int (length (services r)) < 9223372036854775808"
    and "0 \<le> rem" and "rem < 9223372036854775808"
    and "\<And>s. s \<in> set (services r) \<Longrightarrow> bounded_stop (svc_Stop s)"
    and "shutdown_loop (traced_runner r) ctx n rem now (w, l) h = (errs, logs, t, (w', l'), h')"
  shows "now \<le> t \<and> t \<le> now + rem \<and> (\<exists>calls. l' = l @ calls \<and> (n = 0 \<longrightarrow> calls = [])
    \<and> (\<forall>c\<in>set calls. granted ctx now (rem div int n) c))"
  using assms(1,3,4,6)
proof (induction n arbitrary: rem now w l h errs logs)
  case 0
  then show ?case by simp
next
  case (Suc i)
  let ?svc = "services r ! i" and ?q = "rem div int (Suc i)"
  have i: "int (Suc i) < 9223372036854775808" using Suc.prems(1) assms(2) by linarith
  note q = budget_div [OF Suc.prems(2,3) i]
  obtain e t1 w1 where st: "svc_Stop ?svc (WithTimeout ctx now ?q) now w = (e, t1, w1)"
    by (cases "svc_Stop ?svc (WithTimeout ctx now ?q) now w") auto
  have t1: "now \<le> t1" "t1 \<le> now + ?q"
    using bounded_stop.within_budget [OF assms(5) st q(2)] Suc.prems(1) by auto
  let ?call = "\<lparr>sc_name = svc_Name ?svc, sc_ctx = WithTimeout ctx now ?q, sc_at = now, sc_err = e\<rparr>"
  let ?rem = "rem - (t1 - now)"
  have rem: "0 \<le> ?rem" "?rem < 9223372036854775808" using t1 q(3) Suc.prems(3) by linarith+
  let ?h = "OnComponentStop (run_hooks r) (svc_Name ?svc) (t1 - now) e h"
  have n: "i < length (services r)" using Suc.prems(1) by simp
  have left: "i64 ?rem = ?rem" using rem by simp
  obtain errs2 logs2 where
    rec: "shutdown_loop (traced_runner r) ctx i ?rem t1 (w1, l @ [?call]) ?h = (errs2, logs2, t, (w', l'), h')"
    using Suc.prems(4) st rem(1) n
    unfolding shutdown_loop.simps q(1) Let_def traced_runner_frame nth_map [OF n] traced_Stop
    by (auto simp: left split: prod.splits)
  obtain calls where c: "l' = l @ ?call # calls" "i = 0 \<longrightarrow> calls = []" "t1 \<le> t" "t \<le> t1 + ?rem"
    "\<forall>c\<in>set calls. granted ctx t1 (?rem div int i) c"
    using Suc.IH [OF _ rem rec] n by auto
  have share: "?q \<le> ?rem div int i" if "0 < i"
    using budget_share [of rem "t1 - now" i] that t1 Suc.prems(2) by simp
  have "granted ctx now ?q ?call" using q(2) by (auto simp: granted_def)
  moreover have "granted ctx now ?q c" if "c \<in> set calls" for c
    using that c(2,5) share t1(1) by (cases "i = 0") (auto intro: granted_mono)
  ultimately show ?case
    using c t1 by (intro conjI exI [of _ "?call # calls"]) auto
qed

text \<open>Without the contract: the clock only moves forward, and every context still derives from \<open>ctx\<close>.\<close>

lemma shutdown_loop_contexts:
  assumes "n \<le> length (services r)" and "int (length (services r)) < 9223372036854775808"
    and "0 \<le> rem" and "rem < 9223372036854775808"
    and fwd: "\<And>s c t0 v e t1 v'. s \<in> set (services r) \<Longrightarrow> svc_Stop s c t0 v = (e, t1, v') \<Longrightarrow> t0 \<le> t1"
    and "shutdown_loop (traced_runner r) ctx n rem now (w, l) h = (errs, logs, t, (w', l'), h')"
  shows "\<exists>calls. l' = l @ calls \<and> (\<forall>c\<in>set calls. granted ctx now 0 c)"
  using assms(1,3,4,6)
proof (induction n arbitrary: rem now w l h errs logs)
  case 0
  then show ?case by simp
next
  case (Suc i)
  let ?svc = "services r ! i" and ?q = "rem div int (Suc i)"
  have i: "int (Suc i) < 9223372036854775808" using Suc.prems(1) assms(2) by linarith
  note q = budget_div [OF Suc.prems(2,3) i]
  have n: "i < length (services r)" using Suc.prems(1) by simp
  obtain e t1 w1 where st: "svc_Stop ?svc (WithTimeout ctx now ?q) now w = (e, t1, w1)"
    by (cases "svc_Stop ?svc (WithTimeout ctx now ?q) now w") auto
  have t1: "now \<le> t1" using fwd [OF _ st] n by simp
  let ?call = "\<lparr>sc_name = svc_Name ?svc, sc_ctx = WithTimeout ctx now ?q, sc_at = now, sc_err = e\<rparr>"
  let ?left = "i64 (rem - (t1 - now))"
  let ?rem = "if ?left < 0 then 0 else ?left"
  have rem: "0 \<le> ?rem" "?rem < 9223372036854775808" using i64_upper by auto
  let ?h = "OnComponentStop (run_hooks r) (svc_Name ?svc) (t1 - now) e h"
  obtain errs2 logs2 where
    rec: "shutdown_loop (traced_runner r) ctx i ?rem t1 (w1, l @ [?call]) ?h = (errs2, logs2, t, (w', l'), h')"
    using Suc.prems(4) st
    unfolding shutdown_loop.simps q(1) Let_def traced_runner_frame nth_map [OF n] traced_Stop
    by (auto split: prod.splits)
  obtain calls where c: "l' = l @ ?call # calls" "\<forall>c\<in>set calls. granted ctx t1 0 c"
    using Suc.IH [OF _ rem rec] n by auto
  have "granted ctx now 0 ?call" using q(2) by (auto simp: granted_def)
  with c t1 show ?case by (intro exI [of _ "?call # calls"]) (auto intro: granted_mono)
qed

section \<open>The supervisor's invariant\<close>

text \<open>Where the error of the group can come from.\<close>

definition err_origin :: "('w, 'h) runner \<Rightarrow> supervisor \<Rightarrow> go_error \<Rightarrow> bool" where
  "err_origin r s e \<longleftrightarrow>
     (\<exists>i x. (i, Some x) \<in> set (start_hooks s) \<and> \<not> errors_Is x ''context.Canceled''
            \<and> e = wrapf (svc_Name (services r ! i)) x)
   \<or> (startDeadline r > 0 \<and> (\<exists>i < length (services r). e = deadline_err r i))
   \<or> (startDeadline r > 0 \<and> sup_parent s = Some e)"

definition sup_inv :: "('w, 'h) runner \<Rightarrow> supervisor \<Rightarrow> bool" where
  "sup_inv r s \<longleftrightarrow>
     (\<forall>i. start_done s i \<longleftrightarrow> i \<in> set (map fst (start_hooks s)))
   \<and> distinct (map fst (start_hooks s))
   \<and> (\<forall>i\<in>set (map fst (start_hooks s)). i < length (services r))
   \<and> (\<forall>i. watchers s i \<noteq> NoWatch \<longrightarrow> i < length (services r) \<and> startDeadline r > 0)
   \<and> (grp_err s \<noteq> None \<longrightarrow> grp_ctx s \<noteq> None)
   \<and> (\<forall>e. grp_ctx s = Some e \<longrightarrow> grp_err s = None \<longrightarrow> sup_parent s = Some e)
   \<and> (grp_err s = None \<longrightarrow>
        (\<forall>p\<in>set (start_hooks s). start_result (svc_Name (services r ! fst p)) (snd p) = None))
   \<and> (\<forall>e. grp_err s = Some e \<longrightarrow> err_origin r s e)"

lemma sup_inv_start: "sup_inv r (sup_start r)"
  by (auto simp: sup_inv_def sup_start_def split: if_splits)

lemma start_result_Some:
  "start_result name err = Some e \<Longrightarrow> \<exists>x. err = Some x \<and> \<not> errors_Is x ''context.Canceled'' \<and> e = wrapf name x"
  by (auto simp: start_result_def split: option.splits if_splits)

lemma err_origin_mono:
  "err_origin r s e \<Longrightarrow> set (start_hooks s) \<subseteq> set (start_hooks t) \<Longrightarrow>
   (\<And>x. sup_parent s = Some x \<Longrightarrow> sup_parent t = Some x) \<Longrightarrow> err_origin r t e"
  unfolding err_origin_def by blast

lemma err_origin_intros:
  "(i, Some x) \<in> set (start_hooks s) \<Longrightarrow> \<not> errors_Is x ''context.Canceled'' \<Longrightarrow>
     err_origin r s (wrapf (svc_Name (services r ! i)) x)"
  "startDeadline r > 0 \<Longrightarrow> i < length (services r) \<Longrightarrow> err_origin r s (deadline_err r i)"
  "startDeadline r > 0 \<Longrightarrow> sup_parent s = Some e \<Longrightarrow> err_origin r s e"
  unfolding err_origin_def by blast+

lemma sup_inv_origin: "sup_inv r s \<Longrightarrow> grp_err s = Some e \<Longrightarrow> err_origin r s e"
  by (simp add: sup_inv_def)

lemma err_origin_frame [simp]:
  "err_origin r (s\<lparr>svc_ready := a\<rparr>) = err_origin r s" "err_origin r (s\<lparr>watchers := b\<rparr>) = err_origin r s"
  "err_origin r (s\<lparr>svc_cancelled := c\<rparr>) = err_origin r s" "err_origin r (s\<lparr>grp_err := d\<rparr>) = err_origin r s"
  "err_origin r (s\<lparr>grp_ctx := f\<rparr>) = err_origin r s" "err_origin r (s\<lparr>start_done := g\<rparr>) = err_origin r s"
  by (simp_all add: err_origin_def fun_eq_iff)

lemma sup_inv_watching:
  assumes "sup_inv r s" and "watchers s i = Watching"
  shows "i < length (services r) \<and> startDeadline r > 0"
proof -
  have "watchers s i \<noteq> NoWatch" using assms(2) by simp
  with assms(1) show ?thesis unfolding sup_inv_def by blast
qed

lemma sup_inv_step: "sup_inv r s \<Longrightarrow> sup_step r s t \<Longrightarrow> sup_inv r t"
proof (rotate_tac, induction rule: sup_step.induct)
  case (parent_done s e)
  note keep = err_origin_mono [OF sup_inv_origin [OF parent_done(2)], of _ "parent_cancel e s"]
  from parent_done keep show ?case by (auto simp: sup_inv_def sup_defs)
next
  case (becomes_ready i s)
  then show ?case by (auto simp: sup_inv_def)
next
  case (start_returns i s err)
  note keep = err_origin_mono [OF sup_inv_origin [OF start_returns(3)], of _ "start_return r i err s"]
  show ?case
  proof (cases "start_result (svc_Name (services r ! i)) err")
    case None
    with start_returns keep show ?thesis by (auto simp: sup_inv_def sup_defs)
  next
    case (Some e)
    with start_result_Some [OF Some] start_returns keep show ?thesis
      by (auto simp: sup_inv_def sup_defs intro!: err_origin_intros(1))
  qed
next
  case (watch_sees_ready s i)
  then have "i < length (services r) \<and> startDeadline r > 0" by (metis sup_inv_watching)
  with watch_sees_ready show ?case by (auto simp: sup_inv_def sup_defs)
next
  case (watch_timer s i)
  then have "i < length (services r) \<and> startDeadline r > 0" by (metis sup_inv_watching)
  with watch_timer show ?case
    by (auto simp: sup_inv_def sup_defs intro: err_origin_intros(2))
next
  case (watch_sees_ctx s i e)
  then have "i < length (services r) \<and> startDeadline r > 0" by (metis sup_inv_watching)
  with watch_sees_ctx show ?case
    by (auto simp: sup_inv_def sup_defs intro: err_origin_intros(3))
qed

interpretation sup: inductive_invariant "sup_init r" "sup_step r" "sup_inv r"
  by unfold_locales (auto intro: sup_inv_start sup_inv_step)

lemma grp_err_stable: "sup_step r s t \<Longrightarrow> grp_err s = Some e \<Longrightarrow> grp_err t = Some e"
  by (induction rule: sup_step.induct) (auto simp: sup_defs split: option.splits)

lemma sup_reach_start: "reach (sup_init r) (sup_step r) (sup_start r)"
  by (rule reach.reach_init) simp

lemma sup_reach_step:
  "sup_step r s t \<Longrightarrow> reach (sup_init r) (sup_step r) s \<Longrightarrow> reach (sup_init r) (sup_step r) t"
  by (rule reach.reach_step)

lemma grp_err_steps: "(sup_step r)\<^sup>*\<^sup>* s t \<Longrightarrow> grp_err s = Some e \<Longrightarrow> grp_err t = Some e"
  by (induction rule: rtranclp_induct) (auto intro: grp_err_stable)

lemma start_hooks_complete:
  assumes "reach (sup_init r) (sup_step r) s" and "sup_finished r s"
  shows "mset (map fst (start_hooks s)) = mset [0..<length (services r)]"
proof (rule set_eq_iff_mset_eq_distinct [THEN iffD1])
  have inv: "sup_inv r s" using assms(1) by (rule sup.inv_reach)
  show "distinct (map fst (start_hooks s))" using inv by (simp add: sup_inv_def)
  have hooked: "\<forall>i. start_done s i \<longleftrightarrow> i \<in> set (map fst (start_hooks s))"
    and range: "\<forall>i\<in>set (map fst (start_hooks s)). i < length (services r)"
    using inv unfolding sup_inv_def by blast+
  have "i \<in> set (map fst (start_hooks s)) \<longleftrightarrow> i < length (services r)" for i
    using hooked range assms(2) unfolding sup_finished_def by blast
  then show "set (map fst (start_hooks s)) = set [0..<length (services r)]"
    by (simp add: set_eq_iff del: set_map)
qed simp

section \<open>Properties of shutdown\<close>

text \<open>
  C8: shutdown visits every registered service exactly once, in reverse registration order; its
  result is the wrapped error of every failing \<open>Stop\<close>, in that order (one failure does not keep
  the others from being stopped), and the errors are logged iff a logger is set. Observing the
  calls changes nothing of the run.
\<close>

theorem shutdown_order:
  assumes "shutdownOrchestrator (traced_runner r) ctx now (w, []) h = (errs, logs, t, (w', calls), h')"
  shows "map sc_name calls = rev (map svc_Name (services r))
    \<and> errs = stop_errors calls \<and> logs = (if runner_logger r then errs else [])
    \<and> shutdownOrchestrator r ctx now w h = (errs, logs, t, w', h')"
  using shutdown_loop_trace [of "length (services r)" r ctx "shutdownTimeout r" now w "[]" h] assms
  by (auto simp: shutdownOrchestrator_def)

text \<open>Two services that take five nanoseconds each to stop; the second one fails.\<close>

definition slow_service :: "string \<Rightarrow> go_error option \<Rightarrow> nat component" where
  "slow_service name err =
     \<lparr>svc_Name = name,
      svc_Stop = (\<lambda>ctx now w. case select2 True now (Some (now + 5)) (done_time ctx) of
          Some (True, t) \<Rightarrow> (err, t, Suc w)
        | Some (False, t) \<Rightarrow> (ctx_Err ctx t, t, w)
        | None \<Rightarrow> (None, now, w)),
      svc_Readyable = True, svc_Checks = None\<rparr>"

definition pair_runner :: "(nat, nat) runner" where
  "pair_runner = NewApplicationRunner
     [WithShutdownTimeout 100, WithStartDeadline (2 * Second),
      WithServices [slow_service ''db'' None, slow_service ''http'' (Some (errors_New ''boom''))]]"

lemma pair_runner_fields [simp]:
  "services pair_runner = [slow_service ''db'' None, slow_service ''http'' (Some (errors_New ''boom''))]"
  "shutdownTimeout pair_runner = 100" "startDeadline pair_runner = 2 * Second"
  "runner_logger pair_runner = False" "run_hooks pair_runner = NoOpHooks"
  by (simp_all add: pair_runner_def NewApplicationRunner_def WithShutdownTimeout_def
      WithStartDeadline_def WithServices_def Second_def)

lemma slow_service_Stop [simp]:
  "svc_Name (slow_service n e) = n" "svc_Readyable (slow_service n e)"
  "svc_Stop (slow_service n e) ctx now w =
     (case select2 True now (Some (now + 5)) (done_time ctx) of
          Some (True, t) \<Rightarrow> (e, t, Suc w)
        | Some (False, t) \<Rightarrow> (ctx_Err ctx t, t, w)
        | None \<Rightarrow> (None, now, w))"
  by (simp_all add: slow_service_def)

interpretation slow: bounded_stop "svc_Stop (slow_service n e)"
  by unfold_locales
    (auto simp: select2_def split: option.splits if_splits)

lemma pair_shutdown:
  "shutdownOrchestrator (traced_runner pair_runner) Background 0 (0, []) h =
     ([wrapf ''http: shutdown error'' (errors_New ''boom'')], [], 10,
      (2, [\<lparr>sc_name = ''http'', sc_ctx = WithTimeout Background 0 50, sc_at = 0, sc_err = Some (errors_New ''boom'')\<rparr>,
           \<lparr>sc_name = ''db'', sc_ctx = WithTimeout Background 5 95, sc_at = 5, sc_err = None\<rparr>]), h)"
  by (simp add: shutdownOrchestrator_def NoOpHooks_def eval_nat_numeral Let_def select2_def
      done_time_def WithTimeout_def Background_def)

theorem shutdown_order_witness:
  "map svc_Name (services pair_runner) = [''db'', ''http'']
   \<and> shutdownOrchestrator pair_runner Background 0 0 (0 :: nat)
     = ([wrapf ''http: shutdown error'' (errors_New ''boom'')], [], 10, 2, 0)"
  using shutdown_order [OF pair_shutdown [of 0]] by simp

text \<open>
  C24: the shutdown budget. When every \<open>Stop\<close> returns by the end of its context, the whole shutdown
  takes at most \<open>shutdownTimeout\<close>, and every service, however long the ones before it took, is
  given a context of at least an equal share of the total.
\<close>

theorem shutdown_budget:
  assumes "\<And>s. s \<in> set (services r) \<Longrightarrow> bounded_stop (svc_Stop s)"
    and "0 \<le> shutdownTimeout r" and "shutdownTimeout r < 2 ^ 63" and "length (services r) < 2 ^ 63"
    and "shutdownOrchestrator (traced_runner r) ctx now (w, []) h = (errs, logs, t, (w', calls), h')"
  shows "now \<le> t \<and> t \<le> now + shutdownTimeout r
    \<and> (\<forall>c\<in>set calls. \<exists>b. shutdownTimeout r div int (length (services r)) \<le> b
          \<and> sc_ctx c = WithTimeout ctx (sc_at c) b)"
proof -
  have n: "int (length (services r)) < 9223372036854775808" using assms(4) by simp
  have top: "shutdownTimeout r < 9223372036854775808" using assms(3) by simp
  note loop = assms(5) [unfolded shutdownOrchestrator_def traced_runner_frame length_map]
  from shutdown_loop_calls [OF order_refl n assms(2) top assms(1) loop] show ?thesis
    by (fastforce simp: granted_def)
qed

lemma slow_services_bounded: "s \<in> set (services pair_runner) \<Longrightarrow> bounded_stop (svc_Stop s)"
  using slow.bounded_stop_axioms by auto

theorem shutdown_budget_witness:
  "\<exists>errs logs t w calls h. shutdownOrchestrator (traced_runner pair_runner) Background 0 (0, []) (0 :: nat)
       = (errs, logs, t, (w, calls), h) \<and> length calls = 2 \<and> t \<le> 100
     \<and> (\<forall>c\<in>set calls. \<exists>b. 50 \<le> b \<and> sc_ctx c = WithTimeout Background (sc_at c) b)"
  using shutdown_budget [of pair_runner, OF slow_services_bounded _ _ _ pair_shutdown [of 0]] pair_shutdown [of 0]
  by auto

text \<open>
  C36: \<open>Run\<close> passes the context that ended the supervision to the orchestrator. When that context is
  done, every context handed to a \<open>Stop\<close> is already done at the call and reports the same error,
  whatever \<open>shutdownTimeout\<close> is: no service gets any time for a graceful stop.
\<close>

theorem shutdown_after_cancel:
  assumes "ctx_Err ctx now = Some e"
    and "\<And>s c t0 v x t1 v'. s \<in> set (services r) \<Longrightarrow> svc_Stop s c t0 v = (x, t1, v') \<Longrightarrow> t0 \<le> t1"
    and "0 \<le> shutdownTimeout r" and "shutdownTimeout r < 2 ^ 63" and "length (services r) < 2 ^ 63"
    and "shutdownOrchestrator (traced_runner r) ctx now (w, []) h = (errs, logs, t, (w', calls), h')"
  shows "\<forall>c\<in>set calls. ctx_Err (sc_ctx c) (sc_at c) = Some e"
proof -
  have n: "int (length (services r)) < 9223372036854775808" using assms(5) by simp
  have top: "shutdownTimeout r < 9223372036854775808" using assms(4) by simp
  note loop = assms(6) [unfolded shutdownOrchestrator_def traced_runner_frame length_map]
  from shutdown_loop_contexts [OF order_refl n assms(3) top assms(2) loop]
  have "\<forall>c\<in>set calls. granted ctx now 0 c" by auto
  then show ?thesis
    using ctx_Err_mono [OF assms(1)] by (fastforce simp: granted_def intro: WithTimeout_parent_done)
qed

definition cancelled_ctx :: go_ctx where
  "cancelled_ctx = Background\<lparr>ctx_done := Some (0, context_Canceled)\<rparr>"

lemma pair_cancelled:
  "shutdownOrchestrator (traced_runner pair_runner) cancelled_ctx 7 (0, []) h =
     ([wrapf ''http: shutdown error'' context_Canceled, wrapf ''db: shutdown error'' context_Canceled], [], 7,
      (0, [\<lparr>sc_name = ''http'', sc_ctx = cancelled_ctx, sc_at = 7, sc_err = Some context_Canceled\<rparr>,
           \<lparr>sc_name = ''db'', sc_ctx = cancelled_ctx, sc_at = 7, sc_err = Some context_Canceled\<rparr>]), h)"
  by (simp add: shutdownOrchestrator_def NoOpHooks_def eval_nat_numeral Let_def select2_def
      done_time_def WithTimeout_def Background_def cancelled_ctx_def ctx_Err_def)

theorem shutdown_after_cancel_witness:
  "\<exists>errs logs t w calls h. shutdownOrchestrator (traced_runner pair_runner) cancelled_ctx 7 (0, []) (0 :: nat)
       = (errs, logs, t, (w, calls), h) \<and> length calls = 2 \<and> length errs = 2
     \<and> (\<forall>c\<in>set calls. ctx_Err (sc_ctx c) (sc_at c) = Some context_Canceled)"
proof -
  have "ctx_Err cancelled_ctx 7 = Some context_Canceled"
    by (simp add: cancelled_ctx_def ctx_Err_def)
  moreover have "t0 \<le> t1" if "s \<in> set (services pair_runner)" "svc_Stop s c t0 v = (x, t1, v')" for s c t0 v x t1 v'
    using bounded_stop.forward [OF slow_services_bounded [OF that(1)] that(2)] .
  ultimately show ?thesis
    using shutdown_after_cancel [of cancelled_ctx 7 context_Canceled pair_runner, OF _ _ _ _ _ pair_cancelled [of 0]]
      pair_cancelled [of 0] by auto
qed

section \<open>Properties of the supervisor and of Run\<close>


text \<open>
  Fail-fast. Once a goroutine has returned an error, that first error stays the group's error,
  whatever the others return later, and the group's context is cancelled.
\<close>

theorem supervisor_first_error:
  assumes "reach (sup_init r) (sup_step r) s" and "grp_err s = Some e" and "(sup_step r)\<^sup>*\<^sup>* s t"
  shows "grp_err t = Some e \<and> grp_ctx t \<noteq> None"
proof -
  have "sup_inv r t" using sup.inv_reach [OF reach_steps [OF assms(3,1)]] .
  with grp_err_steps [OF assms(3,2)] show ?thesis by (simp add: sup_inv_def)
qed

text \<open>A run of the two services: the database's start fails, which cancels the other one.\<close>

definition db_down :: go_error where
  "db_down = errors_New ''connection refused''"

definition failed_state :: supervisor where
  "failed_state = start_return pair_runner 0 (Some db_down) (sup_start pair_runner)"

definition finished_state :: supervisor where
  "finished_state =
     watch_return 1 (Some context_Canceled) (watch_return 0 (Some context_Canceled)
       (start_return pair_runner 1 (Some context_Canceled) failed_state))"

lemma failed_state_fields:
  "grp_err failed_state = Some (wrapf ''db'' db_down)"
  "grp_ctx failed_state = Some context_Canceled"
  by (simp_all add: failed_state_def sup_defs start_result_def sup_start_def db_down_def)

lemma failed_state_reach: "reach (sup_init pair_runner) (sup_step pair_runner) failed_state"
  unfolding failed_state_def
  by (rule reach.reach_step [OF reach.reach_init]) (auto intro: sup_step.start_returns simp: sup_start_def)

lemma finished_state_steps: "(sup_step pair_runner)\<^sup>*\<^sup>* failed_state finished_state"
proof -
  let ?a = "start_return pair_runner 1 (Some context_Canceled) failed_state"
  let ?b = "watch_return 0 (Some context_Canceled) ?a"
  have a: "sup_step pair_runner failed_state ?a"
    by (rule sup_step.start_returns) (simp_all add: failed_state_def sup_defs start_result_def sup_start_def db_down_def)
  have b: "sup_step pair_runner ?a ?b"
    by (rule sup_step.watch_sees_ctx)
      (simp_all add: failed_state_def sup_defs start_result_def sup_start_def db_down_def
        context_Canceled_def time_units)
  have c: "sup_step pair_runner ?b finished_state"
    unfolding finished_state_def
    by (rule sup_step.watch_sees_ctx)
      (simp_all add: failed_state_def sup_defs start_result_def sup_start_def db_down_def
        context_Canceled_def time_units)
  show ?thesis
    by (rule rtranclp.rtrancl_into_rtrancl [OF rtranclp.rtrancl_into_rtrancl [OF r_into_rtranclp [of "sup_step pair_runner", OF a] b] c])
qed

lemmas finished_eval =
  finished_state_def failed_state_def sup_defs start_result_def sup_start_def db_down_def
  context_Canceled_def time_units

lemma finished_state_fields:
  "start_hooks finished_state = [(0, Some db_down), (1, Some context_Canceled)]"
  "sup_parent finished_state = None"
  "start_done finished_state = (\<lambda>_. False)(0 := True, 1 := True)"
  "watchers finished_state i \<noteq> Watching"
  by (simp add: finished_eval, simp add: finished_eval, simp add: finished_eval)
    (cases "i = 0"; cases "i = 1"; simp add: finished_eval)

lemma finished_state_done: "sup_finished pair_runner finished_state"
  by (simp add: sup_finished_def finished_state_fields All_less_Suc numeral_2_eq_2)

theorem supervisor_first_error_witness:
  "grp_err finished_state = Some (wrapf ''db'' db_down) \<and> grp_ctx finished_state \<noteq> None"
  using supervisor_first_error [OF failed_state_reach failed_state_fields(1) finished_state_steps] .




lemma errors_Is_Join: "err_is (errors_Join es) t \<longleftrightarrow> (\<exists>e\<in>set es. err_is e t)"
  by (induction es) (auto simp: errors_Join_def Let_def List.map_filter_def list_ex_iff split: option.splits if_splits)

lemma stop_errors_Is: "(\<exists>e\<in>set (stop_errors cs). errors_Is e t) \<longleftrightarrow> (\<exists>c\<in>set cs. err_is (sc_err c) t)"
proof (induction cs)
  case (Cons c cs)
  then show ?case by (cases "sc_err c") auto
qed simp

lemma stop_errors_Nil: "stop_errors cs = [] \<longleftrightarrow> (\<forall>c\<in>set cs. sc_err c = None)"
proof (induction cs)
  case (Cons c cs)
  then show ?case by (cases "sc_err c") auto
qed simp

lemma Run_result_Is:
  "err_is (Run_result startErr errs) t \<longleftrightarrow> err_is startErr t \<or> (\<exists>e\<in>set errs. errors_Is e t)"
  by (cases startErr) (auto simp: Run_result_def errors_Is_Join list_ex_iff)

lemma Run_result_None: "Run_result startErr errs = None \<longleftrightarrow> startErr = None \<and> errs = []"
  by (cases startErr; cases errs) (auto simp: Run_result_def errors_Join_None_iff)

lemma healthWiring_traced:
  "healthWiring (traced_runner r) = Returned r' \<Longrightarrow> \<exists>a. r' = traced_runner (r\<lparr>healthAggregator := a\<rparr>)"
  by (auto simp: healthWiring_def traced_runner_def split: option.splits)


text \<open>One service without start deadline: it runs until it returns and then fails to stop.\<close>

definition solo_runner :: "(nat, nat) runner" where
  "solo_runner = NewApplicationRunner [WithServices [slow_service ''http'' (Some (errors_New ''boom''))]]"

lemma solo_wiring:
  "\<exists>r'. healthWiring (traced_runner solo_runner) = Returned r'
     \<and> services r' = [traced (slow_service ''http'' (Some (errors_New ''boom'')))]
     \<and> startDeadline r' = 0 \<and> shutdownTimeout r' = 15000000000"
  by (simp add: healthWiring_def solo_runner_def NewApplicationRunner_def WithServices_def
      time_units traced_runner_def)

lemma solo_supervision:
  assumes "services r = [svc]" and "startDeadline r = 0"
  shows "reach (sup_init r) (sup_step r) (start_return r 0 None (sup_start r))"
    and "sup_finished r (start_return r 0 None (sup_start r))"
    and "sup_parent (start_return r 0 None (sup_start r)) = None"
    and "start_hooks (start_return r 0 None (sup_start r)) = [(0, None)]"
  using sup_reach_step [OF sup_step.start_returns [of 0 r "sup_start r" None] sup_reach_start] assms
  by (simp_all add: sup_start_def sup_defs start_result_def sup_finished_def)


section \<open>Properties of construction and wiring\<close>

lemma wiring_fold:
  "agg_checks (fold (\<lambda>s a. case svc_Checks s of Some cs \<Rightarrow> Register cs a | None \<Rightarrow> a) svcs agg) k
     = agg_checks agg k @ map with_default_timeout
         (filter (\<lambda>c. check_Kind c = k) (concat (List.map_filter svc_Checks svcs)))
   \<and> agg_hook (fold (\<lambda>s a. case svc_Checks s of Some cs \<Rightarrow> Register cs a | None \<Rightarrow> a) svcs agg) = agg_hook agg"
  by (induction svcs arbitrary: agg) (auto simp: agg_checks_Register List.map_filter_def split: option.splits)

text \<open>
  Wiring. Without an aggregator \<open>Run\<close> panics; otherwise the aggregator receives the checks of
  every service that provides some, in registration order and behind what the application
  registered itself, and its evaluations reach the runner's hooks under the kind's label.
\<close>

theorem healthWiring_registers:
  "case healthAggregator r of
     None \<Rightarrow> healthWiring r = Panicked ''nil pointer dereference''
   | Some agg \<Rightarrow> (\<exists>agg'. healthWiring r = Returned (r\<lparr>healthAggregator := Some agg'\<rparr>)
       \<and> (\<forall>k. agg_checks agg' k = agg_checks agg k @ map with_default_timeout
              (filter (\<lambda>c. check_Kind c = k) (concat (List.map_filter svc_Checks (services r)))))
       \<and> (\<forall>k d e h. call_hook agg' k d e h = OnHealthEvaluated (run_hooks r) (Kind_String k) d e h))"
  by (auto simp: healthWiring_def wiring_fold SetHook_def call_hook_def split: option.splits)

text \<open>The options an application can pass.\<close>

inductive is_run_option :: "('w, 'h) run_option \<Rightarrow> bool" where
  "is_run_option (WithLogger l)"
| "is_run_option (WithShutdownTimeout d)"
| "is_run_option (WithStartDeadline d)"
| "is_run_option (WithServices svcs)"
| "is_run_option (WithHooks h)"
| "is_run_option (WithHealthCacheTTL d)"
| "is_run_option (WithHealthAggregator a)"

lemmas option_defs =
  WithLogger_def WithShutdownTimeout_def WithStartDeadline_def WithServices_def WithHooks_def
  WithHealthCacheTTL_def WithHealthAggregator_def

text \<open>
  Whatever options an application passes, in whatever order, the runner's shutdown budget is
  positive and its start deadline not negative: non-positive durations are ignored.
\<close>

theorem runner_durations:
  assumes "\<And>opt. opt \<in> set options \<Longrightarrow> is_run_option opt"
  shows "0 < shutdownTimeout (NewApplicationRunner options) \<and> 0 \<le> startDeadline (NewApplicationRunner options)"
proof -
  have keep: "0 < shutdownTimeout (opt r) \<and> 0 \<le> startDeadline (opt r)"
    if "is_run_option opt" "0 < shutdownTimeout r \<and> 0 \<le> startDeadline r" for opt and r :: "('a, 'b) runner"
    using that by cases (auto simp: option_defs split: option.splits)
  show ?thesis
    unfolding NewApplicationRunner_def
    by (rule fold_invariant [where Q = is_run_option and P = "\<lambda>r. 0 < shutdownTimeout r \<and> 0 \<le> startDeadline r"])
      (use assms keep in \<open>simp_all add: Second_def\<close>)
qed

theorem runner_durations_witness:
  "0 < shutdownTimeout (NewApplicationRunner [WithShutdownTimeout (-5), WithStartDeadline (-1)] :: (nat, nat) runner)"
  using runner_durations [of "[WithShutdownTimeout (-5), WithStartDeadline (-1)] :: (nat, nat) run_option list"]
  by (auto intro: is_run_option.intros)

end
