(* ===== verification/Worker.thy ===== *)
theory Worker
  imports Runner
begin

text \<open>
  workerkit (client.go, server.go, enqueuer.go, health.go) and workerkit/memqueue: background tasks.
  The asynq library is the parameter \<open>asynq\<close>, over a world with a clock, \<open>int \<times> 's\<close>. A \<open>time.Time\<close>
  is an \<open>int option\<close>, \<open>None\<close> the zero time.
\<close>

section \<open>Tasks and options\<close>

record RedisConfig =
  rcfg_Addr :: string
  rcfg_Password :: string
  rcfg_DB :: int
  rcfg_Username :: string
  rcfg_TLS :: bool

record task =
  task_Type :: string
  task_Payload :: string

record TaskInfo =
  ti_ID :: string
  ti_Type :: string
  ti_Queue :: string
  ti_State :: string
  ti_NextProcessAt :: "int option"
  ti_Retention :: int
  ti_CompletedAt :: "int option"
  ti_Result :: string
  ti_LastErr :: string
  ti_LastFailedAt :: "int option"

record EnqueueOptions =
  eo_Queue :: string
  eo_MaxRetry :: "int option"
  eo_Deadline :: "int option"
  eo_ProcessIn :: int
  eo_ProcessAt :: "int option"
  eo_Unique :: int
  eo_Timeout :: int
  eo_Retention :: int
  eo_Group :: string

type_synonym EnqueueOption = "EnqueueOptions \<Rightarrow> EnqueueOptions"

definition WithQueue :: "string \<Rightarrow> EnqueueOption" where
  "WithQueue name o' = o'\<lparr>eo_Queue := name\<rparr>"

definition WithMaxRetry :: "int \<Rightarrow> EnqueueOption" where
  "WithMaxRetry n o' = o'\<lparr>eo_MaxRetry := Some n\<rparr>"

definition WithDeadline :: "int option \<Rightarrow> EnqueueOption" where
  "WithDeadline t o' = o'\<lparr>eo_Deadline := t\<rparr>"

definition WithProcessIn :: "int \<Rightarrow> EnqueueOption" where
  "WithProcessIn d o' = o'\<lparr>eo_ProcessIn := d, eo_ProcessAt := None\<rparr>"

definition WithProcessAt :: "int option \<Rightarrow> EnqueueOption" where
  "WithProcessAt t o' = o'\<lparr>eo_ProcessAt := t, eo_ProcessIn := 0\<rparr>"

definition WithUnique :: "int \<Rightarrow> EnqueueOption" where
  "WithUnique ttl o' = o'\<lparr>eo_Unique := ttl\<rparr>"

definition eo_WithTimeout :: "int \<Rightarrow> EnqueueOption" where
  "eo_WithTimeout d o' = o'\<lparr>eo_Timeout := d\<rparr>"

definition WithRetention :: "int \<Rightarrow> EnqueueOption" where
  "WithRetention d o' = o'\<lparr>eo_Retention := d\<rparr>"

definition WithGroup :: "string \<Rightarrow> EnqueueOption" where
  "WithGroup name o' = o'\<lparr>eo_Group := name\<rparr>"

definition zeroOptions :: EnqueueOptions where
  "zeroOptions = \<lparr>eo_Queue = [], eo_MaxRetry = None, eo_Deadline = None, eo_ProcessIn = 0,
     eo_ProcessAt = None, eo_Unique = 0, eo_Timeout = 0, eo_Retention = 0, eo_Group = []\<rparr>"

definition evalOptions :: "EnqueueOption list \<Rightarrow> EnqueueOptions" where
  "evalOptions opts = fold (\<lambda>fn o'. fn o') opts zeroOptions"

section \<open>The asynq library\<close>

datatype asynq_option =
    AQueue string | AMaxRetry int | ADeadline int | AProcessIn int | AProcessAt int
  | AUnique int | ATimeout int | ARetention int | AGroup string

record asynq_info =
  ai_ID :: string
  ai_Type :: string
  ai_Queue :: string
  ai_State :: string
  ai_NextProcessAt :: "int option"
  ai_Retention :: int
  ai_CompletedAt :: "int option"
  ai_Result :: string
  ai_LastErr :: string
  ai_LastFailedAt :: "int option"

text \<open>\<open>asynq_Shutdown\<close> gives the time the graceful shutdown takes and the state after it.\<close>

record 's asynq =
  asynq_Enqueue :: "task \<Rightarrow> asynq_option list \<Rightarrow> int \<times> 's \<Rightarrow> (go_error + asynq_info) \<times> int \<times> 's"
  asynq_EnqueueContext :: "go_ctx \<Rightarrow> task \<Rightarrow> asynq_option list \<Rightarrow> int \<times> 's \<Rightarrow> (go_error + asynq_info) \<times> int \<times> 's"
  asynq_client_Close :: "int \<times> 's \<Rightarrow> go_error option \<times> int \<times> 's"
  asynq_Start :: "int \<times> 's \<Rightarrow> go_error option \<times> int \<times> 's"
  asynq_Shutdown :: "'s \<Rightarrow> nat \<times> 's"
  asynq_Stop :: "'s \<Rightarrow> 's"

section \<open>The client\<close>

record asynq_RedisClientOpt =
  aro_Addr :: string
  aro_Password :: string
  aro_DB :: int
  aro_Username :: string
  aro_TLS :: bool

definition toAsynqOpt :: "RedisConfig \<Rightarrow> asynq_RedisClientOpt" where
  "toAsynqOpt rc = \<lparr>aro_Addr = rcfg_Addr rc, aro_Password = rcfg_Password rc, aro_DB = rcfg_DB rc,
     aro_Username = rcfg_Username rc, aro_TLS = rcfg_TLS rc\<rparr>"

definition toAsynqOpts :: "EnqueueOption list \<Rightarrow> asynq_option list" where
  "toAsynqOpts opts =
     (let o' = evalOptions opts in
        (if eo_Queue o' \<noteq> [] then [AQueue (eo_Queue o')] else [])
      @ (case eo_MaxRetry o' of Some n \<Rightarrow> [AMaxRetry n] | None \<Rightarrow> [])
      @ (case eo_Deadline o' of Some t \<Rightarrow> [ADeadline t] | None \<Rightarrow> [])
      @ (if eo_ProcessIn o' > 0 then [AProcessIn (eo_ProcessIn o')] else [])
      @ (case eo_ProcessAt o' of Some t \<Rightarrow> [AProcessAt t] | None \<Rightarrow> [])
      @ (if eo_Unique o' > 0 then [AUnique (eo_Unique o')] else [])
      @ (if eo_Timeout o' > 0 then [ATimeout (eo_Timeout o')] else [])
      @ (if eo_Retention o' > 0 then [ARetention (eo_Retention o')] else [])
      @ (if eo_Group o' \<noteq> [] then [AGroup (eo_Group o')] else []))"

definition fromAsynqInfo :: "asynq_info \<Rightarrow> TaskInfo" where
  "fromAsynqInfo info =
     \<lparr>ti_ID = ai_ID info, ti_Type = ai_Type info, ti_Queue = ai_Queue info, ti_State = ai_State info,
      ti_NextProcessAt = ai_NextProcessAt info, ti_Retention = ai_Retention info,
      ti_CompletedAt = ai_CompletedAt info, ti_Result = ai_Result info, ti_LastErr = ai_LastErr info,
      ti_LastFailedAt = ai_LastFailedAt info\<rparr>"

definition sent :: "(go_error + asynq_info) \<times> 'w \<Rightarrow> (go_error + TaskInfo) outcome \<times> 'w" where
  "sent r = (case r of (Inl err, w') \<Rightarrow> (Returned (Inl err), w') | (Inr info, w') \<Rightarrow> (Returned (Inr (fromAsynqInfo info)), w'))"

definition client_Enqueue ::
  "'s asynq \<Rightarrow> ('s \<Rightarrow> int option) \<Rightarrow> task \<Rightarrow> EnqueueOption list \<Rightarrow> (int \<times> 's, go_error + TaskInfo) action" where
  "client_Enqueue A readyAt tsk opts w =
     (case readyAt (snd w) of
        Some x \<Rightarrow> if x \<le> fst w then sent (asynq_Enqueue A tsk (toAsynqOpts opts) w)
                  else (Returned (Inl (errors_New ''client not ready'')), w)
      | None \<Rightarrow> (Returned (Inl (errors_New ''client not ready'')), w))"

definition client_EnqueueContext ::
  "'s asynq \<Rightarrow> bool \<Rightarrow> ('s \<Rightarrow> int option) \<Rightarrow> (int \<Rightarrow> 's \<Rightarrow> 's) \<Rightarrow> go_ctx \<Rightarrow> task \<Rightarrow> EnqueueOption list
     \<Rightarrow> (int \<times> 's, go_error + TaskInfo) action" where
  "client_EnqueueContext A pick readyAt elapse ctx tsk opts =
     act_bind (wait_ready pick readyAt elapse ctx) (\<lambda>err. case err of
        Some e \<Rightarrow> act_ret (Inl (wrapf ''client not ready'' e))
      | None \<Rightarrow> (\<lambda>w. sent (asynq_EnqueueContext A ctx tsk (toAsynqOpts opts) w)))"

text \<open>
  The component: its name and the asynq client, which is identified by the options it was made with.
\<close>

record AsynqClient =
  ac_name :: string
  ac_client :: asynq_RedisClientOpt

definition NewAsynqClient :: "string \<Rightarrow> RedisConfig \<Rightarrow> AsynqClient" where
  "NewAsynqClient name redisCfg = \<lparr>ac_name = name, ac_client = toAsynqOpt redisCfg\<rparr>"

definition ac_Name :: "AsynqClient \<Rightarrow> string" where
  "ac_Name c = ac_name c"

definition client_stop :: "'s asynq \<Rightarrow> go_ctx \<Rightarrow> int \<times> 's \<Rightarrow> go_error option \<times> int \<times> 's" where
  "client_stop A ctx w = asynq_client_Close A w"

text \<open>
  The readiness check waits for the channel. It is only called with a context that has a deadline,
  so the wait returns; the last branch is never taken.
\<close>

definition asynqHealthChecks :: "string \<Rightarrow> bool \<Rightarrow> int option \<Rightarrow> check list" where
  "asynqHealthChecks name pick ready =
     StandardChecks name (\<lambda>ctx now.
       case WaitReady pick ctx ready now of
         Returned (err, t) \<Rightarrow> (err, t)
       | _ \<Rightarrow> (Some context_DeadlineExceeded, now))"

definition ac_HealthChecks :: "AsynqClient \<Rightarrow> bool \<Rightarrow> int option \<Rightarrow> check list" where
  "ac_HealthChecks c pick ready = asynqHealthChecks (ac_name c) pick ready"

section \<open>The server\<close>

record 'q ServerConfig =
  sc_Concurrency :: int
  sc_Queues :: 'q
  sc_StrictPriority :: bool
  sc_ShutdownTimeout :: int
  sc_RetryDelayFunc :: "(int \<Rightarrow> go_error option \<Rightarrow> task \<Rightarrow> int) option"

record 'q asynq_Config =
  acfg_Concurrency :: int
  acfg_Queues :: 'q
  acfg_StrictPriority :: bool
  acfg_ShutdownTimeout :: int
  acfg_RetryDelayFunc :: "(int \<Rightarrow> go_error option \<Rightarrow> task \<Rightarrow> int) option"

definition toAsynqConfig :: "'q ServerConfig \<Rightarrow> 'q asynq_Config" where
  "toAsynqConfig sc =
     (let cfg = \<lparr>acfg_Concurrency = sc_Concurrency sc, acfg_Queues = sc_Queues sc,
                 acfg_StrictPriority = sc_StrictPriority sc, acfg_ShutdownTimeout = 0,
                 acfg_RetryDelayFunc = None\<rparr>;
          cfg1 = (if sc_ShutdownTimeout sc > 0 then cfg\<lparr>acfg_ShutdownTimeout := sc_ShutdownTimeout sc\<rparr> else cfg)
      in case sc_RetryDelayFunc sc of
           Some f \<Rightarrow> cfg1\<lparr>acfg_RetryDelayFunc := Some (\<lambda>n err t.
               f n err \<lparr>task_Type = task_Type t, task_Payload = task_Payload t\<rparr>)\<rparr>
         | None \<Rightarrow> cfg1)"

definition server_connect :: "'s asynq \<Rightarrow> int \<times> 's \<Rightarrow> go_error option \<times> int \<times> 's" where
  "server_connect A w =
     (case asynq_Start A w of
        (Some err, w') \<Rightarrow> (Some (wrapf ''failed to start asynq server'' err), w')
      | (None, w') \<Rightarrow> (None, w'))"

text \<open>The stop closure: the shutdown goroutine against the context.\<close>

definition server_stop :: "'s asynq \<Rightarrow> bool \<Rightarrow> go_ctx \<Rightarrow> int \<Rightarrow> 's \<Rightarrow> go_error option \<times> int \<times> 's" where
  "server_stop A pick ctx now s =
     (case asynq_Shutdown A s of (d, s') \<Rightarrow>
        case select2 pick now (Some (now + int d)) (done_time ctx) of
          Some (False, t) \<Rightarrow>
            (case ctx_Err ctx t of
               Some e \<Rightarrow> (Some (wrapf ''asynq server shutdown timed out'' e), t, asynq_Stop A s)
             | None \<Rightarrow> (None, t, asynq_Stop A s))
        | Some (True, t) \<Rightarrow> (None, t, s')
        | None \<Rightarrow> (None, now, s'))"

text \<open>\<open>HandleFunc\<close>: the mux maps patterns to asynq handlers, which rebuild the framework's task.\<close>

type_synonym ('w, 'm) handle_mux = "string \<Rightarrow> (go_ctx \<Rightarrow> task \<Rightarrow> ('w, go_error option) action) \<Rightarrow> 'm \<Rightarrow> 'm"

definition server_HandleFunc ::
  "('w, 'm) handle_mux \<Rightarrow> string \<Rightarrow> (go_ctx \<Rightarrow> task \<Rightarrow> ('w, go_error option) action) \<Rightarrow> 'm \<Rightarrow> 'm" where
  "server_HandleFunc mux_HandleFunc pattern handler =
     mux_HandleFunc pattern (\<lambda>ctx t. handler ctx \<lparr>task_Type = task_Type t, task_Payload = task_Payload t\<rparr>)"

text \<open>
  The component: the asynq server is identified by the options and the configuration it was made
  with, its mux by the registered patterns with their handlers. The logger is slog's default.
\<close>

record ('q, 'w) AsynqServer =
  as_name :: string
  as_server :: "asynq_RedisClientOpt \<times> 'q asynq_Config"
  as_mux :: "(string \<times> (go_ctx \<Rightarrow> task \<Rightarrow> ('w, go_error option) action)) list"

definition NewAsynqServer :: "string \<Rightarrow> RedisConfig \<Rightarrow> 'q ServerConfig \<Rightarrow> ('q, 'w) AsynqServer" where
  "NewAsynqServer name redisCfg cfg =
     \<lparr>as_name = name, as_server = (toAsynqOpt redisCfg, toAsynqConfig cfg), as_mux = []\<rparr>"

definition as_HandleFunc ::
  "string \<Rightarrow> (go_ctx \<Rightarrow> task \<Rightarrow> ('w, go_error option) action) \<Rightarrow> ('q, 'w) AsynqServer \<Rightarrow> ('q, 'w) AsynqServer" where
  "as_HandleFunc pattern handler s =
     s\<lparr>as_mux := server_HandleFunc (\<lambda>pat hd m. m @ [(pat, hd)]) pattern handler (as_mux s)\<rparr>"

definition as_Name :: "('q, 'w) AsynqServer \<Rightarrow> string" where
  "as_Name s = as_name s"

definition as_HealthChecks :: "('q, 'w) AsynqServer \<Rightarrow> bool \<Rightarrow> int option \<Rightarrow> check list" where
  "as_HealthChecks s pick ready = asynqHealthChecks (as_name s) pick ready"

section \<open>The in-memory queue\<close>

record EnqueuedTask =
  et_Task :: task
  et_Options :: EnqueueOptions
  et_EnqueuedAt :: int

record InMemoryClient =
  mq_tasks :: "EnqueuedTask list"

definition mq_New :: InMemoryClient where
  "mq_New = \<lparr>mq_tasks = []\<rparr>"

definition mq_Tasks :: "InMemoryClient \<Rightarrow> EnqueuedTask list" where
  "mq_Tasks c = mq_tasks c"

definition mq_Reset :: "InMemoryClient \<Rightarrow> InMemoryClient" where
  "mq_Reset c = c\<lparr>mq_tasks := []\<rparr>"

definition mq_enqueue ::
  "task \<Rightarrow> EnqueueOptions \<Rightarrow> int \<times> InMemoryClient \<Rightarrow> TaskInfo \<times> int \<times> InMemoryClient" where
  "mq_enqueue tsk opts w =
     (let c = (snd w)\<lparr>mq_tasks := mq_tasks (snd w) @ [\<lparr>et_Task = tsk, et_Options = opts, et_EnqueuedAt = fst w\<rparr>]\<rparr>
      in (\<lparr>ti_ID = ''mem-'' @ fmt_d (int (length (mq_tasks c))), ti_Type = task_Type tsk, ti_Queue = [],
           ti_State = ''pending'', ti_NextProcessAt = None, ti_Retention = 0, ti_CompletedAt = None,
           ti_Result = [], ti_LastErr = [], ti_LastFailedAt = None\<rparr>, fst w, c))"

definition mq_Enqueue ::
  "task \<Rightarrow> EnqueueOption list \<Rightarrow> (int \<times> InMemoryClient, go_error + TaskInfo) action" where
  "mq_Enqueue tsk opts w =
     (case mq_enqueue tsk (evalOptions opts) w of (info, w') \<Rightarrow> (Returned (Inr info), w'))"

definition mq_EnqueueContext ::
  "go_ctx \<Rightarrow> task \<Rightarrow> EnqueueOption list \<Rightarrow> (int \<times> InMemoryClient, go_error + TaskInfo) action" where
  "mq_EnqueueContext ctx tsk opts w =
     (case ctx_Err ctx (fst w) of
        Some e \<Rightarrow> (Returned (Inl e), w)
      | None \<Rightarrow> (case mq_enqueue tsk (evalOptions opts) w of (info, w') \<Rightarrow> (Returned (Inr info), w')))"

section \<open>What an enqueuer promises\<close>

text \<open>
  \<open>queue\<close> is what has been enqueued, each task with its options in the backend's form: success
  appends the task and reports its type, failure changes nothing. \<open>enqueue_each\<close> is a run of calls,
  one after the other.
\<close>

fun enqueue_each ::
  "(go_ctx \<Rightarrow> task \<Rightarrow> EnqueueOption list \<Rightarrow> ('w, go_error + TaskInfo) action)
     \<Rightarrow> go_ctx \<Rightarrow> (task \<times> EnqueueOption list) list \<Rightarrow> 'w \<Rightarrow> (go_error + TaskInfo) outcome list \<times> 'w" where
  "enqueue_each enq ctx [] w = ([], w)"
| "enqueue_each enq ctx (t # ts) w =
     (case enq ctx (fst t) (snd t) w of (r, w1) \<Rightarrow>
        case enqueue_each enq ctx ts w1 of (rs, w2) \<Rightarrow> (r # rs, w2))"

locale enqueuer =
  fixes enq :: "go_ctx \<Rightarrow> task \<Rightarrow> EnqueueOption list \<Rightarrow> ('w, go_error + TaskInfo) action"
    and queue :: "'w \<Rightarrow> (task \<times> 'o) list" and form :: "EnqueueOption list \<Rightarrow> 'o"
  assumes enq_ok: "enq ctx tsk opts w = (Returned (Inr info), w') \<Longrightarrow>
      queue w' = queue w @ [(tsk, form opts)] \<and> ti_Type info = task_Type tsk"
    and enq_err: "enq ctx tsk opts w = (Returned (Inl e), w') \<Longrightarrow> queue w' = queue w"
begin

lemma each_queue:
  assumes "enqueue_each enq ctx ts w = (rs, w')" and "\<forall>r\<in>set rs. \<exists>x. r = Returned x"
  shows "length rs = length ts
    \<and> queue w' = queue w @ map (\<lambda>(t, r). (fst t, form (snd t)))
        (filter (\<lambda>(t, r). \<exists>info. r = Returned (Inr info)) (zip ts rs))"
  using assms
proof (induction ts arbitrary: w rs)
  case Nil
  then show ?case by simp
next
  case (Cons t ts)
  obtain r w1 where r: "enq ctx (fst t) (snd t) w = (r, w1)" by (rule prod.exhaust)
  obtain rs' where rs: "enqueue_each enq ctx ts w1 = (rs', w')" "rs = r # rs'"
    using Cons.prems(1) r by (auto split: prod.splits)
  with Cons.prems(2) obtain x where x: "r = Returned x" by auto
  have IH: "length rs' = length ts \<and> queue w' = queue w1 @ map (\<lambda>(t, r). (fst t, form (snd t)))
        (filter (\<lambda>(t, r). \<exists>info. r = Returned (Inr info)) (zip ts rs'))"
    using Cons.IH [OF rs(1)] Cons.prems(2) rs(2) by simp
  show ?case
    using IH rs(2) x r enq_ok [of ctx "fst t" "snd t" w _ w1] enq_err [of ctx "fst t" "snd t" w _ w1]
    by (cases x) auto
qed

end

definition mq_queue :: "int \<times> InMemoryClient \<Rightarrow> (task \<times> EnqueueOptions) list" where
  "mq_queue w = map (\<lambda>e. (et_Task e, et_Options e)) (mq_Tasks (snd w))"

interpretation memq: enqueuer mq_EnqueueContext mq_queue evalOptions
  by unfold_locales
    (auto simp: mq_EnqueueContext_def mq_enqueue_def mq_queue_def mq_Tasks_def Let_def split: option.splits)

text \<open>What the client relies on of the asynq broker.\<close>

locale asynq_broker =
  fixes A :: "'s asynq" and broker :: "'s \<Rightarrow> (task \<times> asynq_option list) list"
  assumes broker_ok: "asynq_EnqueueContext A ctx tsk opts w = (Inr info, w') \<Longrightarrow>
      broker (snd w') = broker (snd w) @ [(tsk, opts)] \<and> ai_Type info = task_Type tsk"
    and broker_err: "asynq_EnqueueContext A ctx tsk opts w = (Inl e, w') \<Longrightarrow> broker (snd w') = broker (snd w)"
begin

lemma client_enqueuer:
  assumes "\<And>t s. broker (elapse t s) = broker s"
  shows "enqueuer (client_EnqueueContext A pick readyAt elapse) (\<lambda>w. broker (snd w)) toAsynqOpts"
proof
  fix ctx tsk opts and w w' :: "int \<times> 's"
  obtain x v where x: "wait_ready pick readyAt elapse ctx w = (x, v)" by (rule prod.exhaust)
  then have v: "broker (snd v) = broker (snd w)"
    using assms by (auto simp: wait_ready_def split: outcome.splits prod.splits)
  obtain b u where b: "asynq_EnqueueContext A ctx tsk (toAsynqOpts opts) v = (b, u)" by (rule prod.exhaust)
  { fix info
    assume "client_EnqueueContext A pick readyAt elapse ctx tsk opts w = (Returned (Inr info), w')"
    then obtain i where "b = Inr i" "u = w'" "info = fromAsynqInfo i"
      using x b by (auto simp: client_EnqueueContext_def act_bind_def sent_def
          split: outcome.splits option.splits sum.splits)
    with b broker_ok v show "broker (snd w') = broker (snd w) @ [(tsk, toAsynqOpts opts)] \<and> ti_Type info = task_Type tsk"
      by (auto simp: fromAsynqInfo_def) }
  { fix e
    assume "client_EnqueueContext A pick readyAt elapse ctx tsk opts w = (Returned (Inl e), w')"
    then have "w' = v \<or> (\<exists>e'. b = Inl e' \<and> w' = u)"
      using x b by (auto simp: client_EnqueueContext_def act_bind_def sent_def
          split: outcome.splits option.splits sum.splits)
    with broker_err [of ctx tsk "toAsynqOpts opts" v _ u] b v show "broker (snd w') = broker (snd w)" by auto }
qed

end

text \<open>A reference broker: a list, filled unless the context is done.\<close>

definition ref_info :: "task \<Rightarrow> asynq_info" where
  "ref_info tsk = \<lparr>ai_ID = ''1'', ai_Type = task_Type tsk, ai_Queue = ''default'', ai_State = ''pending'',
     ai_NextProcessAt = None, ai_Retention = 0, ai_CompletedAt = None, ai_Result = [], ai_LastErr = [],
     ai_LastFailedAt = None\<rparr>"

definition ref_asynq :: "nat \<Rightarrow> (task \<times> asynq_option list) list asynq" where
  "ref_asynq d =
     \<lparr>asynq_Enqueue = (\<lambda>tsk opts w. (Inr (ref_info tsk), fst w + Millisecond, snd w @ [(tsk, opts)])),
      asynq_EnqueueContext = (\<lambda>ctx tsk opts w. case ctx_Err ctx (fst w) of
          Some e \<Rightarrow> (Inl e, w)
        | None \<Rightarrow> (Inr (ref_info tsk), fst w + Millisecond, snd w @ [(tsk, opts)])),
      asynq_client_Close = (\<lambda>w. (None, w)),
      asynq_Start = (\<lambda>w. (None, w)),
      asynq_Shutdown = (\<lambda>s. (d, s)),
      asynq_Stop = (\<lambda>s. s)\<rparr>"

interpretation refq: asynq_broker "ref_asynq d" "\<lambda>s. s"
  by unfold_locales (auto simp: ref_asynq_def ref_info_def split: option.splits)

text \<open>The server's stop closure keeps the contract of the runner's shutdown budget.\<close>

lemma server_stop_cases:
  assumes "server_stop A pick ctx now s = (e, t, s')"
  obtains (shutdown) d where "asynq_Shutdown A s = (d, s')" "t = now + int d" "e = None"
      "done_time ctx = None \<or> (\<exists>y. done_time ctx = Some y \<and> now + int d \<le> max now y)"
  | (timeout) d s1 y ce where "asynq_Shutdown A s = (d, s1)" "done_time ctx = Some y" "t = max now y"
      "ctx_Err ctx t = Some ce" "e = Some (wrapf ''asynq server shutdown timed out'' ce)" "s' = asynq_Stop A s"
      "t \<le> now + int d"
proof -
  obtain d s1 where d: "asynq_Shutdown A s = (d, s1)" by (rule prod.exhaust)
  show thesis
  proof (cases "done_time ctx")
    case None
    with assms d shutdown show thesis by (auto simp: server_stop_def select2_def)
  next
    case (Some y)
    obtain ce where ce: "ctx_Err ctx (max now y) = Some ce" using ctx_Err_done_time [OF Some, of "max now y"] by auto
    have "(e = None \<and> t = now + int d \<and> s' = s1 \<and> now + int d \<le> max now y)
      \<or> (e = Some (wrapf ''asynq server shutdown timed out'' ce) \<and> t = max now y \<and> s' = asynq_Stop A s \<and> t \<le> now + int d)"
      using assms d Some ce by (cases pick) (auto simp: server_stop_def select2_def split: if_splits)
    then show thesis using shutdown timeout d Some ce by blast
  qed
qed

interpretation asynq_server: bounded_stop "server_stop A pick"
  by unfold_locales (auto elim!: server_stop_cases)

section \<open>Properties\<close>

text \<open>The options a caller can pass.\<close>

inductive is_enqueue_option :: "EnqueueOption \<Rightarrow> bool" where
  "is_enqueue_option (WithQueue q)"
| "is_enqueue_option (WithMaxRetry n)"
| "is_enqueue_option (WithDeadline t)"
| "is_enqueue_option (WithProcessIn d)"
| "is_enqueue_option (WithProcessAt t)"
| "is_enqueue_option (WithUnique d)"
| "is_enqueue_option (eo_WithTimeout d)"
| "is_enqueue_option (WithRetention d)"
| "is_enqueue_option (WithGroup g)"

lemmas enqueue_option_defs =
  WithQueue_def WithMaxRetry_def WithDeadline_def WithProcessIn_def WithProcessAt_def WithUnique_def
  eo_WithTimeout_def WithRetention_def WithGroup_def

lemma evalOptions_schedule:
  assumes "\<And>fn. fn \<in> set opts \<Longrightarrow> is_enqueue_option fn"
  shows "eo_ProcessIn (evalOptions opts) = 0 \<or> eo_ProcessAt (evalOptions opts) = None"
  unfolding evalOptions_def
proof (rule fold_invariant [where Q = is_enqueue_option and P = "\<lambda>o'. eo_ProcessIn o' = 0 \<or> eo_ProcessAt o' = None"])
  show "eo_ProcessIn (fn o') = 0 \<or> eo_ProcessAt (fn o') = None"
    if "is_enqueue_option fn" "eo_ProcessIn o' = 0 \<or> eo_ProcessAt o' = None" for fn o'
    using that by cases (auto simp: enqueue_option_defs)
qed (use assms in \<open>auto simp: zeroOptions_def\<close>)

text \<open>
  Scheduling options are exclusive and the last one wins. Whatever options are passed, asynq
  receives a delay or a moment but never both, each of its options at most once, and a final
  \<open>WithProcessAt\<close> or \<open>WithProcessIn\<close> decides.
\<close>

theorem scheduling_exclusive:
  assumes "\<And>fn. fn \<in> set opts \<Longrightarrow> is_enqueue_option fn"
  shows "\<not> (AProcessIn d \<in> set (toAsynqOpts opts) \<and> AProcessAt t \<in> set (toAsynqOpts opts))
    \<and> distinct (toAsynqOpts opts)
    \<and> (AProcessAt t' \<in> set (toAsynqOpts (opts @ [WithProcessAt (Some t)])) \<longleftrightarrow> t' = t)
    \<and> (AProcessIn d' \<in> set (toAsynqOpts (opts @ [WithProcessIn d])) \<longleftrightarrow> d' = d \<and> 0 < d)
    \<and> AProcessIn d' \<notin> set (toAsynqOpts (opts @ [WithProcessAt (Some t)]))"
proof -
  have "\<not> (AProcessIn d \<in> set (toAsynqOpts opts) \<and> AProcessAt t \<in> set (toAsynqOpts opts))"
    using evalOptions_schedule [OF assms, of opts]
    by (auto simp: toAsynqOpts_def Let_def split: option.splits if_splits)
  moreover have "distinct (toAsynqOpts opts)"
    by (simp add: toAsynqOpts_def Let_def split: option.splits)
  moreover have "eo_ProcessAt (evalOptions (opts @ [WithProcessAt (Some t)])) = Some t"
    "eo_ProcessIn (evalOptions (opts @ [WithProcessAt (Some t)])) = 0"
    "eo_ProcessIn (evalOptions (opts @ [WithProcessIn d])) = d"
    by (simp_all add: evalOptions_def WithProcessAt_def WithProcessIn_def)
  then have "AProcessAt t' \<in> set (toAsynqOpts (opts @ [WithProcessAt (Some t)])) \<longleftrightarrow> t' = t"
    "AProcessIn d' \<in> set (toAsynqOpts (opts @ [WithProcessIn d])) \<longleftrightarrow> d' = d \<and> 0 < d"
    "AProcessIn d' \<notin> set (toAsynqOpts (opts @ [WithProcessAt (Some t)]))"
    by (auto simp: toAsynqOpts_def Let_def split: option.splits)
  ultimately show ?thesis by blast
qed

theorem scheduling_exclusive_witness:
  "toAsynqOpts [WithProcessIn 5, WithQueue ''low'', WithProcessAt (Some 9)] = [AQueue ''low'', AProcessAt 9]
   \<and> AProcessIn 5 \<notin> set (toAsynqOpts [WithProcessIn 5, WithQueue ''low'', WithProcessAt (Some 9)])"
proof -
  have "is_enqueue_option fn" if "fn \<in> set [WithProcessIn 5, WithQueue ''low'']" for fn
    using that by (auto intro: is_enqueue_option.intros)
  from scheduling_exclusive [where opts = "[WithProcessIn 5, WithQueue ''low'']" and d = 5 and t = 9 and d' = 5, OF this]
  have "AProcessIn 5 \<notin> set (toAsynqOpts [WithProcessIn 5, WithQueue ''low'', WithProcessAt (Some 9)])" by simp
  then show ?thesis
    by (simp add: toAsynqOpts_def evalOptions_def enqueue_option_defs zeroOptions_def Let_def)
qed

lemma mq_each:
  assumes "enqueue_each mq_EnqueueContext ctx ts w = (rs, w')"
  shows "length rs = length ts \<and> (\<forall>k < length ts. case ctx_Err ctx (fst w) of
      Some e \<Rightarrow> rs ! k = Returned (Inl e)
    | None \<Rightarrow> \<exists>info. rs ! k = Returned (Inr info) \<and> ti_ID info = ''mem-'' @ fmt_d (int (length (mq_tasks (snd w)) + k + 1)))"
  using assms
proof (induction ts arbitrary: w rs)
  case Nil
  then show ?case by simp
next
  case (Cons t ts)
  obtain r w1 where r: "mq_EnqueueContext ctx (fst t) (snd t) w = (r, w1)" by (rule prod.exhaust)
  obtain rs' where rs: "enqueue_each mq_EnqueueContext ctx ts w1 = (rs', w')" "rs = r # rs'"
    using Cons.prems r by (auto split: prod.splits)
  have w1: "fst w1 = fst w" "ctx_Err ctx (fst w) = None \<Longrightarrow> length (mq_tasks (snd w1)) = Suc (length (mq_tasks (snd w)))"
    using r by (auto simp: mq_EnqueueContext_def mq_enqueue_def Let_def split: option.splits)
  note IH = Cons.IH [OF rs(1), unfolded w1(1)]
  show ?case
  proof (cases "ctx_Err ctx (fst w)")
    case (Some e)
    with IH rs(2) r show ?thesis by (auto simp: nth_Cons mq_EnqueueContext_def split: nat.splits)
  next
    case None
    with r obtain info where "r = Returned (Inr info)" "ti_ID info = ''mem-'' @ fmt_d (int (length (mq_tasks (snd w)) + 1))"
      by (auto simp: mq_EnqueueContext_def mq_enqueue_def Let_def)
    with None IH rs(2) w1(2) show ?thesis by (auto simp: nth_Cons split: nat.splits)
  qed
qed

text \<open>
  The in-memory queue records. After any sequence of \<open>EnqueueContext\<close> calls, \<open>Tasks\<close> holds what
  it held before followed by the accepted tasks in call order, each with its evaluated options; a
  call is refused, and then changes nothing, exactly when its context is done; every accepted task
  has a different identifier.
\<close>

theorem memqueue_records:
  assumes "enqueue_each mq_EnqueueContext ctx ts w = (rs, w')"
  shows "mq_queue w' = mq_queue w @ map (\<lambda>(t, r). (fst t, evalOptions (snd t)))
        (filter (\<lambda>(t, r). \<exists>info. r = Returned (Inr info)) (zip ts rs))
    \<and> (\<forall>r\<in>set rs. (\<exists>e. r = Returned (Inl e)) \<longleftrightarrow> ctx_Err ctx (fst w) \<noteq> None)
    \<and> (\<forall>i j a b. i < j \<longrightarrow> j < length rs \<longrightarrow> rs ! i = Returned (Inr a) \<longrightarrow> rs ! j = Returned (Inr b) \<longrightarrow> ti_ID a \<noteq> ti_ID b)"
proof -
  note each = mq_each [OF assms]
  have ret: "\<forall>r\<in>set rs. \<exists>x. r = Returned x"
    using each by (fastforce simp: in_set_conv_nth split: option.splits)
  moreover have "(\<exists>e. r = Returned (Inl e)) \<longleftrightarrow> ctx_Err ctx (fst w) \<noteq> None" if "r \<in> set rs" for r
    using each that by (cases "ctx_Err ctx (fst w)") (fastforce simp: in_set_conv_nth)+
  moreover have "ti_ID a \<noteq> ti_ID b"
    if "i < j" "j < length rs" "rs ! i = Returned (Inr a)" "rs ! j = Returned (Inr b)" for i j a b
  proof -
    have "ctx_Err ctx (fst w) = None" using each that by (cases "ctx_Err ctx (fst w)") fastforce+
    with each have "\<forall>k < length rs. \<exists>info. rs ! k = Returned (Inr info)
        \<and> ti_ID info = ''mem-'' @ fmt_d (int (length (mq_tasks (snd w)) + k + 1))" by auto
    then have "ti_ID a = ''mem-'' @ fmt_d (int (length (mq_tasks (snd w)) + i + 1))"
      "ti_ID b = ''mem-'' @ fmt_d (int (length (mq_tasks (snd w)) + j + 1))"
      using that by (fastforce dest: spec [of _ i])+
    with that(1) show ?thesis by simp
  qed
  ultimately show ?thesis using memq.each_queue [OF assms ret] by blast
qed

definition hello_task :: task where
  "hello_task = \<lparr>task_Type = ''hello'', task_Payload = ''x''\<rparr>"

theorem memqueue_records_witness:
  "\<exists>rs w'. enqueue_each mq_EnqueueContext Background [(hello_task, []), (hello_task, [WithQueue ''low''])] (0, mq_New) = (rs, w')
     \<and> length (mq_queue w') = 2 \<and> (\<forall>r\<in>set rs. \<not> (\<exists>e. r = Returned (Inl e)))"
proof -
  obtain rs w' where run: "enqueue_each mq_EnqueueContext Background [(hello_task, []), (hello_task, [WithQueue ''low''])] (0, mq_New) = (rs, w')"
    and len: "length (mq_queue w') = 2"
    by (simp add: mq_EnqueueContext_def mq_enqueue_def mq_New_def mq_queue_def mq_Tasks_def Let_def)
  from memqueue_records [OF run] run len show ?thesis by auto
qed



text \<open>
  The asynq client as an enqueuer. Over a broker that stores what it accepts, a successful
  \<open>EnqueueContext\<close> has put exactly the task with the translated options behind what was queued, and
  only after the client was ready; a failed one has queued nothing.
\<close>

theorem client_enqueues:
  assumes "asynq_broker A broker" and "\<And>t s. broker (elapse t s) = broker s"
    and "client_EnqueueContext A pick readyAt elapse ctx tsk opts w = (Returned r, w')"
  shows "case r of
      Inr info \<Rightarrow> broker (snd w') = broker (snd w) @ [(tsk, toAsynqOpts opts)] \<and> ti_Type info = task_Type tsk
        \<and> (\<exists>x. readyAt (snd w) = Some x)
    | Inl e \<Rightarrow> broker (snd w') = broker (snd w)"
proof (cases r)
  case (Inr info)
  have "\<exists>x. readyAt (snd w) = Some x"
  proof (cases "readyAt (snd w)")
    case None
    have "\<not> c \<and> (\<exists>x. ctx_Err ctx t = Some x)" if "select2 pick (fst w) None (done_time ctx) = Some (c, t)" for c t
      using that by (cases "done_time ctx") (auto simp: select2_def intro: ctx_Err_done_time)
    with None Inr assms(3) show ?thesis
      by (auto simp: client_EnqueueContext_def act_bind_def wait_ready_def WaitReady_def
          split: option.splits bool.splits)
  qed simp
  with enqueuer.enq_ok [OF asynq_broker.client_enqueuer [OF assms(1), of elapse pick readyAt, OF assms(2)] assms(3) [unfolded Inr]]
  show ?thesis using Inr by simp
next
  case (Inl e)
  with enqueuer.enq_err [OF asynq_broker.client_enqueuer [OF assms(1), of elapse pick readyAt, OF assms(2)] assms(3) [unfolded Inl]]
  show ?thesis by simp
qed

theorem client_enqueues_witness:
  "\<exists>info w'. client_EnqueueContext (ref_asynq 0) True (\<lambda>s. Some 5) (\<lambda>t s. s) Background hello_task [WithMaxRetry 3] (0, [])
       = (Returned (Inr info), w') \<and> snd w' = [(hello_task, [AMaxRetry 3])]"
proof -
  obtain info w' where run: "client_EnqueueContext (ref_asynq 0) True (\<lambda>s. Some 5) (\<lambda>t s. s) Background hello_task [WithMaxRetry 3] (0, [])
       = (Returned (Inr info), w')"
    by (simp add: client_EnqueueContext_def act_bind_def wait_ready_def WaitReady_def select2_def done_time_def
        Background_def ref_asynq_def sent_def ctx_Err_def)
  from client_enqueues [OF refq.asynq_broker_axioms refl run] run show ?thesis
    by (simp add: toAsynqOpts_def evalOptions_def WithMaxRetry_def zeroOptions_def Let_def)
qed

end
