(* ===== verification/JsonString.thy ===== *)
theory JsonString
  imports GoPrelude
begin

text \<open>
  Strings as encoding/json reads and writes them: UTF-8 as in unicode/utf8, the scanner inside a
  string with its errors, unquoting and quoting. Strings are byte strings. A valid string that was
  quoted is scanned up to its closing quote and unquotes to itself.
\<close>

section \<open>UTF-8\<close>

text \<open>
  Runes are code points. \<open>decode_rune\<close> is \<open>utf8.DecodeRune\<close>: the first rune and the number of bytes it
  takes, or the replacement character and 1 for bytes that are not valid.
\<close>

abbreviation byte_val :: "char \<Rightarrow> nat" where
  "byte_val c \<equiv> of_char c"

definition rune_error :: nat where
  "rune_error = 65533"

definition valid_rune :: "nat \<Rightarrow> bool" where
  "valid_rune r \<longleftrightarrow> r < 55296 \<or> 57344 \<le> r \<and> r < 1114112"

definition in_range :: "nat \<Rightarrow> nat \<Rightarrow> char \<Rightarrow> bool" where
  "in_range lo hi c \<longleftrightarrow> lo \<le> byte_val c \<and> byte_val c \<le> hi"

fun decode_rune :: "string \<Rightarrow> nat \<times> nat" where
  "decode_rune [] = (rune_error, 0)"
| "decode_rune (c # cs) =
     (let b = byte_val c in
      if b < 128 then (b, 1)
      else if 194 \<le> b \<and> b \<le> 223 then
        (case cs of
           c1 # _ \<Rightarrow> if in_range 128 191 c1 then ((b - 192) * 64 + (byte_val c1 - 128), 2) else (rune_error, 1)
         | _ \<Rightarrow> (rune_error, 1))
      else if 224 \<le> b \<and> b \<le> 239 then
        (case cs of
           c1 # c2 # _ \<Rightarrow>
             if in_range (if b = 224 then 160 else 128) (if b = 237 then 159 else 191) c1 \<and> in_range 128 191 c2
             then ((b - 224) * 4096 + (byte_val c1 - 128) * 64 + (byte_val c2 - 128), 3) else (rune_error, 1)
         | _ \<Rightarrow> (rune_error, 1))
      else if 240 \<le> b \<and> b \<le> 244 then
        (case cs of
           c1 # c2 # c3 # _ \<Rightarrow>
             if in_range (if b = 240 then 144 else 128) (if b = 244 then 143 else 191) c1 \<and> in_range 128 191 c2 \<and> in_range 128 191 c3
             then ((b - 240) * 262144 + (byte_val c1 - 128) * 4096 + (byte_val c2 - 128) * 64 + (byte_val c3 - 128), 4)
             else (rune_error, 1)
         | _ \<Rightarrow> (rune_error, 1))
      else (rune_error, 1))"

definition encode_rune :: "nat \<Rightarrow> string" where
  "encode_rune r' =
     (let r = (if valid_rune r' then r' else rune_error) in
      if r < 128 then [char_of r]
      else if r < 2048 then [char_of (192 + r div 64), char_of (128 + r mod 64)]
      else if r < 65536 then [char_of (224 + r div 4096), char_of (128 + r div 64 mod 64), char_of (128 + r mod 64)]
      else [char_of (240 + r div 262144), char_of (128 + r div 4096 mod 64), char_of (128 + r div 64 mod 64), char_of (128 + r mod 64)])"

lemma rune_digits2:
  obtains a b where "(r :: nat) = a * 64 + b" "b < 64" "r div 64 = a" "r mod 64 = b"
  by (rule that [of "r div 64" "r mod 64"]) simp_all

lemma rune_digits3:
  obtains a b c where "(r :: nat) = a * 4096 + b * 64 + c" "b < 64" "c < 64" "r div 4096 = a" "r div 64 mod 64 = b" "r mod 64 = c"
proof -
  obtain q c where q: "r = q * 64 + c" "c < 64" "r div 64 = q" "r mod 64 = c" by (rule rune_digits2)
  obtain a b where "q = a * 64 + b" "b < 64" "q div 64 = a" "q mod 64 = b" by (rule rune_digits2)
  with q that [of a b c] show thesis by (simp add: div_mult2_eq [of r 64 64, simplified])
qed

lemma rune_digits4:
  obtains a b c d where "(r :: nat) = a * 262144 + b * 4096 + c * 64 + d" "b < 64" "c < 64" "d < 64"
    "r div 262144 = a" "r div 4096 mod 64 = b" "r div 64 mod 64 = c" "r mod 64 = d"
proof -
  obtain q c d where q: "r = q * 4096 + c * 64 + d" "c < 64" "d < 64" "r div 4096 = q" "r div 64 mod 64 = c" "r mod 64 = d" by (rule rune_digits3)
  obtain a b where "q = a * 64 + b" "b < 64" "q div 64 = a" "q mod 64 = b" by (rule rune_digits2)
  with q that [of a b c d] show thesis by (simp add: div_mult2_eq [of r 4096 64, simplified])
qed

lemma decode_encode:
  assumes "valid_rune r"
  shows "decode_rune (encode_rune r @ s) = (r, length (encode_rune r))"
proof -
  consider "r < 128" | "128 \<le> r" "r < 2048" | "2048 \<le> r" "r < 65536" | "65536 \<le> r" "r < 1114112"
    using assms by (fastforce simp: valid_rune_def)
  then show ?thesis
  proof cases
    case 1
    with assms show ?thesis by (simp add: encode_rune_def)
  next
    case 2
    obtain a b where d: "r = a * 64 + b" "b < 64" "r div 64 = a" "r mod 64 = b" by (rule rune_digits2)
    with 2 have "2 \<le> a" "a < 32" by simp_all
    with 2 assms d show ?thesis by (simp add: encode_rune_def in_range_def)
  next
    case 3
    obtain a b c where d: "r = a * 4096 + b * 64 + c" "b < 64" "c < 64" "r div 4096 = a" "r div 64 mod 64 = b" "r mod 64 = c"
      by (rule rune_digits3)
    with 3 have "a < 16" "a = 0 \<Longrightarrow> 32 \<le> b" by simp_all
    moreover have "a = 13 \<Longrightarrow> b \<le> 31" using assms d 3 by (auto simp: valid_rune_def)
    ultimately show ?thesis using 3 assms d by (simp add: encode_rune_def in_range_def)
  next
    case 4
    obtain a b c e where d: "r = a * 262144 + b * 4096 + c * 64 + e" "b < 64" "c < 64" "e < 64"
      "r div 262144 = a" "r div 4096 mod 64 = b" "r div 64 mod 64 = c" "r mod 64 = e" by (rule rune_digits4)
    with 4 have "a < 5" "a = 0 \<Longrightarrow> 16 \<le> b" "a = 4 \<Longrightarrow> b < 16" by simp_all
    then show ?thesis using 4 assms d by (simp add: encode_rune_def in_range_def)
  qed
qed

text \<open>Conversely, bytes that decode to a rune are the encoding of that rune.\<close>

lemma byte_eq: "byte_val c = n \<Longrightarrow> char_of n = c"
  using char_of_char [of c, where 'a = nat] by simp

lemma in_rangeD: "in_range lo hi c \<Longrightarrow> 128 \<le> lo \<Longrightarrow> hi \<le> 191 \<Longrightarrow> \<exists>d < 64. byte_val c = 128 + d \<and> lo \<le> 128 + d \<and> 128 + d \<le> hi"
  by (rule exI [of _ "byte_val c - 128"]) (auto simp: in_range_def)

lemma encode_join2: "2 \<le> a \<Longrightarrow> a < 32 \<Longrightarrow> b < 64 \<Longrightarrow> encode_rune (a * 64 + b) = [char_of (192 + a), char_of (128 + b)]"
  by (simp add: encode_rune_def valid_rune_def Let_def)

lemma join64:
  "(c :: nat) < 64 \<Longrightarrow> (q * 64 + c) div 64 = q" "c < 64 \<Longrightarrow> (q * 64 + c) mod 64 = c"
  by simp_all

lemma join4096:
  assumes "(b :: nat) < 64" "c < 64"
  shows "(q * 4096 + b * 64 + c) div 4096 = q" "(q * 4096 + b * 64 + c) div 64 mod 64 = b" "(q * 4096 + b * 64 + c) mod 64 = c"
proof -
  have e: "q * 4096 + b * 64 + c = (q * 64 + b) * 64 + c" by simp
  show "(q * 4096 + b * 64 + c) div 4096 = q" "(q * 4096 + b * 64 + c) div 64 mod 64 = b" "(q * 4096 + b * 64 + c) mod 64 = c"
    unfolding div_mult2_eq [of _ 64 64, simplified] e using assms by (simp_all only: join64)
qed

lemma encode_join3:
  assumes "a < 16" "b < 64" "c < 64" "a = 0 \<Longrightarrow> 32 \<le> b" "a = 13 \<Longrightarrow> b \<le> 31"
  shows "valid_rune (a * 4096 + b * 64 + c)" "encode_rune (a * 4096 + b * 64 + c) = [char_of (224 + a), char_of (128 + b), char_of (128 + c)]"
proof -
  let ?r = "a * 4096 + b * 64 + c"
  show v: "valid_rune ?r" using assms by (cases "a < 13"; cases "a = 13") (auto simp: valid_rune_def)
  have "\<not> ?r < 2048" "?r < 65536" using assms by (cases "a = 0"; auto)+
  moreover have "?r div 4096 = a" "?r div 64 mod 64 = b" "?r mod 64 = c" using join4096 [OF assms(2,3)] by simp_all
  ultimately show "encode_rune ?r = [char_of (224 + a), char_of (128 + b), char_of (128 + c)]"
    using v by (simp add: encode_rune_def Let_def)
qed

lemma encode_join4:
  assumes "a < 5" "b < 64" "c < 64" "d < 64" "a = 0 \<Longrightarrow> 16 \<le> b" "a = 4 \<Longrightarrow> b \<le> 15"
  shows "valid_rune (a * 262144 + b * 4096 + c * 64 + d)"
    "encode_rune (a * 262144 + b * 4096 + c * 64 + d) = [char_of (240 + a), char_of (128 + b), char_of (128 + c), char_of (128 + d)]"
proof -
  let ?r = "a * 262144 + b * 4096 + c * 64 + d"
  have r: "\<not> ?r < 65536" "?r < 1114112" using assms by (cases "a = 0"; cases "a = 4"; auto)+
  then show v: "valid_rune ?r" by (simp add: valid_rune_def)
  have e: "?r = (a * 64 + b) * 4096 + c * 64 + d" by simp
  have "?r div 262144 = a" "?r div 4096 mod 64 = b" "?r div 64 mod 64 = c" "?r mod 64 = d"
    unfolding div_mult2_eq [of _ 4096 64, simplified] e join4096 [OF assms(3,4)] by (simp_all only: join64 assms)
  with r v show "encode_rune ?r = [char_of (240 + a), char_of (128 + b), char_of (128 + c), char_of (128 + d)]"
    by (simp add: encode_rune_def Let_def)
qed

lemma decode_valid:
  assumes "decode_rune s = (r, n)" and "\<not> (r = rune_error \<and> n \<le> 1)"
  shows "valid_rune r \<and> n = length (encode_rune r) \<and> s = encode_rune r @ drop n s"
proof (cases s)
  case Nil
  with assms show ?thesis by simp
next
  case (Cons c cs)
  let ?b = "byte_val c"
  consider "?b < 128" | c1 t where "194 \<le> ?b" "?b \<le> 223" "cs = c1 # t" "in_range 128 191 c1"
    | c1 c2 t where "224 \<le> ?b" "?b \<le> 239" "cs = c1 # c2 # t"
        "in_range (if ?b = 224 then 160 else 128) (if ?b = 237 then 159 else 191) c1" "in_range 128 191 c2"
    | c1 c2 c3 t where "240 \<le> ?b" "?b \<le> 244" "cs = c1 # c2 # c3 # t"
        "in_range (if ?b = 240 then 144 else 128) (if ?b = 244 then 143 else 191) c1" "in_range 128 191 c2" "in_range 128 191 c3"
    using assms Cons by (auto simp: Let_def split: if_splits list.splits)
  then show ?thesis
  proof cases
    case 1
    with assms Cons have "r = ?b" "n = 1" by auto
    with 1 Cons show ?thesis by (simp add: valid_rune_def encode_rune_def byte_eq)
  next
    case (2 c1 t)
    obtain b1 where b1: "b1 < 64" "byte_val c1 = 128 + b1" using in_rangeD [OF 2(4)] by auto
    obtain a where a: "?b = 192 + a" using 2(1) that [of "?b - 192"] by simp
    have "r = a * 64 + b1" "n = 2" using assms(1) Cons 2 a b1 by auto
    with encode_join2 [of a b1] a b1 2 Cons show ?thesis
      by (simp add: byte_eq valid_rune_def)
  next
    case (3 c1 c2 t)
    have "\<exists>d < 64. byte_val c1 = 128 + d \<and> (if ?b = 224 then 160 else 128) \<le> 128 + d \<and> 128 + d \<le> (if ?b = 237 then 159 else 191)"
      by (rule in_rangeD [OF 3(4)]) simp_all
    then obtain b1 where b1: "b1 < 64" "byte_val c1 = 128 + b1" "(if ?b = 224 then 160 else 128) \<le> 128 + b1"
      "128 + b1 \<le> (if ?b = 237 then 159 else 191)" by blast
    obtain b2 where b2: "b2 < 64" "byte_val c2 = 128 + b2" using in_rangeD [OF 3(5)] by auto
    obtain a where a: "?b = 224 + a" using 3(1) that [of "?b - 224"] by simp
    have r: "r = a * 4096 + b1 * 64 + b2" "n = 3" using assms(1) Cons 3 a b1 b2 by auto
    have "a < 16" "a = 0 \<Longrightarrow> 32 \<le> b1" "a = 13 \<Longrightarrow> b1 \<le> 31" using a 3(2) b1 by auto
    from encode_join3 [of a b1 b2, OF this(1) b1(1) b2(1) this(2,3)] r a b1 b2 3 Cons show ?thesis by (simp add: byte_eq)
  next
    case (4 c1 c2 c3 t)
    have "\<exists>d < 64. byte_val c1 = 128 + d \<and> (if ?b = 240 then 144 else 128) \<le> 128 + d \<and> 128 + d \<le> (if ?b = 244 then 143 else 191)"
      by (rule in_rangeD [OF 4(4)]) simp_all
    then obtain b1 where b1: "b1 < 64" "byte_val c1 = 128 + b1" "(if ?b = 240 then 144 else 128) \<le> 128 + b1"
      "128 + b1 \<le> (if ?b = 244 then 143 else 191)" by blast
    obtain b2 where b2: "b2 < 64" "byte_val c2 = 128 + b2" using in_rangeD [OF 4(5)] by auto
    obtain b3 where b3: "b3 < 64" "byte_val c3 = 128 + b3" using in_rangeD [OF 4(6)] by auto
    obtain a where a: "?b = 240 + a" using 4(1) that [of "?b - 240"] by simp
    have r: "r = a * 262144 + b1 * 4096 + b2 * 64 + b3" "n = 4" using assms(1) Cons 4 a b1 b2 b3 by auto
    have "a < 5" "a = 0 \<Longrightarrow> 16 \<le> b1" "a = 4 \<Longrightarrow> b1 \<le> 15" using a 4(2) b1 by auto
    from encode_join4 [of a b1 b2 b3, OF this(1) b1(1) b2(1) b3(1) this(2,3)] r a b1 b2 b3 4 Cons show ?thesis by (simp add: byte_eq)
  qed
qed

text \<open>\<open>utf8.ValidString\<close>, and induction over the runes of a valid string.\<close>

lemma decode_pos: "0 < snd (decode_rune (c # cs))"
  by (simp add: Let_def split: list.split)

lemma decode_shorter: "(r, n) = decode_rune (c # cs) \<Longrightarrow> Suc (length cs) - n < Suc (length cs)"
  using decode_pos [of c cs] by (cases "decode_rune (c # cs)") (auto simp del: decode_rune.simps)

function valid_utf8 :: "string \<Rightarrow> bool" where
  "valid_utf8 [] = True"
| "valid_utf8 (c # cs) =
     (case decode_rune (c # cs) of (r, n) \<Rightarrow> \<not> (r = rune_error \<and> n = 1) \<and> valid_utf8 (drop n (c # cs)))"
  by pat_completeness auto
termination by (relation "measure length") (auto simp del: decode_rune.simps dest: decode_shorter)

lemma encode_nonempty [simp]: "encode_rune r \<noteq> []"
  by (simp add: encode_rune_def Let_def)

lemma valid_utf8_encode:
  assumes "valid_rune r"
  shows "valid_utf8 (encode_rune r @ s) = valid_utf8 s"
proof -
  obtain c cs where c: "encode_rune r = c # cs" by (cases "encode_rune r") simp_all
  have d: "decode_rune (c # cs @ s) = (r, length (c # cs))" using decode_encode [OF assms, of s] c by simp
  have "\<not> (r = rune_error \<and> length (c # cs) = 1)" using c by (auto simp: encode_rune_def rune_error_def valid_rune_def)
  with d show ?thesis by (simp add: c del: decode_rune.simps)
qed

lemma utf8_induct [consumes 1, case_names Nil Rune]:
  assumes "valid_utf8 s" and "P []" and "\<And>r s. valid_rune r \<Longrightarrow> valid_utf8 s \<Longrightarrow> P s \<Longrightarrow> P (encode_rune r @ s)"
  shows "P s"
  using assms(1)
proof (induction s rule: valid_utf8.induct)
  case (2 c cs)
  obtain r n where d: "decode_rune (c # cs) = (r, n)" by (metis prod.exhaust)
  have v: "\<not> (r = rune_error \<and> n = 1)" "valid_utf8 (drop n (c # cs))" using "2.prems" d by (simp_all del: decode_rune.simps)
  then have "\<not> (r = rune_error \<and> n \<le> 1)" using decode_pos [of c cs] d by (auto simp del: decode_rune.simps simp: le_Suc_eq)
  from decode_valid [OF d this] have e: "valid_rune r" "c # cs = encode_rune r @ drop n (c # cs)" by blast+
  have "P (drop n (c # cs))" by (rule "2.IH" [OF d [symmetric] v(2)])
  from assms(3) [OF e(1) v(2) this] e(2) show ?case by simp
qed (rule assms(2))

section \<open>Strings\<close>

abbreviation dq :: char where "dq \<equiv> CHR 0x22"

abbreviation bs :: char where "bs \<equiv> CHR 0x5C"

text \<open>
  The scanner's errors: a byte that cannot continue the text and what was read at that moment, or the
  end of the input, in the middle of what the text says or between two parts of a value.
\<close>

datatype json_err = JSyntax char string | JEnd "string option"

definition hex_char :: "nat \<Rightarrow> char" where
  "hex_char n = (if n < 10 then char_of (48 + n) else char_of (87 + n))"

definition hex_val :: "char \<Rightarrow> nat option" where
  "hex_val c =
     (let b = byte_val c in
      if 48 \<le> b \<and> b \<le> 57 then Some (b - 48)
      else if 97 \<le> b \<and> b \<le> 102 then Some (b - 87)
      else if 65 \<le> b \<and> b \<le> 70 then Some (b - 55) else None)"

definition esc_ctx :: string where
  "esc_ctx = ''in string escape code''"

definition hex_ctx :: string where
  "hex_ctx = ''in '' @ [bs] @ ''u hexadecimal character escape''"

fun bad_hex :: "nat \<Rightarrow> string \<Rightarrow> json_err option" where
  "bad_hex 0 s = None"
| "bad_hex (Suc n) [] = Some (JEnd (Some hex_ctx))"
| "bad_hex (Suc n) (h # hs) = (if hex_val h = None then Some (JSyntax h hex_ctx) else bad_hex n hs)"

text \<open>
  The scanner inside a string, after the opening quote: the bytes up to the closing quote, still
  quoted, and the rest of the input.
\<close>

definition scanned :: "string \<Rightarrow> json_err + string \<times> string \<Rightarrow> json_err + string \<times> string" where
  "scanned pre r = (case r of Inl e \<Rightarrow> Inl e | Inr (x, rest) \<Rightarrow> Inr (pre @ x, rest))"

function scan_str :: "string \<Rightarrow> json_err + string \<times> string" where
  "scan_str [] = Inl (JEnd None)"
| "scan_str (c # cs) =
     (if c = dq then Inr ([], cs)
      else if c = bs then
        (case cs of
           [] \<Rightarrow> Inl (JEnd (Some esc_ctx))
         | e # es \<Rightarrow>
             if e \<in> set (''bfnrt/'' @ [bs, dq]) then scanned [c, e] (scan_str es)
             else if e = CHR ''u'' then
               (case bad_hex 4 es of
                  Some err \<Rightarrow> Inl err
                | None \<Rightarrow> scanned (c # e # take 4 es) (scan_str (drop 4 es)))
             else Inl (JSyntax e esc_ctx))
      else if byte_val c < 32 then Inl (JSyntax c ''in string literal'')
      else scanned [c] (scan_str cs))"
  by pat_completeness auto
termination by (relation "measure length") auto

text \<open>\<open>unquote\<close> of the scanned bytes of a string (on others Go reports a failure).\<close>

definition getu4 :: "string \<Rightarrow> nat option" where
  "getu4 s =
     (case s of
        a # b # c # d # _ \<Rightarrow>
          (case (hex_val a, hex_val b, hex_val c, hex_val d) of
             (Some p, Some q, Some r, Some t) \<Rightarrow> Some (p * 4096 + q * 256 + r * 16 + t)
           | _ \<Rightarrow> None)
      | _ \<Rightarrow> None)"

definition surrogate_pair :: "nat \<Rightarrow> string \<Rightarrow> nat option" where
  "surrogate_pair rr s =
     (case s of
        b # u # s' \<Rightarrow>
          if b = bs \<and> u = CHR ''u'' then
            (case getu4 s' of
               Some r1 \<Rightarrow> if rr < 56320 \<and> 56320 \<le> r1 \<and> r1 < 57344 then Some ((rr - 55296) * 1024 + (r1 - 56320) + 65536) else None
             | None \<Rightarrow> None)
          else None
      | _ \<Rightarrow> None)"

definition unescape :: "char \<Rightarrow> char option" where
  "unescape e =
     (if e = CHR ''b'' then Some (CHR 0x08) else if e = CHR ''f'' then Some (CHR 0x0C)
      else if e = CHR ''n'' then Some (CHR 0x0A) else if e = CHR ''r'' then Some (CHR 0x0D)
      else if e = CHR ''t'' then Some (CHR 0x09)
      else if e = dq \<or> e = bs \<or> e = CHR ''/'' then Some e else None)"

function unquote :: "string \<Rightarrow> string" where
  "unquote [] = []"
| "unquote (c # cs) =
     (if c = bs then
        (case cs of
           [] \<Rightarrow> []
         | e # es \<Rightarrow>
             if e = CHR ''u'' then
               (case getu4 es of
                  None \<Rightarrow> []
                | Some rr \<Rightarrow>
                    if 55296 \<le> rr \<and> rr < 57344 then
                      (case surrogate_pair rr (drop 4 es) of
                         Some r \<Rightarrow> encode_rune r @ unquote (drop 10 es)
                       | None \<Rightarrow> encode_rune rune_error @ unquote (drop 4 es))
                    else encode_rune rr @ unquote (drop 4 es))
             else (case unescape e of Some x \<Rightarrow> x # unquote es | None \<Rightarrow> []))
      else if byte_val c < 128 then c # unquote cs
      else (case decode_rune (c # cs) of (r, n) \<Rightarrow> encode_rune r @ unquote (drop n (c # cs))))"
  by pat_completeness auto
termination by (relation "measure length") (auto simp del: decode_rune.simps dest: decode_shorter)

text \<open>
  The encoder's quoting, with the HTML-safe escapes that \<open>Marshal\<close> and \<open>Encoder\<close> use by default.
\<close>

definition esc_byte :: "char \<Rightarrow> string" where
  "esc_byte c =
     (if c = bs \<or> c = dq then [bs, c]
      else if c = CHR 0x08 then [bs, CHR ''b''] else if c = CHR 0x0C then [bs, CHR ''f'']
      else if c = CHR 0x0A then [bs, CHR ''n''] else if c = CHR 0x0D then [bs, CHR ''r'']
      else if c = CHR 0x09 then [bs, CHR ''t'']
      else if byte_val c < 32 \<or> c \<in> set ''<>&''
      then [bs, CHR ''u'', CHR ''0'', CHR ''0'', hex_char (byte_val c div 16), hex_char (byte_val c mod 16)]
      else [c])"

function enc_chars :: "string \<Rightarrow> string" where
  "enc_chars [] = []"
| "enc_chars (c # cs) =
     (if byte_val c < 128 then esc_byte c @ enc_chars cs
      else case decode_rune (c # cs) of (r, n) \<Rightarrow>
        if r = rune_error \<and> n = 1 then bs # ''ufffd'' @ enc_chars cs
        else if r = 8232 \<or> r = 8233 then bs # ''u202'' @ [hex_char (r mod 16)] @ enc_chars (drop n (c # cs))
        else take n (c # cs) @ enc_chars (drop n (c # cs)))"
  by pat_completeness auto
termination by (relation "measure length") (auto simp del: decode_rune.simps dest: decode_shorter)

lemma hex_val_char [simp]: "n < 16 \<Longrightarrow> hex_val (hex_char n) = Some n"
  by (auto simp: hex_val_def hex_char_def Let_def)

lemma byte_split: "byte_val c < 128 \<Longrightarrow> byte_val c div 16 < 16"
  by simp

lemma scanned_simps [simp]: "scanned pre (Inl e) = Inl e" "scanned pre (Inr (x, rest)) = Inr (pre @ x, rest)"
  by (simp_all add: scanned_def)

lemma bad_hex_codes: "\<forall>h \<in> set hs. hex_val h \<noteq> None \<Longrightarrow> bad_hex (length hs) (hs @ s) = None"
  by (induction hs) auto

lemma scan_hex4:
  assumes "hex_val a \<noteq> None" "hex_val b \<noteq> None" "hex_val c \<noteq> None" "hex_val d \<noteq> None"
  shows "scan_str (bs # CHR ''u'' # a # b # c # d # s) = scanned [bs, CHR ''u'', a, b, c, d] (scan_str s)"
  using assms bad_hex_codes [of "[a, b, c, d]" s] by (simp add: eval_nat_numeral)

lemma scan_esc_byte:
  assumes "byte_val c < 128"
  shows "scan_str (esc_byte c @ s) = scanned (esc_byte c) (scan_str s)"
proof -
  have "hex_val (CHR ''0'') \<noteq> None" by (simp add: hex_val_def)
  moreover have "hex_val (hex_char (byte_val c div 16)) \<noteq> None" "hex_val (hex_char (byte_val c mod 16)) \<noteq> None"
    using assms by simp_all
  ultimately show ?thesis
    using scan_hex4 [of "CHR ''0''" "CHR ''0''" "hex_char (byte_val c div 16)" "hex_char (byte_val c mod 16)" s] assms
    by (auto simp: esc_byte_def)
qed

lemma scan_high: "\<forall>c \<in> set hs. 128 \<le> byte_val c \<Longrightarrow> scan_str (hs @ s) = scanned hs (scan_str s)"
proof (induction hs)
  case Nil
  then show ?case by (cases "scan_str s") (auto simp: scanned_def)
next
  case (Cons c hs)
  then have "c \<noteq> dq" "c \<noteq> bs" "\<not> byte_val c < 32" by auto
  with Cons show ?case by (cases "scan_str s") (auto simp: scanned_def)
qed

lemma high_rune: "128 \<le> r \<Longrightarrow> valid_rune r \<Longrightarrow> \<forall>c \<in> set (encode_rune r). 128 \<le> byte_val c"
proof -
  assume r: "128 \<le> r" "valid_rune r"
  have "192 + r div 64 < 256" if "r < 2048" using that by linarith
  moreover have "224 + r div 4096 < 256" if "r < 65536" using that by linarith
  moreover have "240 + r div 262144 < 256" using r by (auto simp: valid_rune_def)
  moreover have "128 + n mod 64 < 256" for n :: nat by linarith
  ultimately show ?thesis using r by (auto simp: encode_rune_def Let_def)
qed

text \<open>How one rune is quoted.\<close>

definition enc_rune :: "nat \<Rightarrow> string" where
  "enc_rune r =
     (if r < 128 then esc_byte (char_of r)
      else if r = 8232 \<or> r = 8233 then bs # ''u202'' @ [hex_char (r mod 16)] else encode_rune r)"

lemma encode_low: "r < 128 \<Longrightarrow> encode_rune r = [char_of r]"
  by (simp add: encode_rune_def valid_rune_def)

lemma encode_high:
  assumes "valid_rune r" "128 \<le> r"
  obtains c cs where "encode_rune r = c # cs" "\<not> byte_val c < 128" "decode_rune (c # cs @ s) = (r, length (c # cs))" "cs \<noteq> []"
proof -
  obtain c cs where c: "encode_rune r = c # cs" by (cases "encode_rune r") simp_all
  moreover have "cs \<noteq> []" using c assms by (auto simp: encode_rune_def Let_def split: if_splits)
  ultimately show thesis using that [of c cs] high_rune [OF assms(2,1)] decode_encode [OF assms(1), of s] by auto
qed

lemma enc_chars_rune:
  assumes "valid_rune r"
  shows "enc_chars (encode_rune r @ s) = enc_rune r @ enc_chars s"
proof (cases "r < 128")
  case True
  then show ?thesis by (simp add: encode_low enc_rune_def)
next
  case False
  obtain c cs where c: "encode_rune r = c # cs" "\<not> byte_val c < 128" "decode_rune (c # cs @ s) = (r, length (c # cs))" "cs \<noteq> []"
    using encode_high [OF assms] False by (metis not_less)
  then show ?thesis using False by (simp add: enc_rune_def del: decode_rune.simps)
qed

lemma scan_enc_rune:
  assumes "valid_rune r"
  shows "scan_str (enc_rune r @ s) = scanned (enc_rune r) (scan_str s)"
proof -
  have h: "hex_val (CHR ''2'') \<noteq> None" "hex_val (CHR ''0'') \<noteq> None" "hex_val (hex_char (r mod 16)) \<noteq> None"
    using hex_val_char [of "r mod 16"] by (simp_all add: hex_val_def)
  consider "r < 128" | "r = 8232 \<or> r = 8233" | "128 \<le> r" "\<not> (r = 8232 \<or> r = 8233)" by linarith
  then show ?thesis
  proof cases
    case 1
    then show ?thesis using scan_esc_byte [of "char_of r" s] by (simp add: enc_rune_def)
  next
    case 2
    with scan_hex4 [OF h(1,2,1,3), of s] show ?thesis by (auto simp: enc_rune_def)
  next
    case 3
    then show ?thesis using scan_high [OF high_rune [OF _ assms], of s] by (simp add: enc_rune_def)
  qed
qed

lemma scan_enc_chars:
  assumes "valid_utf8 s"
  shows "scan_str (enc_chars s @ dq # rest) = Inr (enc_chars s, rest)"
  using assms by (induction s rule: utf8_induct) (simp_all add: enc_chars_rune scan_enc_rune)

lemma unquote_hex4:
  assumes "hex_val a = Some p" "hex_val b = Some q" "hex_val c = Some r" "hex_val d = Some t"
    and "\<not> (55296 \<le> p * 4096 + q * 256 + r * 16 + t \<and> p * 4096 + q * 256 + r * 16 + t < 57344)"
  shows "unquote (bs # CHR ''u'' # a # b # c # d # s) = encode_rune (p * 4096 + q * 256 + r * 16 + t) @ unquote s"
proof -
  have g: "getu4 (a # b # c # d # s) = Some (p * 4096 + q * 256 + r * 16 + t)" using assms(1-4) by (simp add: getu4_def)
  show ?thesis by (subst unquote.simps) (simp only: g assms(5) if_True if_False list.case option.case drop_Cons_numeral drop_0 simp_thms, simp)
qed

lemma unquote_esc_byte:
  assumes "byte_val c < 128"
  shows "unquote (esc_byte c @ s) = c # unquote s"
proof -
  let ?p = "byte_val c div 16" and ?q = "byte_val c mod 16"
  have h: "hex_val (hex_char ?p) = Some ?p" "hex_val (hex_char ?q) = Some ?q" "hex_val (CHR ''0'') = Some 0"
    using assms hex_val_char [of ?p] hex_val_char [of ?q] by simp_all (simp add: hex_val_def)
  have n: "0 * 4096 + 0 * 256 + ?p * 16 + ?q = byte_val c" by simp
  from unquote_hex4 [OF h(3,3,1,2), of s] assms
  have "unquote (bs # CHR ''u'' # CHR ''0'' # CHR ''0'' # hex_char ?p # hex_char ?q # s) = c # unquote s"
    unfolding n by (simp add: encode_low)
  then show ?thesis using assms by (simp add: esc_byte_def unescape_def)
qed

lemma unquote_enc_rune:
  assumes "valid_rune r"
  shows "unquote (enc_rune r @ s) = encode_rune r @ unquote s"
proof -
  consider "r < 128" | "r = 8232 \<or> r = 8233" | "128 \<le> r" "\<not> (r = 8232 \<or> r = 8233)" by linarith
  then show ?thesis
  proof cases
    case 1
    then show ?thesis using unquote_esc_byte [of "char_of r" s] by (simp add: enc_rune_def encode_low)
  next
    case 2
    have "hex_val (CHR ''2'') = Some 2" "hex_val (CHR ''0'') = Some 0" by (simp_all add: hex_val_def)
    from 2 unquote_hex4 [OF this(1,2,1) hex_val_char [of "r mod 16"], of s] show ?thesis by (auto simp: enc_rune_def)
  next
    case 3
    obtain c cs where c: "encode_rune r = c # cs" "\<not> byte_val c < 128" "decode_rune (c # cs @ s) = (r, length (c # cs))" "cs \<noteq> []"
      using encode_high [OF assms 3(1)] by metis
    then have "c \<noteq> bs" by auto
    with c 3 show ?thesis by (simp add: enc_rune_def del: decode_rune.simps)
  qed
qed

lemma unquote_enc_chars: "valid_utf8 s \<Longrightarrow> unquote (enc_chars s) = s"
  by (induction s rule: utf8_induct) (simp_all add: enc_chars_rune unquote_enc_rune)

text \<open>Whatever was scanned, unquoting gives valid UTF-8.\<close>

lemma valid_utf8_append: "valid_utf8 s \<Longrightarrow> valid_utf8 t \<Longrightarrow> valid_utf8 (s @ t)"
  by (induction s rule: utf8_induct) (simp_all add: valid_utf8_encode)

lemma valid_utf8_rune: "valid_utf8 s \<Longrightarrow> valid_utf8 (encode_rune r @ s)"
proof (cases "valid_rune r")
  case False
  moreover have v: "valid_rune rune_error" by (simp add: valid_rune_def rune_error_def)
  ultimately have "encode_rune r = encode_rune rune_error" by (simp only: encode_rune_def if_True if_False)
  moreover note v
  ultimately show "valid_utf8 s \<Longrightarrow> ?thesis" by (simp add: valid_utf8_encode)
qed (simp add: valid_utf8_encode)

lemma valid_utf8_byte: "byte_val c < 128 \<Longrightarrow> valid_utf8 (c # s) = valid_utf8 s"
  by (simp add: rune_error_def)

lemma unescape_ascii: "unescape e = Some x \<Longrightarrow> byte_val x < 128"
proof -
  assume "unescape e = Some x"
  then have "x \<in> {CHR 0x08, CHR 0x0C, CHR 0x0A, CHR 0x0D, CHR 0x09, dq, bs, CHR ''/''}"
    by (simp add: unescape_def split: if_split_asm)
  then show ?thesis by (elim insertE emptyE) simp_all
qed

lemma valid_utf8_unquote: "valid_utf8 (unquote s)"
proof (induction s rule: measure_induct_rule [where f = length])
  case (less s)
  show ?case
  proof (cases s)
    case (Cons c cs)
    have IH: "valid_utf8 (unquote t)" if "length t \<le> length cs" for t using less [of t] Cons that by simp
    obtain r n where d: "decode_rune (c # cs) = (r, n)" by (metis prod.exhaust)
    have sh: "length (drop n (c # cs)) \<le> length cs" using decode_shorter [OF d [symmetric]] by simp
    note s = Cons unquote.simps(2) d
    consider "c = bs" "cs = []" | e es where "c = bs" "cs = e # es" | "c \<noteq> bs" "byte_val c < 128" | "c \<noteq> bs" "\<not> byte_val c < 128"
      by (cases cs) auto
    then show ?thesis
    proof cases
      case (2 e es)
      have IH2: "valid_utf8 (unquote (drop k es))" for k using IH [of "drop k es"] 2 by simp
      then have "valid_utf8 (unquote es)" by (metis drop_0)
      with 2 IH2 show ?thesis
        unfolding s(1,2)
        by (auto simp: valid_utf8_byte unescape_ascii simp del: decode_rune.simps unquote.simps valid_utf8.simps(2)
            split: option.split intro!: valid_utf8_rune)
    next
      case 4
      then show ?thesis using IH [OF sh] unfolding s by (simp add: valid_utf8_rune del: drop_Cons' unquote.simps(2))
    qed (use IH in \<open>simp_all add: s(1) valid_utf8_byte del: decode_rune.simps valid_utf8.simps(2)\<close>)
  qed simp
qed

lemma valid_ascii: "\<forall>c \<in> set s. byte_val c < 128 \<Longrightarrow> valid_utf8 s"
  by (induction s) (simp_all add: valid_utf8_byte del: valid_utf8.simps(2))

text \<open>Bytes that are written as they are.\<close>

definition plain :: "char \<Rightarrow> bool" where
  "plain c \<longleftrightarrow> byte_val c < 128 \<and> esc_byte c = [c]"

lemma enc_plain: "\<forall>c \<in> set s. plain c \<Longrightarrow> enc_chars s = s"
  by (induction s) (simp_all add: plain_def)

lemma plain_digit: "is_digit c \<Longrightarrow> plain c"
proof -
  assume d: "is_digit c"
  then have "c \<noteq> x" if "\<not> is_digit x" for x using that by blast
  with d show ?thesis by (simp add: plain_def esc_byte_def is_digit_def)
qed

declare valid_utf8.simps(2) [simp del] decode_rune.simps(2) [simp del] scan_str.simps(2) [simp del]
  unquote.simps(2) [simp del] enc_chars.simps(2) [simp del]

end
