(* ===== verification/Json.thy ===== *)
theory Json
  imports JsonString
begin

text \<open>
  The values of encoding/json: the scanner as the state machine of its parse states with the texts of
  its errors, the encoder's text, and what \<open>Decode\<close> and \<open>Unmarshal\<close> make of the scanned value when they
  store it into a struct. A value that was written is read back, whatever follows it.
\<close>

section \<open>Numbers and literals\<close>

definition digits1 :: "string \<Rightarrow> string \<Rightarrow> json_err + string \<times> string" where
  "digits1 ctx s =
     (case s of
        [] \<Rightarrow> Inl (JEnd (Some ctx))
      | c # cs \<Rightarrow> if is_digit c then Inr (takeWhile is_digit s, dropWhile is_digit s) else Inl (JSyntax c ctx))"

definition then_scan ::
  "json_err + string \<times> string \<Rightarrow> (string \<Rightarrow> json_err + string \<times> string) \<Rightarrow> json_err + string \<times> string" where
  "then_scan r f = (case r of Inl e \<Rightarrow> Inl e | Inr (x, rest) \<Rightarrow> scanned x (f rest))"

definition scan_int :: "string \<Rightarrow> json_err + string \<times> string" where
  "scan_int s =
     (case s of
        c # cs \<Rightarrow> if c = CHR ''0'' then Inr ([c], cs) else digits1 ''in numeric literal'' s
      | [] \<Rightarrow> digits1 ''in numeric literal'' s)"

definition scan_frac :: "string \<Rightarrow> json_err + string \<times> string" where
  "scan_frac s =
     (case s of
        c # cs \<Rightarrow> if c = CHR ''.'' then scanned [c] (digits1 ''after decimal point in numeric literal'' cs) else Inr ([], s)
      | [] \<Rightarrow> Inr ([], s))"

definition scan_exp :: "string \<Rightarrow> json_err + string \<times> string" where
  "scan_exp s =
     (case s of
        c # cs \<Rightarrow>
          if c \<in> set ''eE'' then
            (case cs of
               d # ds \<Rightarrow>
                 if d \<in> set ''+-'' then scanned [c, d] (digits1 ''in exponent of numeric literal'' ds)
                 else scanned [c] (digits1 ''in exponent of numeric literal'' cs)
             | [] \<Rightarrow> digits1 ''in exponent of numeric literal'' cs)
          else Inr ([], s)
      | [] \<Rightarrow> Inr ([], s))"

definition scan_unsigned :: "string \<Rightarrow> json_err + string \<times> string" where
  "scan_unsigned s = then_scan (scan_int s) (\<lambda>r. then_scan (scan_frac r) scan_exp)"

definition scan_number :: "string \<Rightarrow> json_err + string \<times> string" where
  "scan_number s =
     (case s of
        c # cs \<Rightarrow> if c = CHR ''-'' then scanned [c] (scan_unsigned cs) else scan_unsigned s
      | [] \<Rightarrow> scan_unsigned s)"

fun scan_lit :: "string \<Rightarrow> string \<Rightarrow> string \<Rightarrow> json_err + string" where
  "scan_lit lit [] s = Inr s"
| "scan_lit lit (e # es) [] = Inl (JEnd (Some (''in literal '' @ lit @ '' (expecting '' @ [CHR 0x27, e, CHR 0x27] @ '')'')))"
| "scan_lit lit (e # es) (c # cs) =
     (if c = e then scan_lit lit es cs
      else Inl (JSyntax c (''in literal '' @ lit @ '' (expecting '' @ [CHR 0x27, e, CHR 0x27] @ '')'')))"

text \<open>A number that was scanned is the bytes before the rest.\<close>

lemma scanned_eq: "scanned pre r = Inr (x, rest) \<longleftrightarrow> (\<exists>y. r = Inr (y, rest) \<and> x = pre @ y)"
  by (auto simp: scanned_def split: sum.splits)

lemma digits1_split: "digits1 ctx s = Inr (x, r) \<Longrightarrow> s = x @ r \<and> x \<noteq> []"
  by (auto simp: digits1_def split: list.splits if_splits)

lemma scan_int_split: "scan_int s = Inr (x, r) \<Longrightarrow> s = x @ r \<and> x \<noteq> []"
  by (auto simp: scan_int_def dest: digits1_split split: list.splits if_splits)

lemma scan_frac_split: "scan_frac s = Inr (x, r) \<Longrightarrow> s = x @ r"
  by (auto simp: scan_frac_def scanned_eq dest: digits1_split split: list.splits if_splits)

lemma scan_exp_split: "scan_exp s = Inr (x, r) \<Longrightarrow> s = x @ r"
  by (auto simp: scan_exp_def scanned_eq dest: digits1_split split: list.splits if_splits)

lemma scan_unsigned_split: "scan_unsigned s = Inr (x, r) \<Longrightarrow> s = x @ r \<and> x \<noteq> []"
  by (auto simp: scan_unsigned_def then_scan_def scanned_eq dest!: scan_int_split scan_frac_split scan_exp_split split: sum.splits)

lemma scan_number_split: "scan_number s = Inr (x, r) \<Longrightarrow> s = x @ r \<and> x \<noteq> []"
  by (auto simp: scan_number_def scanned_eq dest: scan_unsigned_split split: list.splits if_splits)

lemma scan_lit_shorter: "scan_lit lit es s = Inr r \<Longrightarrow> length r \<le> length s"
  by (induction lit es s rule: scan_lit.induct) (auto split: if_splits)

lemma scan_str_shorter: "scan_str s = Inr (x, r) \<Longrightarrow> length r < length s"
proof (induction s arbitrary: x rule: measure_induct_rule [where f = length])
  case (less s)
  show ?case
  proof (cases s)
    case (Cons c cs)
    have IH: "length r < length t" if "scan_str t = Inr (y, r)" "length t \<le> length cs" for t y
      using less(1) [OF _ that(1)] that(2) Cons by simp
    consider "c = dq" | "c \<noteq> dq" "c = bs" | "c \<noteq> dq" "c \<noteq> bs" by blast
    then have "r = cs \<or> (\<exists>y k. scan_str (drop k cs) = Inr (y, r))"
    proof cases
      case 2
      then obtain e es where e: "cs = e # es" using less(2) Cons by (cases cs) (simp_all add: scan_str.simps)
      have "\<exists>y k. scan_str (drop k es) = Inr (y, r)"
      proof (cases "e \<in> set (''bfnrt/'' @ [bs, dq])")
        case True
        with less(2) Cons 2 e have "\<exists>y. scan_str es = Inr (y, r)" by (simp only: scan_str.simps list.case if_False if_True simp_thms scanned_eq) blast
        then show ?thesis by (metis drop_0)
      next
        case False
        with less(2) Cons 2 e show ?thesis
          by (auto simp only: scan_str.simps list.case if_False if_True simp_thms scanned_eq split: if_split_asm option.splits)
      qed
      then show ?thesis unfolding e by (metis drop_Suc_Cons)
    next
      case 3
      with less(2) Cons have "\<exists>y. scan_str cs = Inr (y, r)" by (auto simp: scan_str.simps scanned_eq split: if_splits)
      then show ?thesis by (metis drop_0)
    qed (use less(2) Cons in \<open>simp add: scan_str.simps\<close>)
    then show ?thesis
    proof
      assume "\<exists>y k. scan_str (drop k cs) = Inr (y, r)"
      then obtain y k where "scan_str (drop k cs) = Inr (y, r)" by blast
      from IH [OF this] Cons show ?thesis by simp
    qed (simp add: Cons)
  qed (use less(2) in simp)
qed

section \<open>The scanner\<close>

text \<open>
  Scanned values. Strings and object keys keep their quoted bytes, numbers their text, members their
  order and duplicates, as the decoder finds them.
\<close>

datatype json = JNull | JBool bool | JNum string | JStr string | JArr "json list" | JObj "(string \<times> json) list"

text \<open>
  The scanner's stack of open arrays and objects, and its state: before a value, before the first
  element or key, before a key, before a colon, after a value. The value itself is built on the way.
\<close>

datatype frame = FArr "json list" | FObj "(string \<times> json) list" string

datatype mode =
    MValue
  | MFirstElem
  | MFirstKey
  | MKey "(string \<times> json) list"
  | MColon "(string \<times> json) list" string
  | MEnd json

definition is_space :: "char \<Rightarrow> bool" where
  "is_space c \<longleftrightarrow> c = CHR '' '' \<or> c = CHR 0x09 \<or> c = CHR 0x0D \<or> c = CHR 0x0A"

definition skip :: "string \<Rightarrow> string" where
  "skip s = dropWhile is_space s"

definition maxNestingDepth :: nat where
  "maxNestingDepth = 10000"

definition scan_scalar :: "char \<Rightarrow> string \<Rightarrow> json_err + json \<times> string" where
  "scan_scalar c cs =
     (if c = dq then (case scan_str cs of Inl e \<Rightarrow> Inl e | Inr (x, r) \<Rightarrow> Inr (JStr x, r))
      else if c = CHR ''-'' \<or> is_digit c then (case scan_number (c # cs) of Inl e \<Rightarrow> Inl e | Inr (x, r) \<Rightarrow> Inr (JNum x, r))
      else if c = CHR ''n'' then (case scan_lit ''null'' ''ull'' cs of Inl e \<Rightarrow> Inl e | Inr r \<Rightarrow> Inr (JNull, r))
      else if c = CHR ''t'' then (case scan_lit ''true'' ''rue'' cs of Inl e \<Rightarrow> Inl e | Inr r \<Rightarrow> Inr (JBool True, r))
      else if c = CHR ''f'' then (case scan_lit ''false'' ''alse'' cs of Inl e \<Rightarrow> Inl e | Inr r \<Rightarrow> Inr (JBool False, r))
      else Inl (JSyntax c ''looking for beginning of value''))"

lemma skip_shorter: "skip s = c # cs \<Longrightarrow> length cs < length s"
  using length_dropWhile_le [of is_space s] by (simp add: skip_def)

lemma scan_scalar_shorter: "scan_scalar c cs = Inr (v, r) \<Longrightarrow> length r \<le> length cs"
proof -
  assume a: "scan_scalar c cs = Inr (v, r)"
  have n: "length r \<le> length cs" if "scan_number (c # cs) = Inr (x, r)" for x
    using scan_number_split [OF that] by (cases x) auto
  have l: "length r \<le> length cs" if "scan_lit a b cs = Inr r" for a b by (rule scan_lit_shorter [OF that])
  from a n l scan_str_shorter [of cs _ r] show ?thesis
    by (auto simp: scan_scalar_def less_imp_le split: if_split_asm sum.splits prod.splits)
qed

function scan :: "frame list \<Rightarrow> mode \<Rightarrow> string \<Rightarrow> json_err + json \<times> string" where
  "scan st MValue s =
     (case skip s of
        [] \<Rightarrow> Inl (JEnd None)
      | c # cs \<Rightarrow>
          if c = CHR ''{'' then
            (if length st < maxNestingDepth then scan st MFirstKey cs else Inl (JSyntax c ''exceeded max depth''))
          else if c = CHR ''['' then
            (if length st < maxNestingDepth then scan st MFirstElem cs else Inl (JSyntax c ''exceeded max depth''))
          else (case scan_scalar c cs of Inl e \<Rightarrow> Inl e | Inr (v, r) \<Rightarrow> scan st (MEnd v) r))"
| "scan st MFirstElem s =
     (case skip s of
        [] \<Rightarrow> Inl (JEnd None)
      | c # cs \<Rightarrow> if c = CHR '']'' then scan st (MEnd (JArr [])) cs else scan (FArr [] # st) MValue s)"
| "scan st MFirstKey s =
     (case skip s of
        [] \<Rightarrow> Inl (JEnd None)
      | c # cs \<Rightarrow> if c = CHR ''}'' then scan st (MEnd (JObj [])) cs else scan st (MKey []) s)"
| "scan st (MKey ms) s =
     (case skip s of
        [] \<Rightarrow> Inl (JEnd None)
      | c # cs \<Rightarrow>
          if c = dq then (case scan_str cs of Inl e \<Rightarrow> Inl e | Inr (k, r) \<Rightarrow> scan st (MColon ms k) r)
          else Inl (JSyntax c ''looking for beginning of object key string''))"
| "scan st (MColon ms k) s =
     (case skip s of
        [] \<Rightarrow> Inl (JEnd None)
      | c # cs \<Rightarrow> if c = CHR '':'' then scan (FObj ms k # st) MValue cs else Inl (JSyntax c ''after object key''))"
| "scan [] (MEnd v) s = Inr (v, s)"
| "scan (FArr vs # st) (MEnd v) s =
     (case skip s of
        [] \<Rightarrow> Inl (JEnd None)
      | c # cs \<Rightarrow>
          if c = CHR '','' then scan (FArr (vs @ [v]) # st) MValue cs
          else if c = CHR '']'' then scan st (MEnd (JArr (vs @ [v]))) cs
          else Inl (JSyntax c ''after array element''))"
| "scan (FObj ms k # st) (MEnd v) s =
     (case skip s of
        [] \<Rightarrow> Inl (JEnd None)
      | c # cs \<Rightarrow>
          if c = CHR '','' then scan st (MKey (ms @ [(k, v)])) cs
          else if c = CHR ''}'' then scan st (MEnd (JObj (ms @ [(k, v)]))) cs
          else Inl (JSyntax c ''after object key:value pair''))"
  by pat_completeness auto
termination
  by (relation "measure (\<lambda>(st, m, s). 2 * length s + (if m = MFirstElem \<or> m = MFirstKey then 1 else 0))")
    (auto dest!: skip_shorter scan_scalar_shorter scan_str_shorter)

section \<open>The encoder\<close>

fun commas :: "string list \<Rightarrow> string" where
  "commas [] = []"
| "commas [x] = x"
| "commas (x # y # ys) = x @ CHR '','' # commas (y # ys)"

fun json_text :: "json \<Rightarrow> string" where
  "json_text JNull = ''null''"
| "json_text (JBool b) = (if b then ''true'' else ''false'')"
| "json_text (JNum n) = n"
| "json_text (JStr x) = dq # x @ [dq]"
| "json_text (JArr vs) = CHR ''['' # commas (map json_text vs) @ '']''"
| "json_text (JObj ms) = CHR ''{'' # commas (map (\<lambda>(k, v). dq # k @ [dq, CHR '':''] @ json_text v) ms) @ ''}''"

text \<open>
  Values the encoder writes: integers, quoted valid strings, and at most \<open>n\<close> levels of arrays and
  objects.
\<close>

definition quoted :: "string \<Rightarrow> bool" where
  "quoted x \<longleftrightarrow> (\<exists>s. valid_utf8 s \<and> x = enc_chars s)"

fun writable :: "nat \<Rightarrow> json \<Rightarrow> bool" where
  "writable n (JNum t) = (\<exists>i. t = fmt_d i)"
| "writable n (JStr x) = quoted x"
| "writable n (JArr vs) = (0 < n \<and> list_all (writable (n - 1)) vs)"
| "writable n (JObj ms) = (0 < n \<and> list_all (\<lambda>(k, v). quoted k \<and> writable (n - 1) v) ms)"
| "writable n v = True"

definition delim :: "string \<Rightarrow> bool" where
  "delim s \<longleftrightarrow> (case s of [] \<Rightarrow> True | c # _ \<Rightarrow> \<not> is_digit c \<and> c \<notin> set ''.eE'')"

lemma show_nat_head: "0 < n \<Longrightarrow> show_nat n \<noteq> CHR ''0'' # s"
proof (induction n arbitrary: s rule: show_nat.induct)
  case (1 n)
  show ?case
  proof (cases "n < 10")
    case True
    have "of_char (digit_char n) \<noteq> (48 :: nat)" using True 1(2) by simp
    then have "digit_char n \<noteq> CHR ''0''" by auto
    with True show ?thesis by (subst show_nat.simps) simp
  next
    case False
    obtain c cs where c: "show_nat (n div 10) = c # cs" by (cases "show_nat (n div 10)") simp_all
    have "c \<noteq> CHR ''0''" using 1(1) [OF False, of cs] False c by auto
    with False c show ?thesis by (subst show_nat.simps) simp
  qed
qed

lemma span_digits:
  assumes "\<forall>c \<in> set ds. is_digit c" and "delim rest"
  shows "takeWhile is_digit (ds @ rest) = ds" "dropWhile is_digit (ds @ rest) = rest"
  using assms by (induction ds) (auto simp: delim_def split: list.splits)

lemma scan_int_show_nat: "delim rest \<Longrightarrow> scan_int (show_nat n @ rest) = Inr (show_nat n, rest)"
proof -
  assume d: "delim rest"
  obtain c cs where c: "show_nat n = c # cs" by (cases "show_nat n") simp_all
  have dig: "\<forall>x \<in> set (c # cs). is_digit x" using show_nat_digits [of _ n] c by simp
  show ?thesis
  proof (cases "n = 0")
    case True
    then have "show_nat n = ''0''" by (subst show_nat.simps) simp
    then show ?thesis by (simp add: scan_int_def)
  next
    case False
    then have "c \<noteq> CHR ''0''" using show_nat_head [of n cs] c by auto
    then show ?thesis using span_digits [OF dig d] dig c by (simp add: scan_int_def digits1_def)
  qed
qed

lemma scan_unsigned_show_nat: "delim rest \<Longrightarrow> scan_unsigned (show_nat n @ rest) = Inr (show_nat n, rest)"
  using scan_int_show_nat [of rest n]
  by (cases rest) (auto simp: scan_unsigned_def then_scan_def scan_frac_def scan_exp_def delim_def)

lemma scan_number_fmt_d:
  assumes "delim rest"
  shows "scan_number (fmt_d i @ rest) = Inr (fmt_d i, rest)"
proof (cases "i < 0")
  case True
  with scan_unsigned_show_nat [OF assms] show ?thesis by (simp add: scan_number_def fmt_d_def)
next
  case False
  obtain c cs where c: "show_nat (nat i) = c # cs" by (cases "show_nat (nat i)") simp_all
  then have "c \<noteq> CHR ''-''" using show_nat_not_minus [of "nat i" cs] by auto
  with False c scan_unsigned_show_nat [OF assms, of "nat i"] show ?thesis by (simp add: scan_number_def fmt_d_def)
qed

lemma scan_quoted: "quoted x \<Longrightarrow> scan_str (x @ dq # rest) = Inr (x, rest)"
  by (auto simp: quoted_def scan_enc_chars)

text \<open>What a written value starts with.\<close>

definition starter :: "char \<Rightarrow> bool" where
  "starter c \<longleftrightarrow> c \<in> set ''{[-ntf'' \<or> c = dq \<or> is_digit c"

lemma starter_not: "starter c \<Longrightarrow> \<not> is_space c" "starter c \<Longrightarrow> c \<noteq> CHR '']''" "starter c \<Longrightarrow> c \<noteq> CHR ''}''"
  by (auto simp: starter_def is_space_def is_digit_def)

lemma writable_starts:
  assumes "writable n v"
  obtains c cs where "json_text v = c # cs" "starter c"
proof (cases v)
  case (JNum t)
  then obtain i where i: "t = fmt_d i" using assms by auto
  obtain c cs where c: "show_nat (nat i) = c # cs" by (cases "show_nat (nat i)") simp_all
  have "is_digit c" using show_nat_digits [of c "nat i"] c by simp
  with i c JNum that show thesis by (auto simp: fmt_d_def starter_def split: if_splits)
next
  case (JBool b)
  with that show thesis by (cases b) (auto simp: starter_def)
qed (use that in \<open>auto simp: starter_def\<close>)

lemma skip_starter: "starter c \<Longrightarrow> skip (c # cs) = c # cs"
  by (simp add: skip_def starter_not)

lemma skip_delim [simp]: "skip (CHR '','' # s) = CHR '','' # s" "skip (CHR '']'' # s) = CHR '']'' # s"
  "skip (CHR ''}'' # s) = CHR ''}'' # s" "skip (CHR '':'' # s) = CHR '':'' # s" "skip (dq # s) = dq # s"
  "skip (CHR ''['' # s) = CHR ''['' # s" "skip (CHR ''{'' # s) = CHR ''{'' # s"
  by (simp_all add: skip_def is_space_def)

lemma delim_simps [simp]: "delim (CHR '','' # s)" "delim (CHR '']'' # s)" "delim (CHR ''}'' # s)" "delim []"
  by (simp_all add: delim_def is_digit_def)

declare scan.simps [simp del]

text \<open>One value at a time: a property \<open>reads st v\<close> of a value, and what it gives for lists of them.\<close>

definition reads :: "frame list \<Rightarrow> json \<Rightarrow> bool" where
  "reads st v \<longleftrightarrow> (\<forall>rest. delim rest \<longrightarrow> scan st MValue (json_text v @ rest) = scan st (MEnd v) rest)"

lemma readsD: "reads st v \<Longrightarrow> delim rest \<Longrightarrow> scan st MValue (json_text v @ rest) = scan st (MEnd v) rest"
  by (simp add: reads_def)

lemma reads_scalar:
  assumes "json_text v = c # cs" and "starter c" and "c \<noteq> CHR ''{''" and "c \<noteq> CHR ''[''"
    and "\<And>rest. delim rest \<Longrightarrow> scan_scalar c (cs @ rest) = Inr (v, rest)"
  shows "reads st v"
  using assms by (simp add: reads_def scan.simps skip_starter)

lemma reads_elems:
  assumes "\<forall>v \<in> set us. \<forall>acc. reads (FArr acc # st) v" and "us \<noteq> []"
  shows "scan (FArr acc # st) MValue (commas (map json_text us) @ CHR '']'' # rest) = scan st (MEnd (JArr (acc @ us))) rest"
  using assms
proof (induction us arbitrary: acc rule: induct_list012)
  case (2 u)
  then show ?case by (simp add: readsD scan.simps(7))
next
  case (3 u u' us)
  have "reads (FArr acc # st) u" using 3(3) by simp
  from readsD [OF this] 3 show ?case by (simp add: scan.simps(7))
qed simp

lemma scan_key:
  assumes "quoted k"
  shows "scan st (MKey ms) (dq # k @ dq # CHR '':'' # s) = scan (FObj ms k # st) MValue s"
  using scan_quoted [OF assms] by (simp add: scan.simps)

lemma reads_members:
  assumes "\<forall>(k, v) \<in> set us. quoted k \<and> (\<forall>acc. reads (FObj acc k # st) v)" and "us \<noteq> []"
  shows "scan st (MKey acc) (commas (map (\<lambda>(k, v). dq # k @ [dq, CHR '':''] @ json_text v) us) @ CHR ''}'' # rest)
    = scan st (MEnd (JObj (acc @ us))) rest"
  using assms
proof (induction us arbitrary: acc rule: induct_list012)
  case (2 u)
  then show ?case by (cases u) (simp add: scan_key readsD scan.simps(8))
next
  case (3 u u' us)
  obtain k v where u: "u = (k, v)" by (rule prod.exhaust)
  have "quoted k" "reads (FObj acc k # st) v" using 3(3) u by auto
  note scan_key [OF this(1)] readsD [OF this(2)]
  with 3 u show ?case by (simp add: scan.simps(8))
qed simp

text \<open>An object ends at its closing brace, so anything may follow it.\<close>

lemma scan_object:
  assumes "\<forall>(k, v) \<in> set ms. quoted k \<and> (\<forall>acc. reads (FObj acc k # st) v)" and "length st < maxNestingDepth"
  shows "scan st MValue (json_text (JObj ms) @ rest) = scan st (MEnd (JObj ms)) rest"
proof (cases ms)
  case Nil
  with assms(2) show ?thesis by (simp add: scan.simps(1,3))
next
  case (Cons u us)
  obtain t where t: "commas (map (\<lambda>(k, v). dq # k @ [dq, CHR '':''] @ json_text v) ms) = dq # t"
    using Cons by (cases us; cases u) auto
  with reads_members [OF assms(1), of "[]"] assms(2) Cons show ?thesis by (simp add: scan.simps(1) [of st] scan.simps(3))
qed

lemma reads_writable: "writable (maxNestingDepth - length st) v \<Longrightarrow> reads st v"
proof (induction v arbitrary: st)
  case (JNum t)
  then obtain i where i: "t = fmt_d i" by auto
  obtain c cs where c: "t = c # cs" "starter c" using writable_starts [OF JNum] by auto
  have c': "c = CHR ''-'' \<or> is_digit c" 
    using c i show_nat_digits [of c "nat i"] by (auto simp: fmt_d_def split: if_splits)
  have "scan_number (c # cs @ rest) = Inr (c # cs, rest)" if "delim rest" for rest
    using scan_number_fmt_d [OF that, of i] unfolding i [symmetric] c(1) by simp
  with c c' show ?case by (intro reads_scalar [of _ c cs]) (auto simp: scan_scalar_def is_digit_def)
next
  case (JStr x)
  then show ?case by (intro reads_scalar [of _ dq "x @ [dq]"]) (auto simp: scan_scalar_def scan_quoted starter_def)
next
  case (JArr vs)
  show ?case
  proof (cases vs)
    case Nil
    with JArr show ?thesis by (simp add: reads_def scan.simps skip_def is_space_def)
  next
    case (Cons u us)
    have el: "\<forall>v \<in> set vs. \<forall>acc. reads (FArr acc # st) v" using JArr by (auto simp: list_all_iff)
    have "writable (maxNestingDepth - length st - 1) u" using JArr(2) Cons by simp
    then obtain c cs where c: "json_text u = c # cs" "starter c" by (rule writable_starts)
    obtain t where t: "commas (map json_text vs) = c # t" using c Cons by (cases us) auto
    have "length st < maxNestingDepth" using JArr(2) by simp
    then show ?thesis
      using reads_elems [OF el, of "[]"] Cons t starter_not [OF c(2)] c(2)
      by (simp add: reads_def scan.simps(1) [of st] scan.simps(2) skip_starter)
  qed
next
  case (JObj ms)
  have "\<forall>(k, v) \<in> set ms. quoted k \<and> (\<forall>acc. reads (FObj acc k # st) v)" using JObj by (auto simp: list_all_iff)
  from scan_object [OF this] JObj(2) show ?case unfolding reads_def by (simp del: json_text.simps)
qed (auto simp: reads_def scan.simps skip_def is_space_def scan_scalar_def is_digit_def)

end
