(* ===== verification/JsonStruct.thy ===== *)
theory JsonStruct
  imports Json
begin

text \<open>
  What \<open>Decoder.Decode\<close> and \<open>json.Unmarshal\<close> do with a scanned value and a struct: which field a key
  means, how a value is stored into a field, which error is kept, and the texts of the errors.
\<close>

section \<open>Texts of errors\<close>

text \<open>
  \<open>strconv.Quote\<close>. Which runes beyond Latin-1 are printable is a table of the unicode package, a
  parameter here.
\<close>

fun hex_text :: "nat \<Rightarrow> nat \<Rightarrow> string" where
  "hex_text 0 n = []"
| "hex_text (Suc k) n = hex_text k (n div 16) @ [hex_char (n mod 16)]"

definition isPrint :: "(nat \<Rightarrow> bool) \<Rightarrow> nat \<Rightarrow> bool" where
  "isPrint table r = (if r \<le> 255 then 32 \<le> r \<and> r < 127 \<or> 161 \<le> r \<and> r \<noteq> 173 else table r)"

definition quote_rune :: "(nat \<Rightarrow> bool) \<Rightarrow> nat \<Rightarrow> string" where
  "quote_rune table r =
     (if r = 34 \<or> r = 92 then [bs, char_of r]
      else if isPrint table r then encode_rune r
      else if r = 7 then [bs, CHR ''a''] else if r = 8 then [bs, CHR ''b''] else if r = 12 then [bs, CHR ''f'']
      else if r = 10 then [bs, CHR ''n''] else if r = 13 then [bs, CHR ''r''] else if r = 9 then [bs, CHR ''t'']
      else if r = 11 then [bs, CHR ''v'']
      else if r < 32 \<or> r = 127 then bs # CHR ''x'' # hex_text 2 r
      else if r < 65536 then bs # CHR ''u'' # hex_text 4 r
      else bs # CHR ''U'' # hex_text 8 r)"

function quote_runes :: "(nat \<Rightarrow> bool) \<Rightarrow> string \<Rightarrow> string" where
  "quote_runes table [] = []"
| "quote_runes table (c # cs) =
     (case decode_rune (c # cs) of (r, n) \<Rightarrow>
        (if r = rune_error \<and> n = 1 then bs # CHR ''x'' # hex_text 2 (byte_val c) else quote_rune table r)
        @ quote_runes table (drop n (c # cs)))"
  by pat_completeness auto
termination by (relation "measure (length \<circ> snd)") (auto simp del: decode_rune.simps dest: decode_shorter)

definition quoteChar :: "char \<Rightarrow> string" where
  "quoteChar c =
     (if c = CHR 0x27 then [CHR 0x27, bs, CHR 0x27, CHR 0x27]
      else if c = dq then [CHR 0x27, dq, CHR 0x27]
      else CHR 0x27 # quote_rune (\<lambda>_. False) (byte_val c) @ [CHR 0x27])"

definition syntax_error :: "char \<Rightarrow> string \<Rightarrow> go_error" where
  "syntax_error c ctx = errors_New (''invalid character '' @ quoteChar c @ '' '' @ ctx)"

definition io_EOF :: go_error where
  "io_EOF = ErrorString (Sentinel ''io.EOF'') ''EOF''"

definition io_ErrUnexpectedEOF :: go_error where
  "io_ErrUnexpectedEOF = ErrorString (Sentinel ''io.ErrUnexpectedEOF'') ''unexpected EOF''"

text \<open>A stream that ends is told apart from a text that is malformed; \<open>Unmarshal\<close> has the whole text.\<close>

fun decoder_error :: "string \<Rightarrow> json_err \<Rightarrow> go_error" where
  "decoder_error body (JSyntax c ctx) = syntax_error c ctx"
| "decoder_error body (JEnd ctx) = (if skip body = [] then io_EOF else io_ErrUnexpectedEOF)"

fun unmarshal_error :: "json_err \<Rightarrow> go_error" where
  "unmarshal_error (JSyntax c ctx) = syntax_error c ctx"
| "unmarshal_error (JEnd None) = errors_New ''unexpected end of JSON input''"
| "unmarshal_error (JEnd (Some ctx)) = syntax_error (CHR '' '') ctx"

section \<open>Structs\<close>

text \<open>
  Storing a value into a field succeeds, finds a value of another kind (the decoder remembers the
  first such error and goes on), or fails in the field's own \<open>UnmarshalJSON\<close> (the decoder stops).
\<close>

datatype 'r stored = Stored 'r | Mismatch string | Failed 'r go_error

record 'r field =
  f_name :: string
  f_type :: string
  f_store :: "json \<Rightarrow> 'r \<Rightarrow> 'r stored"

text \<open>What a value is called in an error.\<close>

fun json_kind :: "json \<Rightarrow> string" where
  "json_kind JNull = ''null''"
| "json_kind (JBool b) = ''bool''"
| "json_kind (JNum n) = ''number''"
| "json_kind (JStr x) = ''string''"
| "json_kind (JArr vs) = ''array''"
| "json_kind (JObj ms) = ''object''"

fun store_int64 :: "(int \<Rightarrow> 'r \<Rightarrow> 'r) \<Rightarrow> json \<Rightarrow> 'r \<Rightarrow> 'r stored" where
  "store_int64 upd JNull r = Stored r"
| "store_int64 upd (JNum n) r = (case ParseInt n of Inl e \<Rightarrow> Mismatch (''number '' @ n) | Inr i \<Rightarrow> Stored (upd i r))"
| "store_int64 upd v r = Mismatch (json_kind v)"

fun store_string :: "(string \<Rightarrow> 'r \<Rightarrow> 'r) \<Rightarrow> json \<Rightarrow> 'r \<Rightarrow> 'r stored" where
  "store_string upd JNull r = Stored r"
| "store_string upd (JStr x) r = Stored (upd (unquote x) r)"
| "store_string upd v r = Mismatch (json_kind v)"

text \<open>
  Keys are matched exactly or else by their folded form. Field names are ASCII, and the only other
  runes that fold to ASCII letters are the long s and the Kelvin sign.
\<close>

definition fold_rune :: "nat \<Rightarrow> nat" where
  "fold_rune r = (if r = 383 then 83 else if r = 8490 then 75 else r)"

function foldName :: "string \<Rightarrow> string" where
  "foldName [] = []"
| "foldName (c # cs) =
     (let b = byte_val c in
      if b < 128 then (if 97 \<le> b \<and> b \<le> 122 then char_of (b - 32) else c) # foldName cs
      else case decode_rune (c # cs) of (r, n) \<Rightarrow> encode_rune (fold_rune r) @ foldName (drop n (c # cs)))"
  by pat_completeness auto
termination by (relation "measure length") (auto simp del: decode_rune.simps dest: decode_shorter)

definition find_field :: "'r field list \<Rightarrow> string \<Rightarrow> 'r field option" where
  "find_field fs key =
     (case find (\<lambda>f. f_name f = key) fs of
        Some f \<Rightarrow> Some f
      | None \<Rightarrow> find (\<lambda>f. foldName (f_name f) = foldName key) fs)"

definition unknown_field :: "(nat \<Rightarrow> bool) \<Rightarrow> string \<Rightarrow> go_error" where
  "unknown_field table key = errors_New (''json: unknown field '' @ dq # quote_runes table key @ [dq])"

definition type_error :: "string \<Rightarrow> string \<Rightarrow> 'r field \<Rightarrow> go_error" where
  "type_error what struct f =
     errors_New (''json: cannot unmarshal '' @ what @ '' into Go struct field '' @ struct @ ''.'' @ f_name f @ '' of type '' @ f_type f)"

fun first_error :: "go_error option \<Rightarrow> go_error \<Rightarrow> go_error option" where
  "first_error None e = Some e"
| "first_error (Some e') e = Some e'"

fun store_members ::
  "(nat \<Rightarrow> bool) \<Rightarrow> bool \<Rightarrow> string \<Rightarrow> 'r field list \<Rightarrow> (string \<times> json) list \<Rightarrow> 'r \<Rightarrow> go_error option \<Rightarrow> 'r \<times> go_error option" where
  "store_members table strict struct fs [] r saved = (r, saved)"
| "store_members table strict struct fs ((k, v) # ms) r saved =
     (case find_field fs (unquote k) of
        None \<Rightarrow> store_members table strict struct fs ms r
                  (if strict then first_error saved (unknown_field table (unquote k)) else saved)
      | Some f \<Rightarrow>
          (case f_store f v r of
             Stored r' \<Rightarrow> store_members table strict struct fs ms r' saved
           | Mismatch what \<Rightarrow> store_members table strict struct fs ms r (first_error saved (type_error what struct f))
           | Failed r' e \<Rightarrow> (r', Some e)))"

definition store_struct ::
  "(nat \<Rightarrow> bool) \<Rightarrow> bool \<Rightarrow> string \<Rightarrow> 'r field list \<Rightarrow> json \<Rightarrow> 'r \<Rightarrow> 'r \<times> go_error option" where
  "store_struct table strict struct fs v r =
     (case v of
        JObj ms \<Rightarrow> store_members table strict struct fs ms r None
      | JNull \<Rightarrow> (r, None)
      | _ \<Rightarrow> (r, Some (errors_New (''json: cannot unmarshal '' @ json_kind v @ '' into Go value of type main.'' @ struct))))"

text \<open>
  \<open>Decode\<close> of the first value of a stream, which does not look at what follows it, and \<open>Unmarshal\<close> of a
  whole text.
\<close>

definition json_Decode :: "(nat \<Rightarrow> bool) \<Rightarrow> bool \<Rightarrow> string \<Rightarrow> 'r field list \<Rightarrow> string \<Rightarrow> 'r \<Rightarrow> 'r \<times> go_error option" where
  "json_Decode table strict struct fs body r =
     (case scan [] MValue body of
        Inl e \<Rightarrow> (r, Some (decoder_error body e))
      | Inr (v, rest) \<Rightarrow> store_struct table strict struct fs v r)"

definition json_Unmarshal :: "string \<Rightarrow> 'r field list \<Rightarrow> string \<Rightarrow> 'r \<Rightarrow> 'r \<times> go_error option" where
  "json_Unmarshal struct fs data r =
     (case scan [] MValue data of
        Inl e \<Rightarrow> (r, Some (unmarshal_error e))
      | Inr (v, rest) \<Rightarrow>
          (case skip rest of
             [] \<Rightarrow> store_struct (\<lambda>_. False) False struct fs v r
           | c # cs \<Rightarrow> (r, Some (syntax_error c ''after top-level value''))))"

section \<open>Encoded structs\<close>

definition json_str :: "string \<Rightarrow> json" where
  "json_str s = JStr (enc_chars s)"

definition json_int :: "int \<Rightarrow> json" where
  "json_int i = JNum (fmt_d i)"

definition json_struct :: "(string \<times> json) list \<Rightarrow> json" where
  "json_struct kvs = JObj (map (\<lambda>(k, v). (enc_chars k, v)) kvs)"

text \<open>A value that fits in a field of a struct: a string of valid UTF-8 or a number.\<close>

definition leaf :: "json \<Rightarrow> bool" where
  "leaf v \<longleftrightarrow> (\<forall>n. writable n v)"


lemma leaf_int [simp]: "leaf (json_int i)"
  by (auto simp: leaf_def json_int_def)

lemma leaf_string [simp]: "valid_utf8 s \<Longrightarrow> leaf (json_str s)"
  by (auto simp: leaf_def json_str_def quoted_def)

lemma scan_struct:
  assumes "\<forall>(k, v) \<in> set kvs. valid_utf8 k \<and> leaf v"
  shows "scan [] MValue (json_text (json_struct kvs) @ rest) = Inr (json_struct kvs, rest)"
proof -
  have "\<forall>(k, v) \<in> set (map (\<lambda>(k, v). (enc_chars k, v)) kvs). quoted k \<and> (\<forall>acc. reads (FObj acc k # []) v)"
    using assms by (auto simp: quoted_def leaf_def intro!: reads_writable)
  from scan_object [OF this, of rest] show ?thesis
    by (simp add: json_struct_def maxNestingDepth_def scan.simps(6) del: json_text.simps)
qed

lemma Decode_struct:
  "\<forall>(k, v) \<in> set kvs. valid_utf8 k \<and> leaf v \<Longrightarrow>
   json_Decode table strict struct fs (json_text (json_struct kvs) @ rest) r =
     store_members table strict struct fs (map (\<lambda>(k, v). (enc_chars k, v)) kvs) r None"
  by (simp add: json_Decode_def scan_struct store_struct_def) (simp add: json_struct_def)

lemma Unmarshal_struct:
  "\<forall>(k, v) \<in> set kvs. valid_utf8 k \<and> leaf v \<Longrightarrow> skip rest = [] \<Longrightarrow>
   json_Unmarshal struct fs (json_text (json_struct kvs) @ rest) r =
     store_members (\<lambda>_. False) False struct fs (map (\<lambda>(k, v). (enc_chars k, v)) kvs) r None"
  by (simp add: json_Unmarshal_def scan_struct store_struct_def) (simp add: json_struct_def)

lemma store_member:
  "valid_utf8 k \<Longrightarrow> find_field fs k = Some f \<Longrightarrow> f_store f v r = Stored r' \<Longrightarrow>
   store_members table strict struct fs ((enc_chars k, v) # ms) r saved = store_members table strict struct fs ms r' saved"
  by (simp add: unquote_enc_chars)

text \<open>What every store keeps, decoding keeps; a first error is never forgotten.\<close>

lemma store_members_inv:
  assumes "\<And>f v r r'. f \<in> set fs \<Longrightarrow> P r \<Longrightarrow> f_store f v r = Stored r' \<Longrightarrow> P r'" and "P r"
    and "store_members table strict struct fs ms r saved = (r', None)"
  shows "P r'"
  using assms(2,3)
proof (induction ms arbitrary: r saved)
  case (Cons m ms)
  have found: "f \<in> set fs" if "find_field fs key = Some f" for f key
    using that by (auto simp: find_field_def find_Some_iff split: option.splits)
  from Cons assms(1) [OF found Cons.prems(1)] show ?case
    by (cases m) (auto split: option.splits stored.splits, blast)
qed simp

lemma store_members_saved: "snd (store_members table strict struct fs ms r (Some e)) \<noteq> None"
  by (induction ms arbitrary: r e) (auto split: option.split stored.split)

lemma store_members_accepts:
  "snd (store_members table strict struct fs ms r saved) = None \<Longrightarrow> saved = None"
  by (cases saved) (simp_all add: store_members_saved)

lemma store_members_all:
  assumes "snd (store_members table True struct fs ms r None) = None"
  shows "\<forall>(k, v) \<in> set ms. \<exists>f r r'. find_field fs (unquote k) = Some f \<and> f_store f v r = Stored r'"
  using assms
proof (induction ms arbitrary: r)
  case (Cons m ms)
  obtain k v where m: "m = (k, v)" by (rule prod.exhaust)
  with Cons.prems obtain f r' where f: "find_field fs (unquote k) = Some f" "f_store f v r = Stored r'"
    by (auto split: option.splits stored.splits dest: store_members_accepts)
  with Cons m show ?case by auto
qed simp

end
