(* ===== verification/Server.thy ===== *)
theory Server
  imports Runner JsonStruct
begin

text \<open>
  serverkit/server.go: the HTTP server component, the default router and its JSON errors. The
  socket layer is a parameter (\<open>listen\<close>), and so are \<open>net.ParseCIDR\<close>'s error (\<open>cidr_err\<close>) and the
  quoting of the verb \<open>%q\<close> (\<open>quote\<close>). The router is the list of middlewares in the order of \<open>Use\<close> and
  the list of mounted routes; how chi matches a request against them is outside the model.
\<close>

section \<open>HTTPServer\<close>

record http_config =
  hc_Addr :: string
  hc_ReadHeaderTimeout :: int
  hc_ReadTimeout :: int
  hc_WriteTimeout :: int
  hc_IdleTimeout :: int
  hc_MaxHeaderBytes :: int

record 'hd HTTPServer =
  hs_name :: string
  hs_addr :: string
  hs_handler :: 'hd
  hs_listener :: "string option"
  hs_logger :: bool
  hs_readHeaderTimeout :: int
  hs_readTimeout :: int
  hs_writeTimeout :: int
  hs_idleTimeout :: int
  hs_maxHeaderBytes :: int
  hs_server :: http_config

type_synonym 'hd http_option = "'hd HTTPServer \<Rightarrow> 'hd HTTPServer"

definition defaultReadHeaderTimeout :: int where "defaultReadHeaderTimeout = 5 * Second"
definition defaultReadTimeout :: int where "defaultReadTimeout = 15 * Second"
definition defaultWriteTimeout :: int where "defaultWriteTimeout = 15 * Second"
definition defaultIdleTimeout :: int where "defaultIdleTimeout = 60 * Second"
definition defaultMaxHeaderBytes :: int where "defaultMaxHeaderBytes = push_bit 20 1"

lemmas server_defaults =
  defaultReadHeaderTimeout_def defaultReadTimeout_def defaultWriteTimeout_def
  defaultIdleTimeout_def defaultMaxHeaderBytes_def

definition server_config :: "string \<Rightarrow> 'hd HTTPServer \<Rightarrow> http_config" where
  "server_config addr s =
     \<lparr>hc_Addr = addr, hc_ReadHeaderTimeout = hs_readHeaderTimeout s, hc_ReadTimeout = hs_readTimeout s,
      hc_WriteTimeout = hs_writeTimeout s, hc_IdleTimeout = hs_idleTimeout s,
      hc_MaxHeaderBytes = hs_maxHeaderBytes s\<rparr>"

definition NewHTTPServer ::
  "string \<Rightarrow> string \<Rightarrow> 'hd option \<Rightarrow> 'hd http_option list \<Rightarrow> go_error + 'hd HTTPServer" where
  "NewHTTPServer name addr handler options =
     (if addr = [] then Inl (errors_New ''http server address cannot be empty'')
      else case handler of
        None \<Rightarrow> Inl (errors_New ''http server handler cannot be nil'')
      | Some hdl \<Rightarrow>
          let srv = fold (\<lambda>option s. option s) options
            \<lparr>hs_name = name, hs_addr = addr, hs_handler = hdl, hs_listener = None, hs_logger = True,
             hs_readHeaderTimeout = defaultReadHeaderTimeout, hs_readTimeout = defaultReadTimeout,
             hs_writeTimeout = defaultWriteTimeout, hs_idleTimeout = defaultIdleTimeout,
             hs_maxHeaderBytes = defaultMaxHeaderBytes,
             hs_server = \<lparr>hc_Addr = [], hc_ReadHeaderTimeout = 0, hc_ReadTimeout = 0, hc_WriteTimeout = 0,
                          hc_IdleTimeout = 0, hc_MaxHeaderBytes = 0\<rparr>\<rparr>
          in Inr (srv\<lparr>hs_server := server_config addr srv\<rparr>))"

definition hs_WithLogger :: "bool \<Rightarrow> 'hd http_option" where
  "hs_WithLogger l s = s\<lparr>hs_logger := l\<rparr>"

definition WithReadHeaderTimeout :: "int \<Rightarrow> 'hd http_option" where
  "WithReadHeaderTimeout d s = (if d > 0 then s\<lparr>hs_readHeaderTimeout := d\<rparr> else s)"

definition WithReadTimeout :: "int \<Rightarrow> 'hd http_option" where
  "WithReadTimeout d s = (if d > 0 then s\<lparr>hs_readTimeout := d\<rparr> else s)"

definition WithWriteTimeout :: "int \<Rightarrow> 'hd http_option" where
  "WithWriteTimeout d s = (if d > 0 then s\<lparr>hs_writeTimeout := d\<rparr> else s)"

definition WithIdleTimeout :: "int \<Rightarrow> 'hd http_option" where
  "WithIdleTimeout d s = (if d > 0 then s\<lparr>hs_idleTimeout := d\<rparr> else s)"

definition WithMaxHeaderBytes :: "int \<Rightarrow> 'hd http_option" where
  "WithMaxHeaderBytes n s = (if n > 0 then s\<lparr>hs_maxHeaderBytes := n\<rparr> else s)"

text \<open>
  The connect closure: \<open>listen\<close> binds the address and yields the bound one. The result carries the
  logged messages. A nil logger panics at the first message.
\<close>

definition http_connect ::
  "(string \<Rightarrow> go_ctx \<Rightarrow> 'w \<Rightarrow> (go_error + string) \<times> 'w) \<Rightarrow> go_ctx \<Rightarrow> 'hd HTTPServer
     \<Rightarrow> ('w, go_error option \<times> string list \<times> 'hd HTTPServer) action" where
  "http_connect listen ctx srv w =
     (if \<not> hs_logger srv then (Panicked ''nil pointer dereference'', w)
      else case listen (hs_addr srv) ctx w of
        (Inl listenErr, w') \<Rightarrow>
          (Returned (Some (wrapf ''failed to create listener'' listenErr), [''Starting HTTP server''], srv), w')
      | (Inr bound, w') \<Rightarrow>
          (Returned (None, [''Starting HTTP server'', ''HTTP server ready''],
             srv\<lparr>hs_listener := Some bound, hs_server := (hs_server srv)\<lparr>hc_Addr := bound\<rparr>\<rparr>), w'))"

text \<open>
  \<open>http.Server.Shutdown\<close>: \<open>drain\<close> is how long the open connections take to become idle; an idle
  server is shut down whatever the context.
\<close>

definition http_Shutdown :: "bool \<Rightarrow> nat \<Rightarrow> go_ctx \<Rightarrow> int \<Rightarrow> go_error option \<times> int" where
  "http_Shutdown pick drain ctx now =
     (if drain = 0 then (None, now)
      else case select2 pick now (Some (now + int drain)) (done_time ctx) of
             Some (False, t) \<Rightarrow> (ctx_Err ctx t, t)
           | Some (True, t) \<Rightarrow> (None, t)
           | None \<Rightarrow> (None, now))"

text \<open>The stop closure, with the messages it logs appended to the log that is the state.\<close>

definition http_stop ::
  "bool \<Rightarrow> nat \<Rightarrow> go_ctx \<Rightarrow> int \<Rightarrow> string list \<Rightarrow> go_error option \<times> int \<times> string list" where
  "http_stop pick drain stopCtx now log =
     (case http_Shutdown pick drain stopCtx now of
        (Some shutdownErr, t) \<Rightarrow>
          (Some shutdownErr, t, log @ [''Stopping HTTP server'', ''Error shutting down HTTP server''])
      | (None, t) \<Rightarrow> (None, t, log @ [''Stopping HTTP server'', ''HTTP server stopped'']))"

definition hs_HealthChecks :: "'hd HTTPServer \<Rightarrow> int option \<Rightarrow> check list" where
  "hs_HealthChecks s readyAt =
     StandardChecks (hs_name s) (\<lambda>ctx now.
       case readyAt of
         Some x \<Rightarrow> if x \<le> now then (None, now) else (Some (errors_New ''server not ready''), now)
       | None \<Rightarrow> (Some (errors_New ''server not ready''), now))"

section \<open>The router\<close>

record 'mw RouterOptions =
  ro_Timeout :: int
  ro_TrustedProxies :: "string list"
  ro_Middlewares :: "'mw list"

type_synonym 'mw router_option = "'mw RouterOptions \<Rightarrow> 'mw RouterOptions outcome"

definition WithRouterTimeout :: "int \<Rightarrow> 'mw router_option" where
  "WithRouterTimeout d o' = Returned (if d > 0 then o'\<lparr>ro_Timeout := d\<rparr> else o')"

definition WithMiddleware :: "'mw list \<Rightarrow> 'mw router_option" where
  "WithMiddleware mws o' = Returned (o'\<lparr>ro_Middlewares := ro_Middlewares o' @ mws\<rparr>)"

fun first_invalid :: "(string \<Rightarrow> go_error option) \<Rightarrow> string list \<Rightarrow> (string \<times> go_error) option" where
  "first_invalid cidr_err [] = None"
| "first_invalid cidr_err (p # ps) =
     (case cidr_err p of Some e \<Rightarrow> Some (p, e) | None \<Rightarrow> first_invalid cidr_err ps)"

definition WithTrustedProxies ::
  "(string \<Rightarrow> go_error option) \<Rightarrow> (string \<Rightarrow> string) \<Rightarrow> string list \<Rightarrow> 'mw router_option" where
  "WithTrustedProxies cidr_err quote prefixes o' =
     (case first_invalid cidr_err prefixes of
        Some (p, e) \<Rightarrow> Panicked (''serverkit: invalid trusted proxy CIDR '' @ quote p @ '': '' @ error_text e)
      | None \<Rightarrow> Returned (o'\<lparr>ro_TrustedProxies := ro_TrustedProxies o' @ prefixes\<rparr>))"

datatype 'mw middleware =
    RequestLogger | RequestID | ClientIPFromXFF "string list" | ClientIPFromRemoteAddr
  | Custom 'mw | TimeoutMW int

datatype 'hd route_handler = HealthHandler int | AppHandler 'hd

record ('mw, 'hd) router =
  rt_uses :: "'mw middleware list"
  rt_routes :: "(string \<times> string \<times> 'hd route_handler) list"
  rt_NotFound :: "int \<times> string \<times> string"
  rt_MethodNotAllowed :: "int \<times> string \<times> string"

definition Use :: "'mw middleware \<Rightarrow> ('mw, 'hd) router \<Rightarrow> ('mw, 'hd) router" where
  "Use m r = r\<lparr>rt_uses := rt_uses r @ [m]\<rparr>"

definition Get_route :: "string \<Rightarrow> 'hd route_handler \<Rightarrow> ('mw, 'hd) router \<Rightarrow> ('mw, 'hd) router" where
  "Get_route pattern h r = r\<lparr>rt_routes := rt_routes r @ [(''GET'', pattern, h)]\<rparr>"

definition MountHealthRoutes :: "'h aggregator option \<Rightarrow> ('mw, 'hd) router \<Rightarrow> ('mw, 'hd) router" where
  "MountHealthRoutes health mux =
     (case health of
        None \<Rightarrow> mux
      | Some _ \<Rightarrow>
          Get_route ''/health'' (HealthHandler Liveness)
            (Get_route ''/health/startup'' (HealthHandler Startup)
              (Get_route ''/health/readiness'' (HealthHandler Readiness)
                (Get_route ''/health/liveness'' (HealthHandler Liveness) mux))))"

fun apply_router_options :: "'mw router_option list \<Rightarrow> 'mw RouterOptions \<Rightarrow> 'mw RouterOptions outcome" where
  "apply_router_options [] o' = Returned o'"
| "apply_router_options (opt # opts) o' =
     (case opt o' of Returned o1 \<Rightarrow> apply_router_options opts o1 | Panicked p \<Rightarrow> Panicked p | Blocked \<Rightarrow> Blocked)"

definition NewDefaultRouter ::
  "'h aggregator option \<Rightarrow> 'mw router_option list \<Rightarrow> ('mw, 'hd) router outcome" where
  "NewDefaultRouter health opts =
     (case apply_router_options opts \<lparr>ro_Timeout = 60 * Second, ro_TrustedProxies = [], ro_Middlewares = []\<rparr> of
        Returned options \<Rightarrow>
          let router = \<lparr>rt_uses = [], rt_routes = [], rt_NotFound = (404, [], []), rt_MethodNotAllowed = (405, [], [])\<rparr>;
              r1 = Use RequestID (Use RequestLogger router);
              r2 = (if ro_TrustedProxies options \<noteq> []
                    then Use (ClientIPFromXFF (ro_TrustedProxies options)) r1
                    else Use ClientIPFromRemoteAddr r1);
              r3 = fold (\<lambda>mw. Use (Custom mw)) (ro_Middlewares options) r2;
              r4 = MountHealthRoutes health (Use (TimeoutMW (ro_Timeout options)) r3)
          in Returned (r4\<lparr>rt_NotFound := (404, ''NOT_FOUND'', ''Resource not found''),
                          rt_MethodNotAllowed := (405, ''METHOD_NOT_ALLOWED'', ''Method not allowed'')\<rparr>)
      | Panicked p \<Rightarrow> Panicked p
      | Blocked \<Rightarrow> Blocked)"

text \<open>The request logger's \<open>Skip\<close>.\<close>

definition log_Skip :: "string \<Rightarrow> int \<Rightarrow> bool" where
  "log_Skip path respStatus \<longleftrightarrow> take (length ''/health'') path = ''/health'' \<and> respStatus < 500"

section \<open>JSON errors\<close>

record http_response =
  rsp_ContentType :: string
  rsp_Status :: int
  rsp_Body :: string

text \<open>The body is the text encoding/json writes for the envelope.\<close>

definition json_error_body :: "string \<Rightarrow> string \<Rightarrow> string" where
  "json_error_body code message =
     json_text (json_struct [(''error'', json_struct [(''code'', json_str code), (''message'', json_str message)])])"

definition writeJSONError :: "int \<Rightarrow> string \<Rightarrow> string \<Rightarrow> http_response" where
  "writeJSONError status code message =
     \<lparr>rsp_ContentType = ''application/json'', rsp_Status = status, rsp_Body = json_error_body code message\<rparr>"

section \<open>Properties\<close>

text \<open>The options of the server.\<close>

inductive is_http_option :: "'hd http_option \<Rightarrow> bool" where
  "is_http_option (hs_WithLogger l)"
| "is_http_option (WithReadHeaderTimeout d)"
| "is_http_option (WithReadTimeout d)"
| "is_http_option (WithWriteTimeout d)"
| "is_http_option (WithIdleTimeout d)"
| "is_http_option (WithMaxHeaderBytes n)"

lemmas http_option_defs =
  hs_WithLogger_def WithReadHeaderTimeout_def WithReadTimeout_def WithWriteTimeout_def
  WithIdleTimeout_def WithMaxHeaderBytes_def

definition limits_set :: "'hd HTTPServer \<Rightarrow> bool" where
  "limits_set s \<longleftrightarrow> 0 < hs_readHeaderTimeout s \<and> 0 < hs_readTimeout s \<and> 0 < hs_writeTimeout s
     \<and> 0 < hs_idleTimeout s \<and> 0 < hs_maxHeaderBytes s"

text \<open>
  No limit can be switched off. Construction fails exactly without address or handler, and
  whatever options are passed every timeout and the header limit of the constructed
  \<open>http.Server\<close> is positive (zero would mean no limit), with the given address.
\<close>

theorem server_limits:
  assumes "\<And>opt. opt \<in> set options \<Longrightarrow> is_http_option opt"
  shows "case NewHTTPServer name addr handler options of
      Inl e \<Rightarrow> addr = [] \<or> handler = None
    | Inr s \<Rightarrow> addr \<noteq> [] \<and> handler \<noteq> None \<and> hc_Addr (hs_server s) = addr
        \<and> 0 < hc_ReadHeaderTimeout (hs_server s) \<and> 0 < hc_ReadTimeout (hs_server s)
        \<and> 0 < hc_WriteTimeout (hs_server s) \<and> 0 < hc_IdleTimeout (hs_server s)
        \<and> 0 < hc_MaxHeaderBytes (hs_server s)"
proof -
  have keep: "limits_set (opt s)" if "is_http_option opt" "limits_set s" for opt and s :: "'a HTTPServer"
    using that by cases (auto simp: http_option_defs limits_set_def)
  have "limits_set (fold (\<lambda>option s. option s) options s)" if "limits_set s" for s :: "'a HTTPServer"
    by (rule fold_invariant [where Q = is_http_option and P = limits_set]) (use assms keep that in auto)
  then show ?thesis
    by (auto simp: NewHTTPServer_def limits_set_def server_config_def server_defaults Second_def Let_def
        split: option.splits)
qed

theorem server_limits_witness:
  "\<exists>s. NewHTTPServer ''api'' '':8080'' (Some (0 :: nat)) [WithReadTimeout 0, WithIdleTimeout (-3)] = Inr s
     \<and> hc_ReadTimeout (hs_server s) = 15 * Second \<and> 0 < hc_IdleTimeout (hs_server s)"
proof -
  have "is_http_option opt" if "opt \<in> set [WithReadTimeout 0, WithIdleTimeout (-3)]" for opt :: "nat http_option"
    using that by (auto intro: is_http_option.intros)
  note lim = server_limits [where options = "[WithReadTimeout 0, WithIdleTimeout (-3)]" and handler = "Some (0 :: nat)"
      and name = "''api''" and addr = "'':8080''", OF this]
  obtain s where s: "NewHTTPServer ''api'' '':8080'' (Some (0 :: nat)) [WithReadTimeout 0, WithIdleTimeout (-3)] = Inr s"
    and "hc_ReadTimeout (hs_server s) = 15 * Second"
    by (simp add: NewHTTPServer_def http_option_defs server_config_def server_defaults Let_def)
  with lim show ?thesis by auto
qed

lemma fold_Use: "rt_uses (fold (\<lambda>mw. Use (Custom mw)) mws r) = rt_uses r @ map Custom mws
  \<and> rt_routes (fold (\<lambda>mw. Use (Custom mw)) mws r) = rt_routes r"
  by (induction mws arbitrary: r) (auto simp: Use_def)

lemma first_invalid_None: "first_invalid cidr_err ps = None \<longleftrightarrow> (\<forall>p\<in>set ps. cidr_err p = None)"
  by (induction ps) (auto split: option.splits)

inductive is_router_option :: "(string \<Rightarrow> go_error option) \<Rightarrow> (string \<Rightarrow> string) \<Rightarrow> 'mw router_option \<Rightarrow> bool"
  for cidr_err quote where
  "is_router_option cidr_err quote (WithRouterTimeout d)"
| "is_router_option cidr_err quote (WithMiddleware mws)"
| "is_router_option cidr_err quote (WithTrustedProxies cidr_err quote ps)"

lemma router_options_inv:
  assumes "\<And>opt. opt \<in> set opts \<Longrightarrow> is_router_option cidr_err quote opt"
    and "0 < ro_Timeout o'" "\<forall>p\<in>set (ro_TrustedProxies o'). cidr_err p = None"
    and "apply_router_options opts o' = Returned o1"
  shows "0 < ro_Timeout o1 \<and> (\<forall>p\<in>set (ro_TrustedProxies o1). cidr_err p = None)"
  using assms
proof (induction opts arbitrary: o')
  case Nil
  then show ?case by simp
next
  case (Cons opt opts)
  then obtain o2 where o2: "opt o' = Returned o2" "apply_router_options opts o2 = Returned o1"
    by (auto split: outcome.splits)
  have "is_router_option cidr_err quote opt" using Cons.prems(1) by simp
  then have "0 < ro_Timeout o2 \<and> (\<forall>p\<in>set (ro_TrustedProxies o2). cidr_err p = None)"
    using o2(1) Cons.prems(2,3)
    by cases (auto simp: WithRouterTimeout_def WithMiddleware_def WithTrustedProxies_def first_invalid_None
        split: option.splits if_splits)
  with Cons.IH [OF _ _ _ o2(2)] Cons.prems(1) show ?case by simp
qed

text \<open>
  C34: the default router is safe by default. Requests pass logging, request id, client-IP
  resolution, the application's middlewares in their order and then the timeout, which is
  positive; forwarding headers are believed only if trusted proxies were configured, and every
  configured prefix is a valid CIDR (an invalid one panics at construction); the health endpoints
  are mounted, each on its kind, exactly when there is an aggregator.
\<close>

theorem default_router_safe:
  assumes "\<And>opt. opt \<in> set opts \<Longrightarrow> is_router_option cidr_err quote opt"
    and "NewDefaultRouter health opts = Returned (r :: ('mw, 'hd) router)"
  shows "\<exists>ip mws d. rt_uses r = [RequestLogger, RequestID, ip] @ map Custom mws @ [TimeoutMW d] \<and> 0 < d
    \<and> (ip = ClientIPFromRemoteAddr \<or> (\<exists>ps. ip = ClientIPFromXFF ps \<and> ps \<noteq> [] \<and> (\<forall>p\<in>set ps. cidr_err p = None)))
    \<and> rt_routes r = (if health = None then []
        else [(''GET'', ''/health/liveness'', HealthHandler Liveness), (''GET'', ''/health/readiness'', HealthHandler Readiness),
              (''GET'', ''/health/startup'', HealthHandler Startup), (''GET'', ''/health'', HealthHandler Liveness)])"
proof -
  let ?o = "\<lparr>ro_Timeout = 60 * Second, ro_TrustedProxies = [], ro_Middlewares = []\<rparr> :: 'mw RouterOptions"
  obtain o1 where o1: "apply_router_options opts ?o = Returned o1"
    using assms(2) by (auto simp: NewDefaultRouter_def split: outcome.splits)
  have inv: "0 < ro_Timeout o1 \<and> (\<forall>p\<in>set (ro_TrustedProxies o1). cidr_err p = None)"
    using router_options_inv [OF assms(1) _ _ o1] by (simp add: Second_def)
  let ?ip = "if ro_TrustedProxies o1 \<noteq> [] then ClientIPFromXFF (ro_TrustedProxies o1) else ClientIPFromRemoteAddr"
  have "rt_uses r = [RequestLogger, RequestID, ?ip] @ map Custom (ro_Middlewares o1) @ [TimeoutMW (ro_Timeout o1)]"
    and "rt_routes r = (if health = None then []
        else [(''GET'', ''/health/liveness'', HealthHandler Liveness), (''GET'', ''/health/readiness'', HealthHandler Readiness),
              (''GET'', ''/health/startup'', HealthHandler Startup), (''GET'', ''/health'', HealthHandler Liveness)])"
    using assms(2) o1
    by (auto simp: NewDefaultRouter_def MountHealthRoutes_def Get_route_def Use_def fold_Use Let_def
        split: option.splits)
  with inv show ?thesis by (intro exI [of _ ?ip] exI conjI) auto
qed

theorem default_router_safe_witness:
  "\<exists>r :: (nat, nat) router. NewDefaultRouter (None :: unit aggregator option) [WithMiddleware [7], WithRouterTimeout (-1)] = Returned r
     \<and> rt_uses r = [RequestLogger, RequestID, ClientIPFromRemoteAddr, Custom 7, TimeoutMW (60 * Second)] \<and> rt_routes r = []"
proof -
  have opts: "is_router_option (\<lambda>_. None) id opt" if "opt \<in> set [WithMiddleware [7], WithRouterTimeout (-1)]" for opt :: "nat router_option"
    using that by (auto intro: is_router_option.intros)
  obtain r :: "(nat, nat) router" where
    r: "NewDefaultRouter (None :: unit aggregator option) [WithMiddleware [7], WithRouterTimeout (-1)] = Returned r"
    "rt_uses r = [RequestLogger, RequestID, ClientIPFromRemoteAddr, Custom 7, TimeoutMW (60 * Second)]"
    by (simp add: NewDefaultRouter_def WithMiddleware_def WithRouterTimeout_def Use_def MountHealthRoutes_def Let_def)
  from default_router_safe [OF opts r(1)] r show ?thesis by auto
qed

lemma http_Shutdown_time:
  assumes "http_Shutdown pick drain ctx now = (e, t)"
  shows "now \<le> t \<and> (\<forall>d. done_time ctx = Some d \<longrightarrow> t \<le> max now d) \<and> (e = None \<longrightarrow> t = now + int drain)
   \<and> (\<forall>x. e = Some x \<longrightarrow> ctx_Err ctx t = Some x)"
proof (cases "done_time ctx")
  case None
  with assms show ?thesis
    by (auto simp: http_Shutdown_def select2_def split: if_splits)
next
  case (Some y)
  obtain ce where "ctx_Err ctx (max now y) = Some ce" using ctx_Err_done_time [OF Some, of "max now y"] by auto
  with Some assms show ?thesis
    by (cases pick) (auto simp: http_Shutdown_def select2_def split: if_splits)
qed

interpretation http_server: bounded_stop "http_stop pick drain"
proof (unfold_locales, goal_cases)
  case (1 ctx now w e t w')
  then show ?case
    by (cases "http_Shutdown pick drain ctx now")
      (auto simp: http_stop_def dest: http_Shutdown_time split: option.splits)
next
  case (2 ctx now w e t w' d)
  then show ?case
    by (cases "http_Shutdown pick drain ctx now")
      (auto simp: http_stop_def dest: http_Shutdown_time split: option.splits)
qed

text \<open>
  The HTTP server's stop closure keeps the contract of the shutdown budget, and returns nil
  exactly when all connections drained; otherwise its error is the context's.
\<close>

theorem http_stop_graceful:
  assumes "http_stop pick drain ctx now log = (e, t, log')"
  shows "bounded_stop (http_stop pick drain) \<and> now \<le> t \<and> (\<forall>d. done_time ctx = Some d \<longrightarrow> t \<le> max now d)
    \<and> (case e of
          None \<Rightarrow> t = now + int drain \<and> last log' = ''HTTP server stopped''
        | Some x \<Rightarrow> ctx_Err ctx t = Some x \<and> last log' = ''Error shutting down HTTP server'')"
  using assms http_server.bounded_stop_axioms [of pick drain]
  by (cases "http_Shutdown pick drain ctx now")
    (auto simp: http_stop_def dest: http_Shutdown_time split: option.splits)

theorem http_stop_graceful_witness:
  "http_stop True 100 (WithTimeout Background 0 30) 0 []
     = (Some context_DeadlineExceeded, 30, [''Stopping HTTP server'', ''Error shutting down HTTP server''])
   \<and> ctx_Err (WithTimeout Background 0 30) 30 = Some context_DeadlineExceeded"
proof -
  have run: "http_stop True 100 (WithTimeout Background 0 30) 0 []
     = (Some context_DeadlineExceeded, 30, [''Stopping HTTP server'', ''Error shutting down HTTP server''])"
    by (simp add: http_stop_def http_Shutdown_def select2_def done_time_def WithTimeout_def Background_def ctx_Err_def)
  show ?thesis using http_stop_graceful [OF run] run by simp
qed

end
