(* ===== verification/Orders.thy ===== *)
theory Orders
  imports Cache Database Worker Server
begin

text \<open>
  examples/orders: the example service on top of the toolkit (config.go, order.go, repository.go,
  service.go, handler.go, worker.go). It runs over a world \<open>int \<times> 's\<close> with a driver \<open>P\<close>, a
  provider \<open>prov\<close> (the TxManager's) and a cache \<open>C\<close>. Functions that return a value and an error
  return \<open>Inl\<close> the error or \<open>Inr\<close> the value; the service's log records are part of its results.
\<close>

section \<open>Configuration\<close>

record Config =
  DBConnStr :: string
  RedisAddr :: string
  RedisPassword :: string
  HTTPAddr :: string

definition envOrDefault :: "(string \<Rightarrow> string) \<Rightarrow> string \<Rightarrow> string \<Rightarrow> string" where
  "envOrDefault getenv key fallback = (if getenv key \<noteq> [] then getenv key else fallback)"

definition LoadConfig :: "(string \<Rightarrow> string) \<Rightarrow> go_error + Config" where
  "LoadConfig getenv =
     (let cfg = \<lparr>DBConnStr = getenv ''DB_CONN_STR'',
                 RedisAddr = envOrDefault getenv ''REDIS_ADDR'' ''localhost:6379'',
                 RedisPassword = getenv ''REDIS_PASSWORD'',
                 HTTPAddr = envOrDefault getenv ''HTTP_ADDR'' '':8080''\<rparr>
      in if DBConnStr cfg = [] then Inl (errors_New ''DB_CONN_STR is required'') else Inr cfg)"

section \<open>The domain\<close>

definition ErrNotFound :: go_error where
  "ErrNotFound = ErrorString (Sentinel ''main.ErrNotFound'') ''not found''"

definition ErrInsufficientStock :: go_error where
  "ErrInsufficientStock = ErrorString (Sentinel ''main.ErrInsufficientStock'') ''insufficient stock''"

record Product =
  p_CreatedAt :: int
  p_Name :: string
  p_ID :: int
  p_Price :: int
  p_Stock :: int

record Order =
  o_CreatedAt :: int
  o_ID :: int
  o_ProductID :: int
  o_Quantity :: int
  o_Total :: int

definition zeroProduct :: Product where
  "zeroProduct = \<lparr>p_CreatedAt = 0, p_Name = [], p_ID = 0, p_Price = 0, p_Stock = 0\<rparr>"

definition zeroOrder :: Order where
  "zeroOrder = \<lparr>o_CreatedAt = 0, o_ID = 0, o_ProductID = 0, o_Quantity = 0, o_Total = 0\<rparr>"

section \<open>Repositories\<close>

abbreviation sql_break :: string where
  "sql_break \<equiv> [CHR 0x0A, CHR 0x09, CHR 0x09, CHR '' '']"

definition sql_insert_product :: string where
  "sql_insert_product =
     ''INSERT INTO products (name, price_cents, stock)'' @ sql_break @ ''VALUES ($1, $2, $3)'' @ sql_break
     @ ''RETURNING id, name, price_cents, stock, created_at''"

definition sql_select_product :: string where
  "sql_select_product = ''SELECT id, name, price_cents, stock, created_at FROM products WHERE id = $1''"

definition sql_decrement :: string where
  "sql_decrement = ''UPDATE products SET stock = stock - $1 WHERE id = $2''"

definition sql_insert_order :: string where
  "sql_insert_order =
     ''INSERT INTO orders (product_id, quantity, total_cents)'' @ sql_break @ ''VALUES ($1, $2, $3)'' @ sql_break
     @ ''RETURNING id, product_id, quantity, total_cents, created_at''"

definition sql_select_order :: string where
  "sql_select_order = ''SELECT id, product_id, quantity, total_cents, created_at FROM orders WHERE id = $1''"

text \<open>The values a successful \<open>Scan\<close> delivered, in the variables it was given.\<close>

fun product_of :: "dbval list \<Rightarrow> Product" where
  "product_of [DInt i, DStr n, DInt p, DInt s, DTime c] =
     \<lparr>p_CreatedAt = c, p_Name = n, p_ID = i, p_Price = p, p_Stock = s\<rparr>"
| "product_of _ = zeroProduct"

fun order_of :: "dbval list \<Rightarrow> Order" where
  "order_of [DInt i, DInt p, DInt q, DInt t, DTime c] =
     \<lparr>o_CreatedAt = c, o_ID = i, o_ProductID = p, o_Quantity = q, o_Total = t\<rparr>"
| "order_of _ = zeroOrder"

definition query_scan ::
  "'s pgx \<Rightarrow> 's provider \<Rightarrow> go_ctx \<Rightarrow> string \<Rightarrow> dbval list \<Rightarrow> (int \<times> 's, dbval list \<times> go_error option) action" where
  "query_scan P prov ctx stmt args =
     act_bind (q_QueryRow P prov (QuerierFromContext prov ctx) ctx stmt args)
       (\<lambda>rw. act_call (Row_Scan P rw))"

definition product_Create ::
  "'s pgx \<Rightarrow> 's provider \<Rightarrow> go_ctx \<Rightarrow> string \<Rightarrow> int \<Rightarrow> int \<Rightarrow> (int \<times> 's, go_error + Product) action" where
  "product_Create P prov ctx name price stock =
     act_bind (query_scan P prov ctx sql_insert_product [DStr name, DInt price, DInt stock]) (\<lambda>(vs, err).
       case err of
         Some e \<Rightarrow> act_ret (Inl (wrapf ''insert product'' e))
       | None \<Rightarrow> act_ret (Inr (product_of vs)))"

definition scanProduct ::
  "'s pgx \<Rightarrow> 's provider \<Rightarrow> go_ctx \<Rightarrow> int \<Rightarrow> bool \<Rightarrow> (int \<times> 's, go_error + Product) action" where
  "scanProduct P prov ctx i forUpdate =
     act_bind (query_scan P prov ctx (sql_select_product @ (if forUpdate then '' FOR UPDATE'' else [])) [DInt i]) (\<lambda>(vs, err).
       if err_is err ''databasekit.ErrNoRows'' then act_ret (Inl ErrNotFound)
       else case err of
         Some e \<Rightarrow> act_ret (Inl (wrapf ''select product'' e))
       | None \<Rightarrow> act_ret (Inr (product_of vs)))"

definition product_GetByID :: "'s pgx \<Rightarrow> 's provider \<Rightarrow> go_ctx \<Rightarrow> int \<Rightarrow> (int \<times> 's, go_error + Product) action" where
  "product_GetByID P prov ctx i = scanProduct P prov ctx i False"

definition GetForUpdate :: "'s pgx \<Rightarrow> 's provider \<Rightarrow> go_ctx \<Rightarrow> int \<Rightarrow> (int \<times> 's, go_error + Product) action" where
  "GetForUpdate P prov ctx i = scanProduct P prov ctx i True"

definition DecrementStock ::
  "'s pgx \<Rightarrow> 's provider \<Rightarrow> go_ctx \<Rightarrow> int \<Rightarrow> int \<Rightarrow> (int \<times> 's, go_error option) action" where
  "DecrementStock P prov ctx i quantity =
     act_bind (q_Exec P prov (QuerierFromContext prov ctx) ctx sql_decrement [DInt quantity, DInt i]) (\<lambda>(n, err).
       case err of
         Some e \<Rightarrow> act_ret (Some (wrapf ''decrement stock'' e))
       | None \<Rightarrow> act_ret None)"

definition order_Create ::
  "'s pgx \<Rightarrow> 's provider \<Rightarrow> go_ctx \<Rightarrow> int \<Rightarrow> int \<Rightarrow> int \<Rightarrow> (int \<times> 's, go_error + Order) action" where
  "order_Create P prov ctx productID quantity totalCents =
     act_bind (query_scan P prov ctx sql_insert_order [DInt productID, DInt quantity, DInt totalCents]) (\<lambda>(vs, err).
       case err of
         Some e \<Rightarrow> act_ret (Inl (wrapf ''insert order'' e))
       | None \<Rightarrow> act_ret (Inr (order_of vs)))"

definition order_GetByID :: "'s pgx \<Rightarrow> 's provider \<Rightarrow> go_ctx \<Rightarrow> int \<Rightarrow> (int \<times> 's, go_error + Order) action" where
  "order_GetByID P prov ctx i =
     act_bind (query_scan P prov ctx sql_select_order [DInt i]) (\<lambda>(vs, err).
       if err_is err ''databasekit.ErrNoRows'' then act_ret (Inl ErrNotFound)
       else case err of
         Some e \<Rightarrow> act_ret (Inl (wrapf ''select order'' e))
       | None \<Rightarrow> act_ret (Inr (order_of vs)))"

section \<open>The service\<close>

definition productCacheTTL :: int where
  "productCacheTTL = 60 * Second"

definition productCacheKey :: "int \<Rightarrow> string" where
  "productCacheKey i = ''product:'' @ fmt_d i"

datatype log_entry = LDebug string | LWarn string

definition CreateProduct ::
  "'s pgx \<Rightarrow> 's provider \<Rightarrow> go_ctx \<Rightarrow> string \<Rightarrow> int \<Rightarrow> int \<Rightarrow> (int \<times> 's, go_error + Product) action" where
  "CreateProduct P prov ctx name price stock = product_Create P prov ctx name price stock"

definition GetProduct ::
  "'s pgx \<Rightarrow> 's provider \<Rightarrow> (int \<times> 's, Product) cache \<Rightarrow> go_ctx \<Rightarrow> int
     \<Rightarrow> (int \<times> 's, (go_error + Product) \<times> log_entry list) action" where
  "GetProduct P prov C ctx i =
     (let key = productCacheKey i in
      act_bind (cache_Get C ctx key zeroProduct) (\<lambda>(p, err).
        case err of
          None \<Rightarrow> act_ret (Inr p, [LDebug ''product cache hit''])
        | Some e \<Rightarrow>
            let warn = (if error_text e \<noteq> ''redis: nil'' \<and> error_text e \<noteq> ''cache miss: '' @ key
                        then [LWarn ''cache error or malformed entry''] else [])
            in act_bind (product_GetByID P prov ctx i) (\<lambda>r.
                 case r of
                   Inl dbErr \<Rightarrow> act_ret (Inl dbErr, warn)
                 | Inr q \<Rightarrow>
                     act_bind (cache_Set C ctx key q productCacheTTL) (\<lambda>setErr.
                       act_ret (Inr q, warn @ (if setErr \<noteq> None
                                               then [LWarn ''failed to populate product cache''] else []))))))"

definition GetOrder :: "'s pgx \<Rightarrow> 's provider \<Rightarrow> go_ctx \<Rightarrow> int \<Rightarrow> (int \<times> 's, go_error + Order) action" where
  "GetOrder P prov ctx i = order_GetByID P prov ctx i"

definition stock_err :: "int \<Rightarrow> int \<Rightarrow> go_error" where
  "stock_err stock quantity =
     WrapError (error_text ErrInsufficientStock @ '': have '' @ fmt_d stock @ '', want '' @ fmt_d quantity)
       [ErrInsufficientStock]"

text \<open>The function \<open>CreateOrder\<close> passes to \<open>WithTx\<close>; the second result is the captured \<open>order\<close>.\<close>

definition place_order ::
  "'s pgx \<Rightarrow> 's provider \<Rightarrow> int \<Rightarrow> int \<Rightarrow> go_ctx \<Rightarrow> (int \<times> 's, go_error option \<times> Order) action" where
  "place_order P prov productID quantity ctx =
     act_bind (GetForUpdate P prov ctx productID) (\<lambda>r.
       case r of
         Inl err \<Rightarrow> act_ret (Some err, zeroOrder)
       | Inr prd \<Rightarrow>
           if p_Stock prd < quantity
           then act_ret (Some (stock_err (p_Stock prd) quantity), zeroOrder)
           else
             act_bind (DecrementStock P prov ctx productID quantity) (\<lambda>decErr.
               case decErr of
                 Some err \<Rightarrow> act_ret (Some err, zeroOrder)
               | None \<Rightarrow>
                   act_bind (order_Create P prov ctx productID quantity (i64 (p_Price prd * quantity))) (\<lambda>c.
                     case c of
                       Inl err \<Rightarrow> act_ret (Some err, zeroOrder)
                     | Inr ord \<Rightarrow> act_ret (None, ord))))"

definition CreateOrder ::
  "'s pgx \<Rightarrow> 's provider \<Rightarrow> (int \<times> 's, Product) cache \<Rightarrow> go_ctx \<Rightarrow> int \<Rightarrow> int
     \<Rightarrow> (int \<times> 's, (go_error + Order) \<times> log_entry list) action" where
  "CreateOrder P prov C ctx productID quantity =
     act_bind (WithTx_capture P prov ctx (place_order P prov productID quantity)) (\<lambda>(err, captured).
       case err of
         Some e \<Rightarrow> act_ret (Inl e, [])
       | None \<Rightarrow>
           act_bind (cache_Delete C ctx (productCacheKey productID)) (\<lambda>delErr.
             act_ret (Inr (case captured of Some ord \<Rightarrow> ord | None \<Rightarrow> zeroOrder),
                      if delErr \<noteq> None then [LWarn ''failed to invalidate product cache''] else [])))"

section \<open>HTTP handlers\<close>

record createProductRequest =
  cp_Name :: string
  cp_PriceCents :: int
  cp_Stock :: int

record createOrderRequest =
  co_ProductID :: int
  co_Quantity :: int

datatype payload = PProduct Product | POrder Order | PError string string

text \<open>A response: the status and the value that is encoded as its JSON body.\<close>

type_synonym api_response = "int \<times> payload"

definition writeJSON :: "int \<Rightarrow> payload \<Rightarrow> api_response" where
  "writeJSON status p = (status, p)"

definition writeError :: "int \<Rightarrow> string \<Rightarrow> string \<Rightarrow> api_response" where
  "writeError status code message = writeJSON status (PError code message)"

definition renderServiceError :: "go_error \<Rightarrow> api_response" where
  "renderServiceError err =
     (if errors_Is err ''main.ErrNotFound'' then writeError 404 ''not_found'' ''resource not found''
      else if errors_Is err ''main.ErrInsufficientStock'' then writeError 409 ''insufficient_stock'' (error_text err)
      else writeError 500 ''internal_error'' ''an unexpected error occurred'')"

definition pathID :: "string \<Rightarrow> go_error + int" where
  "pathID param =
     (case ParseInt param of
        Inl err \<Rightarrow> Inl (errors_New ''invalid id'')
      | Inr i \<Rightarrow> if i \<le> 0 then Inl (errors_New ''invalid id'') else Inr i)"

text \<open>\<open>req\<close> is what \<open>decodeJSON\<close> made of the request body.\<close>

definition h_createProduct ::
  "'s pgx \<Rightarrow> 's provider \<Rightarrow> go_ctx \<Rightarrow> go_error + createProductRequest \<Rightarrow> (int \<times> 's, api_response) action" where
  "h_createProduct P prov ctx req =
     (case req of
        Inl err \<Rightarrow> act_ret (writeError 400 ''invalid_request'' (error_text err))
      | Inr r \<Rightarrow>
          if cp_Name r = [] then act_ret (writeError 400 ''invalid_request'' ''name is required'')
          else if cp_PriceCents r < 0 then act_ret (writeError 400 ''invalid_request'' ''price_cents must not be negative'')
          else if cp_Stock r < 0 then act_ret (writeError 400 ''invalid_request'' ''stock must not be negative'')
          else act_bind (CreateProduct P prov ctx (cp_Name r) (cp_PriceCents r) (cp_Stock r)) (\<lambda>res.
            case res of
              Inl err \<Rightarrow> act_ret (renderServiceError err)
            | Inr prd \<Rightarrow> act_ret (writeJSON 201 (PProduct prd))))"

definition h_getProduct ::
  "'s pgx \<Rightarrow> 's provider \<Rightarrow> (int \<times> 's, Product) cache \<Rightarrow> go_ctx \<Rightarrow> string \<Rightarrow> (int \<times> 's, api_response) action" where
  "h_getProduct P prov C ctx param =
     (case pathID param of
        Inl err \<Rightarrow> act_ret (writeError 400 ''invalid_request'' ''id must be a positive integer'')
      | Inr i \<Rightarrow> act_bind (GetProduct P prov C ctx i) (\<lambda>(res, logs).
          case res of
            Inl err \<Rightarrow> act_ret (renderServiceError err)
          | Inr prd \<Rightarrow> act_ret (writeJSON 200 (PProduct prd))))"

definition h_createOrder ::
  "'s pgx \<Rightarrow> 's provider \<Rightarrow> (int \<times> 's, Product) cache \<Rightarrow> go_ctx \<Rightarrow> go_error + createOrderRequest
     \<Rightarrow> (int \<times> 's, api_response) action" where
  "h_createOrder P prov C ctx req =
     (case req of
        Inl err \<Rightarrow> act_ret (writeError 400 ''invalid_request'' (error_text err))
      | Inr r \<Rightarrow>
          if co_ProductID r \<le> 0 then act_ret (writeError 400 ''invalid_request'' ''product_id is required'')
          else if co_Quantity r \<le> 0 then act_ret (writeError 400 ''invalid_request'' ''quantity must be greater than zero'')
          else act_bind (CreateOrder P prov C ctx (co_ProductID r) (co_Quantity r)) (\<lambda>(res, logs).
            case res of
              Inl err \<Rightarrow> act_ret (renderServiceError err)
            | Inr ord \<Rightarrow> act_ret (writeJSON 201 (POrder ord))))"

definition h_getOrder ::
  "'s pgx \<Rightarrow> 's provider \<Rightarrow> go_ctx \<Rightarrow> string \<Rightarrow> (int \<times> 's, api_response) action" where
  "h_getOrder P prov ctx param =
     (case pathID param of
        Inl err \<Rightarrow> act_ret (writeError 400 ''invalid_request'' ''id must be a positive integer'')
      | Inr i \<Rightarrow> act_bind (GetOrder P prov ctx i) (\<lambda>res.
          case res of
            Inl err \<Rightarrow> act_ret (renderServiceError err)
          | Inr ord \<Rightarrow> act_ret (writeJSON 200 (POrder ord))))"

definition Routes :: "(string \<times> string \<times> string) list" where
  "Routes = [(''POST'', ''/products'', ''createProduct''), (''GET'', ''/products/{id}'', ''getProduct''),
             (''POST'', ''/orders'', ''createOrder''), (''GET'', ''/orders/{id}'', ''getOrder'')]"

section \<open>The notification worker\<close>

definition notification_Process ::
  "bool \<Rightarrow> go_ctx \<Rightarrow> task \<Rightarrow> int \<Rightarrow> (go_error option \<times> int \<times> string list) outcome" where
  "notification_Process pick ctx t now =
     (case select2 pick now (Some (now + 100 * Millisecond)) (done_time ctx) of
        Some (True, u) \<Rightarrow> Returned (None, u, [''sending notification'', ''notification sent successfully''])
      | Some (False, u) \<Rightarrow> Returned (ctx_Err ctx u, u, [''sending notification''])
      | None \<Rightarrow> Blocked)"

section \<open>The schema\<close>

text \<open>
  migrations/0001_init.sql: the two tables with their checks and the foreign key, and what the
  repositories' statements do on them. Identifiers are handed out in sequence.
\<close>

record shop =
  sh_products :: "int \<Rightarrow> Product option"
  sh_orders :: "int \<Rightarrow> Order option"
  sh_nextProduct :: int
  sh_nextOrder :: int

definition check_violation :: go_error where
  "check_violation = errors_New ''new row violates check constraint''"

definition fk_violation :: go_error where
  "fk_violation = errors_New ''insert violates foreign key constraint''"

definition product_row :: "Product \<Rightarrow> dbval list" where
  "product_row p = [DInt (p_ID p), DStr (p_Name p), DInt (p_Price p), DInt (p_Stock p), DTime (p_CreatedAt p)]"

definition order_row :: "Order \<Rightarrow> dbval list" where
  "order_row o' = [DInt (o_ID o'), DInt (o_ProductID o'), DInt (o_Quantity o'), DInt (o_Total o'), DTime (o_CreatedAt o')]"

fun run_insert_product :: "dbval list \<Rightarrow> int \<Rightarrow> shop \<Rightarrow> go_error + dbval list list \<times> int \<times> shop" where
  "run_insert_product [DStr name, DInt price, DInt stock] now d =
     (if price < 0 \<or> stock < 0 then Inl check_violation
      else let p = \<lparr>p_CreatedAt = now, p_Name = name, p_ID = sh_nextProduct d, p_Price = price, p_Stock = stock\<rparr>
           in Inr ([product_row p], 1, d\<lparr>sh_products := (sh_products d)(sh_nextProduct d \<mapsto> p),
                                          sh_nextProduct := sh_nextProduct d + 1\<rparr>))"
| "run_insert_product _ now d = Inl (errors_New ''wrong arguments'')"

fun run_select_product :: "dbval list \<Rightarrow> shop \<Rightarrow> go_error + dbval list list \<times> int \<times> shop" where
  "run_select_product [DInt i] d =
     Inr (case sh_products d i of Some p \<Rightarrow> [product_row p] | None \<Rightarrow> [], 0, d)"
| "run_select_product _ d = Inl (errors_New ''wrong arguments'')"

fun run_decrement :: "dbval list \<Rightarrow> shop \<Rightarrow> go_error + dbval list list \<times> int \<times> shop" where
  "run_decrement [DInt q, DInt i] d =
     (case sh_products d i of
        None \<Rightarrow> Inr ([], 0, d)
      | Some p \<Rightarrow>
          if p_Stock p - q < 0 then Inl check_violation
          else if p_Stock p - q \<ge> 2 ^ 63 then Inl (errors_New ''bigint out of range'')
          else Inr ([], 1, d\<lparr>sh_products := (sh_products d)(i \<mapsto> p\<lparr>p_Stock := p_Stock p - q\<rparr>)\<rparr>))"
| "run_decrement _ d = Inl (errors_New ''wrong arguments'')"

fun run_insert_order :: "dbval list \<Rightarrow> int \<Rightarrow> shop \<Rightarrow> go_error + dbval list list \<times> int \<times> shop" where
  "run_insert_order [DInt pid, DInt q, DInt t] now d =
     (if q \<le> 0 \<or> t < 0 then Inl check_violation
      else if sh_products d pid = None then Inl fk_violation
      else let o' = \<lparr>o_CreatedAt = now, o_ID = sh_nextOrder d, o_ProductID = pid, o_Quantity = q, o_Total = t\<rparr>
           in Inr ([order_row o'], 1, d\<lparr>sh_orders := (sh_orders d)(sh_nextOrder d \<mapsto> o'),
                                        sh_nextOrder := sh_nextOrder d + 1\<rparr>))"
| "run_insert_order _ now d = Inl (errors_New ''wrong arguments'')"

fun run_select_order :: "dbval list \<Rightarrow> shop \<Rightarrow> go_error + dbval list list \<times> int \<times> shop" where
  "run_select_order [DInt i] d =
     Inr (case sh_orders d i of Some o' \<Rightarrow> [order_row o'] | None \<Rightarrow> [], 0, d)"
| "run_select_order _ d = Inl (errors_New ''wrong arguments'')"

definition orders_sql :: "shop sql_fn" where
  "orders_sql stmt args now d =
     (if stmt = sql_insert_product then run_insert_product args now d
      else if stmt = sql_select_product \<or> stmt = sql_select_product @ '' FOR UPDATE'' then run_select_product args d
      else if stmt = sql_decrement then run_decrement args d
      else if stmt = sql_insert_order then run_insert_order args now d
      else if stmt = sql_select_order then run_select_order args d
      else Inl (errors_New ''syntax error''))"

lemmas sql_stmts =
  sql_insert_product_def sql_select_product_def sql_decrement_def sql_insert_order_def sql_select_order_def

lemma orders_sql_simps [simp]:
  "orders_sql sql_insert_product args now d = run_insert_product args now d"
  "orders_sql sql_select_product args now d = run_select_product args d"
  "orders_sql (sql_select_product @ '' FOR UPDATE'') args now d = run_select_product args d"
  "orders_sql sql_decrement args now d = run_decrement args d"
  "orders_sql sql_insert_order args now d = run_insert_order args now d"
  "orders_sql sql_select_order args now d = run_select_order args d"
  by (simp_all add: orders_sql_def sql_stmts)

text \<open>
  The world of the deployed service: the reference driver's connection, extended with the cache
  when that is in memory.
\<close>

record shop_state = "shop pg_state" +
  ss_cache :: "Product MemoryCache"

abbreviation shop_pgx :: "(shop, 'z) pg_state_scheme pgx" where
  "shop_pgx \<equiv> ref_pgx orders_sql"

abbreviation shop_prov :: "(shop, 'z) pg_state_scheme provider" where
  "shop_prov \<equiv> NewPoolProvider shop_pgx"

text \<open>The data a query under the context sees.\<close>

definition seen :: "int \<times> (shop, 'z) pg_state_scheme \<Rightarrow> shop" where
  "seen w = top_data (pg_txs (snd w))"

section \<open>What placing an order means\<close>

definition shop_ok :: "shop \<Rightarrow> bool" where
  "shop_ok d \<longleftrightarrow> (\<forall>i p. sh_products d i = Some p \<longrightarrow> 0 \<le> p_Stock p \<and> p_Stock p < 2 ^ 63)"

text \<open>The specification, on the data alone.\<close>

definition buy :: "shop \<Rightarrow> int \<Rightarrow> int \<Rightarrow> int \<Rightarrow> go_error + Order \<times> shop" where
  "buy d pid q now =
     (case sh_products d pid of
        None \<Rightarrow> Inl ErrNotFound
      | Some p \<Rightarrow>
          if p_Stock p < q then Inl (stock_err (p_Stock p) q)
          else if i64 (p_Price p * q) < 0 then Inl (wrapf ''insert order'' check_violation)
          else let o' = \<lparr>o_CreatedAt = now, o_ID = sh_nextOrder d, o_ProductID = pid, o_Quantity = q,
                         o_Total = i64 (p_Price p * q)\<rparr>
               in Inr (o', d\<lparr>sh_products := (sh_products d)(pid \<mapsto> p\<lparr>p_Stock := p_Stock p - q\<rparr>),
                              sh_orders := (sh_orders d)(sh_nextOrder d \<mapsto> o'),
                              sh_nextOrder := sh_nextOrder d + 1\<rparr>))"

lemma row_of [simp]: "product_of (product_row p) = p" "order_of (order_row o') = o'"
  by (simp_all add: product_row_def order_row_def)

text \<open>A context that is never cancelled and carries the innermost transaction.\<close>

definition live :: "go_ctx \<Rightarrow> int \<times> (shop, 'z) pg_state_scheme \<Rightarrow> bool" where
  "live ctx w \<longleftrightarrow> ctx_tx ctx = top_tx (pg_txs (snd w)) \<and> ctx_done ctx = None"

definition stepped :: "shop \<Rightarrow> int \<times> (shop, 'z) pg_state_scheme \<Rightarrow> int \<times> (shop, 'z) pg_state_scheme \<Rightarrow> bool" where
  "stepped d w w' \<longleftrightarrow> pg_txs (snd w') = put_data d (pg_txs (snd w)) \<and> fst w' = fst w + Millisecond
     \<and> pg_state.more (snd w') = pg_state.more (snd w)"

lemma stepped_live: "stepped d w w' \<Longrightarrow> live ctx w \<Longrightarrow> live ctx w'"
  by (simp add: stepped_def live_def)

lemma stepped_seen: "stepped d w w' \<Longrightarrow> seen w' = d"
  by (simp add: stepped_def seen_def)

lemma live_Err: "live ctx w \<Longrightarrow> ctx_Err ctx t = None"
  by (simp add: live_def ctx_Err_def)

lemma live_top: "live ctx w \<Longrightarrow> top_tx (pg_txs (snd w)) = ctx_tx ctx"
  by (simp add: live_def)

lemma pool_fields [simp]:
  "prov_Wait (NewPoolProvider P) = None" "prov_Begin (NewPoolProvider P) = adapter_Begin P None"
  "prov_QueryRow (NewPoolProvider P) = adapter_QueryRow P None" "prov_Exec (NewPoolProvider P) = adapter_Exec P None"
  by (simp_all add: NewPoolProvider_def)

lemma live_querier:
  "live ctx w \<Longrightarrow> q_QueryRow P (NewPoolProvider P) (QuerierFromContext (NewPoolProvider P) ctx) ctx stmt args w
     = act_call (adapter_QueryRow P (top_tx (pg_txs (snd w))) ctx stmt args) w"
  "live ctx w \<Longrightarrow> q_Exec P (NewPoolProvider P) (QuerierFromContext (NewPoolProvider P) ctx) ctx stmt args w
     = act_call (adapter_Exec P (top_tx (pg_txs (snd w))) ctx stmt args) w"
  by (simp_all add: live_top q_QueryRow_def q_Exec_def QuerierFromContext_def TxFromContext_def split: option.split)

definition scan_result :: "go_error + dbval list list \<times> int \<times> shop \<Rightarrow> dbval list \<times> go_error option" where
  "scan_result r =
     (case r of
        Inl e \<Rightarrow> ([], Some (if errors_Is e ''pgx.ErrNoRows'' then ErrNoRows else e))
      | Inr ([], n, d) \<Rightarrow> ([], Some ErrNoRows)
      | Inr (v # vs, n, d) \<Rightarrow> (v, None))"

definition data_after :: "shop \<Rightarrow> go_error + dbval list list \<times> int \<times> shop \<Rightarrow> shop" where
  "data_after d r = (case r of Inl e \<Rightarrow> d | Inr (vs, n, d') \<Rightarrow> d')"

lemma query_scan_run:
  assumes "live ctx w"
  obtains w' where "query_scan shop_pgx shop_prov ctx stmt args w
      = (Returned (scan_result (orders_sql stmt args (fst w) (seen w))), w')"
    and "stepped (data_after (seen w) (orders_sql stmt args (fst w) (seen w))) w w'"
proof -
  let ?r = "orders_sql stmt args (fst w) (seen w)"
  show thesis
  proof (cases ?r)
    case (Inl e)
    with assms show thesis
      by (intro that [of "snd (query_scan shop_pgx shop_prov ctx stmt args w)"])
        (simp_all add: query_scan_def act_bind_def live_querier adapter_QueryRow_def Row_Scan_def pgxRowAdapter_Scan_def
          ref_pgx_def pg_run_def pg_keep_def live_Err seen_def scan_result_def data_after_def stepped_def split_beta)
  next
    case (Inr x)
    obtain vs n d where x: "x = (vs, n, d)" by (cases x) auto
    from Inr x assms show thesis
      by (intro that [of "snd (query_scan shop_pgx shop_prov ctx stmt args w)"]; cases vs)
        (simp_all add: query_scan_def act_bind_def live_querier adapter_QueryRow_def Row_Scan_def pgxRowAdapter_Scan_def
          ref_pgx_def pg_run_def pg_keep_def live_Err seen_def scan_result_def data_after_def stepped_def split_beta
          pgx_ErrNoRows_def)
  qed
qed

lemma scanProduct_run:
  assumes "live ctx w"
  obtains w' where "scanProduct shop_pgx shop_prov ctx i u w
      = (Returned (case sh_products (seen w) i of None \<Rightarrow> Inl ErrNotFound | Some p \<Rightarrow> Inr p), w')"
    and "stepped (seen w) w w'"
proof -
  let ?stmt = "sql_select_product @ (if u then '' FOR UPDATE'' else [])"
  obtain w' where q: "query_scan shop_pgx shop_prov ctx ?stmt [DInt i] w
      = (Returned (scan_result (orders_sql ?stmt [DInt i] (fst w) (seen w))), w')"
    "stepped (data_after (seen w) (orders_sql ?stmt [DInt i] (fst w) (seen w))) w w'"
    using query_scan_run [OF assms] .
  have r: "orders_sql ?stmt [DInt i] (fst w) (seen w) = run_select_product [DInt i] (seen w)" by (cases u) simp_all
  show thesis
    using q unfolding r
    by (intro that [of w']; cases "sh_products (seen w) i")
      (simp_all add: scanProduct_def act_bind_def scan_result_def data_after_def ErrNoRows_def)
qed

lemma DecrementStock_run:
  assumes "live ctx w" and "sh_products (seen w) i = Some p" and "q \<le> p_Stock p" and "p_Stock p - q < 2 ^ 63"
  obtains w' where "DecrementStock shop_pgx shop_prov ctx i q w = (Returned None, w')"
    and "stepped ((seen w)\<lparr>sh_products := (sh_products (seen w))(i \<mapsto> p\<lparr>p_Stock := p_Stock p - q\<rparr>)\<rparr>) w w'"
proof -
  have "run_decrement [DInt q, DInt i] (top_data (pg_txs (snd w)))
      = Inr ([], 1, (seen w)\<lparr>sh_products := (sh_products (seen w))(i \<mapsto> p\<lparr>p_Stock := p_Stock p - q\<rparr>)\<rparr>)"
    using assms(2-4) by (simp add: seen_def)
  with assms(1) show thesis
    by (intro that [of "snd (DecrementStock shop_pgx shop_prov ctx i q w)"])
      (simp_all add: DecrementStock_def act_bind_def live_querier adapter_Exec_def ref_pgx_def pg_run_def live_Err stepped_def)
qed

lemma order_Create_run:
  assumes "live ctx w" and "sh_products (seen w) i \<noteq> None" and "0 < q"
  obtains w' where "order_Create shop_pgx shop_prov ctx i q t w =
      (Returned (if t < 0 then Inl (wrapf ''insert order'' check_violation)
        else Inr \<lparr>o_CreatedAt = fst w, o_ID = sh_nextOrder (seen w), o_ProductID = i, o_Quantity = q, o_Total = t\<rparr>), w')"
    and "stepped (if t < 0 then seen w else (seen w)\<lparr>sh_orders := (sh_orders (seen w))(sh_nextOrder (seen w) \<mapsto>
            \<lparr>o_CreatedAt = fst w, o_ID = sh_nextOrder (seen w), o_ProductID = i, o_Quantity = q, o_Total = t\<rparr>),
          sh_nextOrder := sh_nextOrder (seen w) + 1\<rparr>) w w'"
proof -
  let ?r = "orders_sql sql_insert_order [DInt i, DInt q, DInt t] (fst w) (seen w)"
  obtain w' where w': "query_scan shop_pgx shop_prov ctx sql_insert_order [DInt i, DInt q, DInt t] w = (Returned (scan_result ?r), w')"
    "stepped (data_after (seen w) ?r) w w'"
    using query_scan_run [OF assms(1)] .
  show thesis
    using w' assms(2,3)
    by (intro that [of w'])
      (auto simp: order_Create_def act_bind_def scan_result_def data_after_def check_violation_def Let_def split: if_splits)
qed

lemma place_order_run:
  assumes "live ctx w" and "0 < q" and "shop_ok (seen w)"
  shows "\<exists>w' x. place_order shop_pgx shop_prov pid q ctx w =
      (Returned (case buy (seen w) pid q (fst w + 2 * Millisecond) of Inl e \<Rightarrow> (Some e, zeroOrder) | Inr (o', d) \<Rightarrow> (None, o')), w')
    \<and> pg_txs (snd w') = put_data x (pg_txs (snd w)) \<and> fst w \<le> fst w' \<and> pg_state.more (snd w') = pg_state.more (snd w)
    \<and> (\<forall>o' d. buy (seen w) pid q (fst w + 2 * Millisecond) = Inr (o', d) \<longrightarrow> x = d)"
proof -
  obtain w1 where w1: "scanProduct shop_pgx shop_prov ctx pid True w
      = (Returned (case sh_products (seen w) pid of None \<Rightarrow> Inl ErrNotFound | Some p \<Rightarrow> Inr p), w1)"
    "stepped (seen w) w w1" using scanProduct_run [OF assms(1)] .
  note l1 = stepped_live [OF w1(2) assms(1)] and s1 = stepped_seen [OF w1(2)]
  show ?thesis
  proof (cases "sh_products (seen w) pid")
    case None
    with w1 show ?thesis
      by (auto simp: place_order_def act_bind_def GetForUpdate_def buy_def stepped_def Millisecond_def)
  next
    case (Some p)
    show ?thesis
    proof (cases "p_Stock p < q")
      case True
      with Some w1 show ?thesis
        by (auto simp: place_order_def act_bind_def GetForUpdate_def buy_def stepped_def Millisecond_def)
    next
      case False
      have bound: "p_Stock p - q < 2 ^ 63" using assms(2,3) Some by (force simp: shop_ok_def)
      from False have le: "q \<le> p_Stock p" by simp
      from Some s1 have p1: "sh_products (seen w1) pid = Some p" by simp
      obtain w2 where w2: "DecrementStock shop_pgx shop_prov ctx pid q w1 = (Returned None, w2)"
        "stepped ((seen w1)\<lparr>sh_products := (sh_products (seen w1))(pid \<mapsto> p\<lparr>p_Stock := p_Stock p - q\<rparr>)\<rparr>) w1 w2"
        using DecrementStock_run [OF l1 p1 le bound] .
      note l2 = stepped_live [OF w2(2) l1] and s2 = stepped_seen [OF w2(2)]
      have p2: "sh_products (seen w2) pid \<noteq> None" by (simp add: s2)
      obtain w3 where w3: "order_Create shop_pgx shop_prov ctx pid q (i64 (p_Price p * q)) w2 =
          (Returned (if i64 (p_Price p * q) < 0 then Inl (wrapf ''insert order'' check_violation)
            else Inr \<lparr>o_CreatedAt = fst w2, o_ID = sh_nextOrder (seen w2), o_ProductID = pid, o_Quantity = q,
                       o_Total = i64 (p_Price p * q)\<rparr>), w3)"
        "stepped (if i64 (p_Price p * q) < 0 then seen w2 else (seen w2)\<lparr>sh_orders := (sh_orders (seen w2))(sh_nextOrder (seen w2) \<mapsto>
            \<lparr>o_CreatedAt = fst w2, o_ID = sh_nextOrder (seen w2), o_ProductID = pid, o_Quantity = q, o_Total = i64 (p_Price p * q)\<rparr>),
          sh_nextOrder := sh_nextOrder (seen w2) + 1\<rparr>) w2 w3"
        using order_Create_run [OF l2 p2 assms(2)] .
      have t2: "fst w2 = fst w + 2 * Millisecond" using w1(2) w2(2) by (simp add: stepped_def)
      show ?thesis
        using Some False w1 w2 w3 s1 s2 t2
        by (intro exI [of _ w3] exI [of _ "top_data (pg_txs (snd w3))"]) (auto simp: place_order_def act_bind_def GetForUpdate_def buy_def stepped_def Let_def Millisecond_def)
    qed
  qed
qed

lemma WithTx_place_order:
  assumes "ctx_done ctx = None" and "ctx_tx ctx = None" and "snd (pg_txs (snd w)) = []"
    and "0 < q" and "shop_ok (seen w)"
  shows "\<exists>w'. WithTx_capture shop_pgx shop_prov ctx (place_order shop_pgx shop_prov pid q) w =
      (Returned (case buy (seen w) pid q (fst w + 2 * Millisecond) of
          Inl e \<Rightarrow> (Some e, Some zeroOrder) | Inr (o', d) \<Rightarrow> (None, Some o')), w')
    \<and> pg_txs (snd w') = (case buy (seen w) pid q (fst w + 2 * Millisecond) of
          Inl e \<Rightarrow> pg_txs (snd w) | Inr (o', d) \<Rightarrow> (d, []))
    \<and> fst w \<le> fst w' \<and> pg_state.more (snd w') = pg_state.more (snd w)"
proof -
  obtain b where b: "pg_txs (snd w) = (b, [])" using assms(3) by (cases "pg_txs (snd w)") auto
  let ?h = "pg_next (snd w)" and ?buy = "buy (seen w) pid q (fst w + 2 * Millisecond)"
  let ?wb = "(fst w, (snd w)\<lparr>pg_next := Suc ?h, pg_txs := push_tx ?h (pg_txs (snd w))\<rparr>)"
  have bg: "begin_tx shop_pgx shop_prov ctx w = (Returned (Inr ?h), ?wb)"
    using assms(1,2) b
    by (simp add: begin_tx_def TxFromContext_def ready_wait_def act_bind_def adapter_Begin_def ref_pgx_def ctx_Err_def)
  have "live (ctx\<lparr>ctx_tx := Some ?h\<rparr>) ?wb" "seen ?wb = seen w" "fst ?wb = fst w"
    using assms(1) by (simp_all add: live_def seen_def)
  with place_order_run [of "ctx\<lparr>ctx_tx := Some ?h\<rparr>" ?wb q pid] assms(4,5) obtain w1 x where
    w1: "place_order shop_pgx shop_prov pid q (ctx\<lparr>ctx_tx := Some ?h\<rparr>) ?wb =
      (Returned (case ?buy of Inl e \<Rightarrow> (Some e, zeroOrder) | Inr (o', d) \<Rightarrow> (None, o')), w1)"
    "pg_txs (snd w1) = put_data x (push_tx ?h (pg_txs (snd w)))" "\<forall>o' d. ?buy = Inr (o', d) \<longrightarrow> x = d"
    "fst w \<le> fst w1" "pg_state.more (snd w1) = pg_state.more (snd w)"
    by auto
  have top: "top_tx (pg_txs (snd w1)) = Some ?h" using w1(2) by simp
  show ?thesis
  proof (cases ?buy)
    case (Inl e)
    then show ?thesis
      using bg w1 top b assms(1)
      by (simp add: WithTx_capture_def act_bind_def with_deferred_rollback_def finish_tx_def tx_Rollback_def
          ref_pgx_def pgx_ErrTxClosed_def)
  next
    case (Inr y)
    then obtain o' d where y: "?buy = Inr (o', d)" "x = d" using w1(3) by (cases y) auto
    then show ?thesis
      using bg w1 top b assms(1)
      by (simp add: WithTx_capture_def act_bind_def with_deferred_rollback_def finish_tx_def tx_Rollback_def
          tx_Commit_def ref_pgx_def pgx_ErrTxClosed_def ctx_Err_def Millisecond_def)
  qed
qed

section \<open>Placing an order\<close>

lemma buy_ok:
  assumes "buy d pid q now = Inr (o', d')" and "shop_ok d" and "0 < q"
  shows "\<exists>p. sh_products d pid = Some p \<and> q \<le> p_Stock p
      \<and> sh_products d' = (sh_products d)(pid \<mapsto> p\<lparr>p_Stock := p_Stock p - q\<rparr>)
      \<and> sh_orders d' = (sh_orders d)(o_ID o' \<mapsto> o') \<and> o_Quantity o' = q \<and> o_ProductID o' = pid"
    and "shop_ok d'"
proof -
  obtain p where p: "sh_products d pid = Some p" "q \<le> p_Stock p"
    "sh_products d' = (sh_products d)(pid \<mapsto> p\<lparr>p_Stock := p_Stock p - q\<rparr>)"
    "sh_orders d' = (sh_orders d)(o_ID o' \<mapsto> o')" "o_Quantity o' = q" "o_ProductID o' = pid"
    using assms(1) by (auto simp: buy_def Let_def split: option.splits if_splits)
  then show "\<exists>p. sh_products d pid = Some p \<and> q \<le> p_Stock p
      \<and> sh_products d' = (sh_products d)(pid \<mapsto> p\<lparr>p_Stock := p_Stock p - q\<rparr>)
      \<and> sh_orders d' = (sh_orders d)(o_ID o' \<mapsto> o') \<and> o_Quantity o' = q \<and> o_ProductID o' = pid" by blast
  have "0 \<le> p_Stock p - q" "p_Stock p - q < 2 ^ 63" using p(1,2) assms(2,3) by (force simp: shop_ok_def)+
  with assms(2) p(3) show "shop_ok d'" by (auto simp: shop_ok_def)
qed

text \<open>\<open>CreateOrder\<close> up to the cache: the transaction, then one \<open>Delete\<close> on success.\<close>

lemma CreateOrder_run:
  assumes "ctx_done ctx = None" and "ctx_tx ctx = None" and "snd (pg_txs (snd w)) = []"
    and "0 < q" and "shop_ok (seen w)"
  obtains w1 where "pg_txs (snd w1) = (case buy (seen w) pid q (fst w + 2 * Millisecond) of
          Inl e \<Rightarrow> pg_txs (snd w) | Inr (o', d) \<Rightarrow> (d, []))"
    and "fst w \<le> fst w1" and "pg_state.more (snd w1) = pg_state.more (snd w)"
    and "CreateOrder shop_pgx shop_prov C ctx pid q w =
      (case buy (seen w) pid q (fst w + 2 * Millisecond) of
         Inl e \<Rightarrow> (Returned (Inl e, []), w1)
       | Inr (o', d) \<Rightarrow> act_bind (cache_Delete C ctx (productCacheKey pid)) (\<lambda>delErr.
             act_ret (Inr o', if delErr \<noteq> None then [LWarn ''failed to invalidate product cache''] else [])) w1)"
proof -
  obtain w1 where w1: "WithTx_capture shop_pgx shop_prov ctx (place_order shop_pgx shop_prov pid q) w =
      (Returned (case buy (seen w) pid q (fst w + 2 * Millisecond) of
          Inl e \<Rightarrow> (Some e, Some zeroOrder) | Inr (o', d) \<Rightarrow> (None, Some o')), w1)"
    "pg_txs (snd w1) = (case buy (seen w) pid q (fst w + 2 * Millisecond) of
          Inl e \<Rightarrow> pg_txs (snd w) | Inr (o', d) \<Rightarrow> (d, []))"
    "fst w \<le> fst w1" "pg_state.more (snd w1) = pg_state.more (snd w)"
    using WithTx_place_order [OF assms, of pid] by blast
  show thesis
    using that [OF w1(2-4)] w1(1)
    by (cases "buy (seen w) pid q (fst w + 2 * Millisecond)") (auto simp: CreateOrder_def act_bind_def)
qed

text \<open>
  C1: \<open>CreateOrder\<close> implements its specification. On the schema of the migration, for an uncancelled
  request outside a transaction, it returns what \<open>buy\<close> says: the product exists and has the stock,
  then the stock goes down by exactly the quantity and stays in range, and exactly one order is
  added; otherwise it returns the error (not found, insufficient stock, or the insert's) and the
  database is as before. No transaction stays open. The cache may do what it likes as long as it
  does not touch the database.
\<close>

theorem CreateOrder_refines:
  assumes "ctx_done ctx = None" and "ctx_tx ctx = None" and "snd (pg_txs (snd w)) = []"
    and "0 < q" and "shop_ok (seen w)"
    and "\<And>k v. \<exists>e v'. cache_Delete C ctx k v = (Returned e, v') \<and> pg_txs (snd v') = pg_txs (snd v)"
  shows "\<exists>logs w'. case buy (seen w) pid q (fst w + 2 * Millisecond) of
      Inl e \<Rightarrow> CreateOrder shop_pgx shop_prov C ctx pid q w = (Returned (Inl e, logs), w')
        \<and> pg_txs (snd w') = pg_txs (snd w)
    | Inr (o', d) \<Rightarrow> CreateOrder shop_pgx shop_prov C ctx pid q w = (Returned (Inr o', logs), w')
        \<and> pg_txs (snd w') = (d, []) \<and> shop_ok d
        \<and> (\<exists>p. sh_products (seen w) pid = Some p \<and> q \<le> p_Stock p
             \<and> sh_products d = (sh_products (seen w))(pid \<mapsto> p\<lparr>p_Stock := p_Stock p - q\<rparr>)
             \<and> sh_orders d = (sh_orders (seen w))(o_ID o' \<mapsto> o') \<and> o_Quantity o' = q \<and> o_ProductID o' = pid)"
proof -
  let ?buy = "buy (seen w) pid q (fst w + 2 * Millisecond)"
  obtain w1 where w1: "pg_txs (snd w1) = (case ?buy of Inl e \<Rightarrow> pg_txs (snd w) | Inr (o', d) \<Rightarrow> (d, []))"
    "CreateOrder shop_pgx shop_prov C ctx pid q w =
      (case ?buy of
         Inl e \<Rightarrow> (Returned (Inl e, []), w1)
       | Inr (o', d) \<Rightarrow> act_bind (cache_Delete C ctx (productCacheKey pid)) (\<lambda>delErr.
             act_ret (Inr o', if delErr \<noteq> None then [LWarn ''failed to invalidate product cache''] else [])) w1)"
    using CreateOrder_run [OF assms(1-5), of pid C] by metis
  obtain e v' where del: "cache_Delete C ctx (productCacheKey pid) w1 = (Returned e, v')" "pg_txs (snd v') = pg_txs (snd w1)"
    using assms(6) by blast
  show ?thesis
  proof (cases ?buy)
    case (Inl x)
    with w1 show ?thesis by auto
  next
    case (Inr y)
    then obtain o' d where y: "?buy = Inr (o', d)" by (cases y) auto
    with w1 del buy_ok [OF y assms(5,4)] show ?thesis by (auto simp: act_bind_def)
  qed
qed

text \<open>The in-memory cache inside the world.\<close>

definition at_cache :: "(Product MemoryCache \<Rightarrow> 'a \<times> Product MemoryCache) \<Rightarrow> int \<times> shop_state \<Rightarrow> 'a \<times> int \<times> shop_state" where
  "at_cache f w = (case f (ss_cache (snd w)) of (r, c) \<Rightarrow> (r, fst w, (snd w)\<lparr>ss_cache := c\<rparr>))"

definition shop_cache :: "Product codec \<Rightarrow> (int \<times> shop_state, Product) cache" where
  "shop_cache dc =
     \<lparr>cache_Get = (\<lambda>ctx k d. at_cache (mc_Get dc ctx k d)), cache_Set = (\<lambda>ctx k v ttl. at_cache (mc_Set dc ctx k v ttl)),
      cache_Delete = (\<lambda>ctx k. at_cache (mc_Delete ctx k)), cache_Exists = (\<lambda>ctx k. at_cache (mc_Exists ctx k))\<rparr>"

interpretation shopc: lossy_cache "shop_cache dc" dc "\<lambda>w. mc_data (ss_cache (snd w))" "\<lambda>w. mc_codec (ss_cache (snd w)) = None"
  for dc
  by unfold_locales
    (auto simp: shop_cache_def at_cache_def mc_defs mc_codecOrDefault_def map_le_def split: option.splits sum.splits)

text \<open>A shop with one product, a codec for it, and its world.\<close>

definition pen :: Product where
  "pen = \<lparr>p_CreatedAt = 0, p_Name = ''pen'', p_ID = 1, p_Price = 250, p_Stock = 10\<rparr>"

definition pen_codec :: "Product codec" where
  "pen_codec = \<lparr>Marshal = (\<lambda>p. if p = pen then Inr ''pen'' else Inl (errors_New ''unknown product'')),
     Unmarshal = (\<lambda>b d. if b = ''pen'' then (pen, None) else (d, Some (errors_New ''malformed'')))\<rparr>"

definition pen_shop :: "Product \<Rightarrow> shop" where
  "pen_shop p = \<lparr>sh_products = [1 \<mapsto> p], sh_orders = (\<lambda>_. None), sh_nextProduct = 2, sh_nextOrder = 1\<rparr>"

definition pen_world :: "Product \<Rightarrow> shop_state" where
  "pen_world p = \<lparr>pg_txs = (pen_shop p, []), pg_next = 0, pg_results = (\<lambda>_. ([], None)), ss_cache = mc_New []\<rparr>"

lemma shop_cache_Delete: "\<exists>e v'. cache_Delete (shop_cache dc) ctx k v = (Returned e, v') \<and> pg_txs (snd v') = pg_txs (snd v)"
  by (simp add: shop_cache_def at_cache_def mc_Delete_def)

theorem CreateOrder_refines_witness:
  "\<exists>o' logs w'. CreateOrder shop_pgx shop_prov (shop_cache pen_codec) Background 1 3 (0, pen_world pen) = (Returned (Inr o', logs), w')
     \<and> sh_products (fst (pg_txs (snd w'))) 1 = Some (pen\<lparr>p_Stock := 7\<rparr>) \<and> o_Total o' = 750"
proof -
  have hyps: "ctx_done Background = None" "ctx_tx Background = None" "snd (pg_txs (snd (0, pen_world pen))) = []"
    "(0 :: int) < 3" "shop_ok (seen (0, pen_world pen))"
    by (simp_all add: Background_def pen_world_def pen_shop_def seen_def shop_ok_def pen_def)
  have "\<exists>o' d. buy (seen (0, pen_world pen)) 1 3 (fst (0, pen_world pen) + 2 * Millisecond) = Inr (o', d)
      \<and> sh_products d 1 = Some (pen\<lparr>p_Stock := 7\<rparr>) \<and> o_Total o' = 750"
    by (simp add: buy_def seen_def pen_world_def pen_shop_def pen_def Let_def)
  with CreateOrder_refines [of Background "(0, pen_world pen)" 3 "shop_cache pen_codec" 1, OF hyps shop_cache_Delete]
  show ?thesis by auto
qed

section \<open>Reading products through the cache\<close>

text \<open>
  What a cache key should hold: the product it names, if the key is one that \<open>productCacheKey\<close> makes.
\<close>

definition key_id :: "string \<Rightarrow> int" where
  "key_id k =
     (case drop 8 k of c # cs \<Rightarrow> if c = CHR ''-'' then - int (read_nat cs) else int (read_nat (c # cs)) | [] \<Rightarrow> 0)"

definition product_at :: "shop \<Rightarrow> string \<Rightarrow> Product option" where
  "product_at d k = (if k = productCacheKey (key_id k) then sh_products d (key_id k) else None)"

lemma key_id_key [simp]: "key_id (productCacheKey i) = i"
proof (cases "i < 0")
  case True
  then show ?thesis by (simp add: key_id_def productCacheKey_def fmt_d_def)
next
  case False
  have "show_nat (nat i) \<noteq> []" by (metis show_nat_nonempty)
  then obtain c cs where c: "show_nat (nat i) = c # cs" by (cases "show_nat (nat i)") auto
  then have "c \<noteq> CHR ''-''" using show_nat_digits [of c "nat i"] minus_not_digit by auto
  moreover have "int (read_nat (c # cs)) = i" using False c read_show_nat [of "nat i"] by simp
  ultimately show ?thesis using False c by (simp add: key_id_def productCacheKey_def fmt_d_def)
qed

lemma product_at_key [simp]: "product_at d (productCacheKey i) = sh_products d i"
  by (simp add: product_at_def)

lemma product_at_update:
  assumes "sh_products d' = (sh_products d)(i \<mapsto> p)"
  shows "product_at d' = (product_at d)(productCacheKey i \<mapsto> p)"
proof
  fix k
  show "product_at d' k = ((product_at d)(productCacheKey i \<mapsto> p)) k"
    using assms by (cases "k = productCacheKey i") (auto simp: product_at_def)
qed

text \<open>
  What the service relies on: a cache whose operations return and leave the database alone, and
  whose entries no database step creates or changes (they may expire meanwhile).
\<close>

locale product_cache = lossy_cache C K view inv
  for C :: "(int \<times> (shop, 'z) pg_state_scheme, Product) cache" and K view inv +
  assumes frame: "inv w \<Longrightarrow> fst w \<le> fst w' \<Longrightarrow> pg_state.more (snd w') = pg_state.more (snd w)
      \<Longrightarrow> inv w' \<and> view w' \<subseteq>\<^sub>m view w"
    and get_returns: "inv w \<Longrightarrow> \<exists>d' e w'. cache_Get C ctx key d w = (Returned (d', e), w') \<and> pg_txs (snd w') = pg_txs (snd w)"
    and set_returns: "inv w \<Longrightarrow> \<exists>e w'. cache_Set C ctx key v ttl w = (Returned e, w') \<and> pg_txs (snd w') = pg_txs (snd w)"
    and delete_returns: "inv w \<Longrightarrow> \<exists>e w'. cache_Delete C ctx key w = (Returned e, w') \<and> pg_txs (snd w') = pg_txs (snd w)"
begin

text \<open>The invariant of the cache-aside pattern: every entry encodes the current row.\<close>

definition fresh :: "int \<times> (shop, 'z) pg_state_scheme \<Rightarrow> bool" where
  "fresh w \<longleftrightarrow> inv w \<and> coherent (product_at (seen w)) w"

lemma GetProduct_current:
  assumes "live ctx w" and "fresh w" and "reads_back (\<lambda>p. sh_products (seen w) i = Some p) K"
  shows "\<exists>logs w'. GetProduct shop_pgx shop_prov C ctx i w =
      (Returned (case sh_products (seen w) i of None \<Rightarrow> Inl ErrNotFound | Some p \<Rightarrow> Inr p, logs), w')
    \<and> fresh w' \<and> pg_txs (snd w') = pg_txs (snd w)"
proof -
  let ?k = "productCacheKey i" and ?f = "product_at (seen w)"
  have inv: "inv w" "coherent ?f w" using assms(2) by (simp_all add: fresh_def)
  obtain q e w1 where g: "cache_Get C ctx ?k zeroProduct w = (Returned (q, e), w1)" "pg_txs (snd w1) = pg_txs (snd w)"
    using get_returns [OF inv(1)] by blast
  note c1 = coherent_get [OF inv g(1)]
  have s1: "seen w1 = seen w" using g(2) by (simp add: seen_def)
  show ?thesis
  proof (cases e)
    case None
    with c1(3) obtain v b where "sh_products (seen w) i = Some v" "Marshal K v = Inr b" "Unmarshal K b zeroProduct = (q, None)"
      by auto
    with reads_backD [OF assms(3)] have "sh_products (seen w) i = Some q" by blast
    with None g c1(1,2) s1 show ?thesis by (simp add: GetProduct_def Let_def act_bind_def fresh_def)
  next
    case (Some err)
    have "live ctx w1" using assms(1) g(2) by (simp add: live_def)
    then obtain w2 where w2: "product_GetByID shop_pgx shop_prov ctx i w1 =
        (Returned (case sh_products (seen w1) i of None \<Rightarrow> Inl ErrNotFound | Some p \<Rightarrow> Inr p), w2)"
      "stepped (seen w1) w1 w2"
      unfolding product_GetByID_def by (rule scanProduct_run)
    have "fst w1 \<le> fst w2" "pg_state.more (snd w2) = pg_state.more (snd w1)"
      using w2(2) by (simp_all add: stepped_def Millisecond_def)
    from frame [OF c1(1) this] coherent_sub [OF c1(2)] have c2: "inv w2" "coherent ?f w2" by blast+
    have t2: "pg_txs (snd w2) = pg_txs (snd w)" using w2(2) g(2) by (simp add: stepped_def seen_def)
    then have s2: "seen w2 = seen w" by (simp add: seen_def)
    show ?thesis
    proof (cases "sh_products (seen w) i")
      case None
      with Some g w2(1) c2 s1 s2 t2 show ?thesis by (simp add: GetProduct_def Let_def act_bind_def fresh_def)
    next
      case p: (Some p)
      obtain e' w3 where st: "cache_Set C ctx ?k p productCacheTTL w2 = (Returned e', w3)" "pg_txs (snd w3) = pg_txs (snd w2)"
        using set_returns [OF c2(1)] by blast
      have "?f ?k = Some p" using p by simp
      note c3 = coherent_set [OF c2 this st(1)]
      have "seen w3 = seen w" using st(2) t2 by (simp add: seen_def)
      with Some g w2(1) p c3 s1 st t2 show ?thesis by (simp add: GetProduct_def Let_def act_bind_def fresh_def)
    qed
  qed
qed

text \<open>An order keeps the invariant unless it has logged that the invalidation failed.\<close>

lemma CreateOrder_fresh:
  assumes "ctx_done ctx = None" and "ctx_tx ctx = None" and "snd (pg_txs (snd w)) = []"
    and "0 < q" and "shop_ok (seen w)" and "fresh w"
  obtains r logs w' where "CreateOrder shop_pgx shop_prov C ctx pid q w = (Returned (r, logs), w')"
    and "r = (case buy (seen w) pid q (fst w + 2 * Millisecond) of Inl e \<Rightarrow> Inl e | Inr (o', d) \<Rightarrow> Inr o')"
    and "pg_txs (snd w') = (case buy (seen w) pid q (fst w + 2 * Millisecond) of Inl e \<Rightarrow> pg_txs (snd w) | Inr (o', d) \<Rightarrow> (d, []))"
    and "logs = [] \<Longrightarrow> fresh w'"
proof -
  let ?buy = "buy (seen w) pid q (fst w + 2 * Millisecond)" and ?k = "productCacheKey pid"
  obtain w1 where w1: "pg_txs (snd w1) = (case ?buy of Inl e \<Rightarrow> pg_txs (snd w) | Inr (o', d) \<Rightarrow> (d, []))"
    "fst w \<le> fst w1" "pg_state.more (snd w1) = pg_state.more (snd w)"
    "CreateOrder shop_pgx shop_prov C ctx pid q w =
      (case ?buy of
         Inl e \<Rightarrow> (Returned (Inl e, []), w1)
       | Inr (o', d) \<Rightarrow> act_bind (cache_Delete C ctx ?k) (\<lambda>delErr.
             act_ret (Inr o', if delErr \<noteq> None then [LWarn ''failed to invalidate product cache''] else [])) w1)"
    using CreateOrder_run [OF assms(1-5), of pid C] by metis
  have inv: "inv w" "coherent (product_at (seen w)) w" using assms(6) by (simp_all add: fresh_def)
  from frame [OF inv(1) w1(2,3)] coherent_sub [OF inv(2)] have c1: "inv w1" "coherent (product_at (seen w)) w1" by blast+
  show thesis
  proof (cases ?buy)
    case (Inl e)
    then have "seen w1 = seen w" using w1(1) by (simp add: seen_def)
    with Inl w1 c1 show thesis by (intro that [of "Inl e" "[]" w1]) (simp_all add: fresh_def)
  next
    case (Inr y)
    then obtain o' d where y: "?buy = Inr (o', d)" by (cases y) auto
    obtain p' where p': "sh_products d = (sh_products (seen w))(pid \<mapsto> p')" using buy_ok(1) [OF y assms(5,4)] by blast
    obtain de w2 where del: "cache_Delete C ctx ?k w1 = (Returned de, w2)" "pg_txs (snd w2) = pg_txs (snd w1)"
      using delete_returns [OF c1(1)] by blast
    have s2: "seen w2 = d" using del(2) w1(1) y by (simp add: seen_def)
    have fr: "fresh w2" if "de = None"
      using coherent_delete(1) [OF c1, of ctx ?k w2] coherent_delete(2) [OF c1, of ctx ?k w2 "Some p'"] del(1) that
      by (simp add: fresh_def s2 product_at_update [OF p'])
    show thesis
      using y w1 del fr
      by (intro that [of "Inr o'" "if de \<noteq> None then [LWarn ''failed to invalidate product cache''] else []" w2])
        (auto simp: act_bind_def split: if_splits)
  qed
qed

end

interpretation shopp: product_cache "shop_cache dc" dc "\<lambda>w. mc_data (ss_cache (snd w))" "\<lambda>w. mc_codec (ss_cache (snd w)) = None"
  for dc
proof unfold_locales
  fix w w' :: "int \<times> shop_state"
  assume "mc_codec (ss_cache (snd w)) = None" "fst w \<le> fst w'" "pg_state.more (snd w') = pg_state.more (snd w)"
  moreover from this(3) have "ss_cache (snd w') = ss_cache (snd w)" by (cases "snd w"; cases "snd w'") auto
  ultimately show "mc_codec (ss_cache (snd w')) = None \<and> mc_data (ss_cache (snd w')) \<subseteq>\<^sub>m mc_data (ss_cache (snd w))" by simp
qed (auto simp: shop_cache_def at_cache_def mc_defs split: option.splits sum.splits prod.splits)

text \<open>The invariant for the in-memory cache, written out.\<close>

definition shop_fresh :: "Product codec \<Rightarrow> int \<times> shop_state \<Rightarrow> bool" where
  "shop_fresh dc w \<longleftrightarrow> mc_codec (ss_cache (snd w)) = None
     \<and> (\<forall>key b. mc_data (ss_cache (snd w)) key = Some b
          \<longrightarrow> (\<exists>p. product_at (seen w) key = Some p \<and> Marshal dc p = Inr b))"

lemma shopp_fresh: "shopp.fresh dc w = shop_fresh dc w"
  by (simp add: shopp.fresh_def shopc.coherent_def shop_fresh_def)

lemma shop_cache_delete_silent: "fst (cache_Delete (shop_cache dc) ctx k v) = Returned None"
  by (simp add: shop_cache_def at_cache_def mc_Delete_def)

lemma CreateOrder_silent:
  assumes "ctx_done ctx = None" and "ctx_tx ctx = None" and "snd (pg_txs (snd w)) = []"
    and "0 < q" and "shop_ok (seen w)"
    and "CreateOrder shop_pgx shop_prov (shop_cache dc) ctx pid q w = (Returned (r, logs), w')"
  shows "logs = []"
proof -
  let ?buy = "buy (seen w) pid q (fst w + 2 * Millisecond)"
  obtain w1 where "CreateOrder shop_pgx shop_prov (shop_cache dc) ctx pid q w =
      (case ?buy of
         Inl e \<Rightarrow> (Returned (Inl e, []), w1)
       | Inr (o', d) \<Rightarrow> act_bind (cache_Delete (shop_cache dc) ctx (productCacheKey pid)) (\<lambda>delErr.
             act_ret (Inr o', if delErr \<noteq> None then [LWarn ''failed to invalidate product cache''] else [])) w1)"
    using CreateOrder_run [OF assms(1-5), of pid "shop_cache dc"] by metis
  with assms(6) shop_cache_delete_silent [of dc ctx "productCacheKey pid" w1] show ?thesis
    by (cases ?buy) (auto simp: act_bind_def split: prod.splits)
qed

text \<open>
  The cache-aside read is transparent. When every cache entry encodes the current row,
  \<open>GetProduct\<close> returns exactly the current row (or not found), through the cache or through the
  database, leaves the database alone, and the entries it may add are again current. Only the codec
  has to read back what it wrote.
\<close>

theorem GetProduct_fresh:
  assumes "live ctx w" and "shop_fresh dc w"
    and "\<And>p b d. Marshal dc p = Inr b \<Longrightarrow> Unmarshal dc b d = (p, None)"
  shows "\<exists>logs w'. GetProduct shop_pgx shop_prov (shop_cache dc) ctx i w =
      (Returned (case sh_products (seen w) i of None \<Rightarrow> Inl ErrNotFound | Some p \<Rightarrow> Inr p, logs), w')
    \<and> shop_fresh dc w' \<and> pg_txs (snd w') = pg_txs (snd w)"
  using shopp.GetProduct_current [of ctx w dc i] assms(1,2) exact_reads_back [OF assms(3)] unfolding shopp_fresh by blast

lemma pen_codec_ok: "Marshal pen_codec p = Inr b \<Longrightarrow> Unmarshal pen_codec b d = (p, None)"
  by (auto simp: pen_codec_def split: if_splits)

lemma pen_world_simps:
  "seen (t, pen_world p) = pen_shop p" "snd (pg_txs (pen_world p)) = []" "shop_fresh pen_codec (t, pen_world p)"
  "live Background (t, pen_world p)" "sh_products (pen_shop p) 1 = Some p"
  by (simp_all add: seen_def pen_world_def live_def shop_fresh_def Background_def mc_New_def pen_shop_def)

theorem GetProduct_fresh_witness:
  "\<exists>logs w'. GetProduct shop_pgx shop_prov (shop_cache pen_codec) Background 1 (0, pen_world pen) = (Returned (Inr pen, logs), w')"
  using GetProduct_fresh [OF pen_world_simps(4) [of 0 pen] pen_world_simps(3) pen_codec_ok, of 1]
  by (auto simp: pen_world_simps)

text \<open>
  An order is seen by the next read. From a current cache, an order that succeeds leaves a
  current cache, so a read of the product afterwards returns the decremented stock even when the old
  row was cached; an order that fails leaves the cache as current as it was.
\<close>

theorem order_then_read:
  assumes "ctx_done ctx = None" and "ctx_tx ctx = None" and "snd (pg_txs (snd w)) = []"
    and "0 < q" and "shop_ok (seen w)" and "shop_fresh dc w"
    and "\<And>p b d. Marshal dc p = Inr b \<Longrightarrow> Unmarshal dc b d = (p, None)"
  shows "\<exists>r logs w'. CreateOrder shop_pgx shop_prov (shop_cache dc) ctx pid q w = (Returned (r, logs), w')
    \<and> r = (case buy (seen w) pid q (fst w + 2 * Millisecond) of Inl e \<Rightarrow> Inl e | Inr (o', d) \<Rightarrow> Inr o')
    \<and> shop_fresh dc w'
    \<and> (\<forall>o'. r = Inr o' \<longrightarrow> (\<exists>p logs' w''. sh_products (seen w) pid = Some p
        \<and> GetProduct shop_pgx shop_prov (shop_cache dc) ctx pid w'
          = (Returned (Inr (p\<lparr>p_Stock := p_Stock p - q\<rparr>), logs'), w'')))"
proof -
  let ?buy = "buy (seen w) pid q (fst w + 2 * Millisecond)"
  have fr: "shopp.fresh dc w" using assms(6) by (simp add: shopp_fresh)
  obtain r logs w' where r: "CreateOrder shop_pgx shop_prov (shop_cache dc) ctx pid q w = (Returned (r, logs), w')"
    "r = (case ?buy of Inl e \<Rightarrow> Inl e | Inr (o', d) \<Rightarrow> Inr o')"
    "pg_txs (snd w') = (case ?buy of Inl e \<Rightarrow> pg_txs (snd w) | Inr (o', d) \<Rightarrow> (d, []))"
    "logs = [] \<Longrightarrow> shopp.fresh dc w'"
    using shopp.CreateOrder_fresh [OF assms(1-5) fr, of pid] by blast
  have fw: "shopp.fresh dc w'" using r(4) CreateOrder_silent [OF assms(1-5) r(1)] .
  have "\<exists>p logs' w''. sh_products (seen w) pid = Some p
      \<and> GetProduct shop_pgx shop_prov (shop_cache dc) ctx pid w'
        = (Returned (Inr (p\<lparr>p_Stock := p_Stock p - q\<rparr>), logs'), w'')" if ok: "r = Inr o'" for o'
  proof -
    from ok r(2) obtain d where d: "?buy = Inr (o', d)" by (auto split: sum.splits)
    obtain p where p: "sh_products (seen w) pid = Some p" "sh_products d = (sh_products (seen w))(pid \<mapsto> p\<lparr>p_Stock := p_Stock p - q\<rparr>)"
      using buy_ok(1) [OF d assms(5,4)] by blast
    have s: "seen w' = d" "live ctx w'" using r(3) d assms(1,2) by (simp_all add: seen_def live_def)
    show ?thesis
      using shopp.GetProduct_current [OF s(2) fw exact_reads_back [OF assms(7)], of pid] p s(1) by auto
  qed
  with r(1,2) fw show ?thesis unfolding shopp_fresh by blast
qed

text \<open>The shop with the product already cached.\<close>

definition pen_cached :: shop_state where
  "pen_cached = (pen_world pen)\<lparr>ss_cache := (mc_New [])\<lparr>mc_data := [productCacheKey 1 \<mapsto> ''pen'']\<rparr>\<rparr>"

lemma pen_cached_simps:
  "seen (t, pen_cached) = pen_shop pen" "snd (pg_txs (snd (t, pen_cached))) = []" "shop_fresh pen_codec (t, pen_cached)"
  "shop_ok (seen (t, pen_cached))"
  by (simp_all add: pen_cached_def seen_def pen_world_def mc_New_def shop_fresh_def pen_shop_def pen_codec_def shop_ok_def pen_def)

lemma pen_order: "\<exists>o' d. buy (pen_shop pen) 1 3 t = Inr (o', d)"
  by (simp add: buy_def pen_shop_def pen_def Let_def)

theorem order_then_read_witness:
  "\<exists>o' logs w' logs' w''. CreateOrder shop_pgx shop_prov (shop_cache pen_codec) Background 1 3 (0, pen_cached) = (Returned (Inr o', logs), w')
     \<and> shop_fresh pen_codec w'
     \<and> GetProduct shop_pgx shop_prov (shop_cache pen_codec) Background 1 w' = (Returned (Inr (pen\<lparr>p_Stock := 7\<rparr>), logs'), w'')"
proof -
  have bg: "ctx_done Background = None" "ctx_tx Background = None" "(0 :: int) < 3" by (simp_all add: Background_def)
  obtain o' d where buy: "buy (pen_shop pen) 1 3 (2 * Millisecond) = Inr (o', d)" using pen_order by blast
  obtain r logs w' where
    o: "CreateOrder shop_pgx shop_prov (shop_cache pen_codec) Background 1 3 (0, pen_cached) = (Returned (r, logs), w')"
      "r = (case buy (pen_shop pen) 1 3 (2 * Millisecond) of Inl e \<Rightarrow> Inl e | Inr (o', d) \<Rightarrow> Inr o')"
      "shop_fresh pen_codec w'"
    and read: "\<And>o'. r = Inr o' \<Longrightarrow> \<exists>p logs' w''. sh_products (pen_shop pen) 1 = Some p
        \<and> GetProduct shop_pgx shop_prov (shop_cache pen_codec) Background 1 w'
          = (Returned (Inr (p\<lparr>p_Stock := p_Stock p - 3\<rparr>), logs'), w'')"
    using order_then_read [OF bg(1,2) pen_cached_simps(2) bg(3) pen_cached_simps(4) pen_cached_simps(3) pen_codec_ok, of 1 0]
    unfolding pen_cached_simps by auto
  have "r = Inr o'" using o(2) buy by simp
  with o(1,3) read [OF this] show ?thesis by (auto simp: pen_shop_def pen_def)
qed

section \<open>The HTTP surface\<close>

text \<open>The status \<open>POST /orders\<close> should answer, from the request and the data.\<close>

definition order_status :: "shop \<Rightarrow> go_error + createOrderRequest \<Rightarrow> int" where
  "order_status d req =
     (case req of
        Inl e \<Rightarrow> 400
      | Inr r \<Rightarrow>
          if co_ProductID r \<le> 0 \<or> co_Quantity r \<le> 0 then 400
          else case sh_products d (co_ProductID r) of
            None \<Rightarrow> 404
          | Some p \<Rightarrow> if p_Stock p < co_Quantity r then 409
                      else if i64 (p_Price p * co_Quantity r) < 0 then 500 else 201)"

lemma render_cases:
  "fst (renderServiceError ErrNotFound) = 404" "fst (renderServiceError (stock_err n m)) = 409"
  "fst (renderServiceError (wrapf s check_violation)) = 500"
  by (simp_all add: renderServiceError_def writeError_def writeJSON_def ErrNotFound_def stock_err_def
      ErrInsufficientStock_def wrapf_def check_violation_def errors_New_def)

lemma buy_status:
  assumes "0 < co_ProductID r" and "0 < co_Quantity r"
  shows "order_status d (Inr r) =
      (case buy d (co_ProductID r) (co_Quantity r) t of Inl e \<Rightarrow> fst (renderServiceError e) | Inr x \<Rightarrow> 201)"
  using assms by (auto simp: order_status_def buy_def render_cases Let_def split: option.split)

text \<open>
  C19: \<open>POST /orders\<close> answers 400 to a malformed request, 404 for an unknown product, 409 when the
  stock is short, 500 when the database refuses the total, and 201 with the new order otherwise; the
  database changes only with a 201, and then as \<open>buy\<close> says. A 400 has no effect at all.
\<close>

theorem createOrder_statuses:
  assumes "ctx_done ctx = None" and "ctx_tx ctx = None" and "snd (pg_txs (snd w)) = []" and "shop_ok (seen w)"
    and "\<And>k v. \<exists>e v'. cache_Delete C ctx k v = (Returned e, v') \<and> pg_txs (snd v') = pg_txs (snd v)"
  shows "\<exists>body w'. h_createOrder shop_pgx shop_prov C ctx req w = (Returned (order_status (seen w) req, body), w')
    \<and> (order_status (seen w) req = 400 \<longrightarrow> w' = w)
    \<and> (order_status (seen w) req \<noteq> 201 \<longrightarrow> pg_txs (snd w') = pg_txs (snd w))
    \<and> (order_status (seen w) req = 201 \<longrightarrow> (\<exists>r o' d. req = Inr r \<and> body = POrder o' \<and> pg_txs (snd w') = (d, [])
         \<and> buy (seen w) (co_ProductID r) (co_Quantity r) (fst w + 2 * Millisecond) = Inr (o', d)))"
proof (cases "\<exists>r. req = Inr r \<and> 0 < co_ProductID r \<and> 0 < co_Quantity r")
  case False
  then show ?thesis
    by (cases w; cases req) (auto simp: h_createOrder_def order_status_def writeError_def writeJSON_def not_less)
next
  case True
  then obtain r where r: "req = Inr r" "0 < co_ProductID r" "0 < co_Quantity r" by blast
  let ?buy = "buy (seen w) (co_ProductID r) (co_Quantity r) (fst w + 2 * Millisecond)"
  have st: "order_status (seen w) req = (case ?buy of Inl e \<Rightarrow> fst (renderServiceError e) | Inr x \<Rightarrow> 201)"
    using buy_status [OF r(2,3)] r(1) by simp
  obtain w1 where w1: "pg_txs (snd w1) = (case ?buy of Inl e \<Rightarrow> pg_txs (snd w) | Inr (o', d) \<Rightarrow> (d, []))"
    "CreateOrder shop_pgx shop_prov C ctx (co_ProductID r) (co_Quantity r) w =
      (case ?buy of
         Inl e \<Rightarrow> (Returned (Inl e, []), w1)
       | Inr (o', d) \<Rightarrow> act_bind (cache_Delete C ctx (productCacheKey (co_ProductID r))) (\<lambda>delErr.
             act_ret (Inr o', if delErr \<noteq> None then [LWarn ''failed to invalidate product cache''] else [])) w1)"
    using CreateOrder_run [OF assms(1-3) r(3) assms(4), of "co_ProductID r" C] by metis
  obtain e v' where del: "cache_Delete C ctx (productCacheKey (co_ProductID r)) w1 = (Returned e, v')" "pg_txs (snd v') = pg_txs (snd w1)"
    using assms(5) by blast
  show ?thesis
  proof (cases ?buy)
    case (Inl x)
    have "fst (renderServiceError x) \<noteq> 400" "fst (renderServiceError x) \<noteq> 201"
      by (simp_all add: renderServiceError_def writeError_def writeJSON_def)
    with Inl w1 st r show ?thesis by (cases "renderServiceError x") (simp add: h_createOrder_def act_bind_def)
  next
    case (Inr y)
    then obtain o' d where y: "?buy = Inr (o', d)" by (cases y) auto
    with w1 del st r show ?thesis by (simp add: h_createOrder_def act_bind_def writeJSON_def)
  qed
qed

theorem createOrder_statuses_witness:
  "\<exists>body w'. h_createOrder shop_pgx shop_prov (shop_cache pen_codec) Background (Inr \<lparr>co_ProductID = 1, co_Quantity = 11\<rparr>) (0, pen_cached)
       = (Returned (409, body), w') \<and> pg_txs (snd w') = (pen_shop pen, [])"
proof -
  have bg: "ctx_done Background = None" "ctx_tx Background = None" by (simp_all add: Background_def)
  have st: "order_status (seen (0, pen_cached)) (Inr \<lparr>co_ProductID = 1, co_Quantity = 11\<rparr>) = 409"
    by (simp add: pen_cached_simps order_status_def pen_shop_def pen_def)
  show ?thesis
    using createOrder_statuses [of Background "(0, pen_cached)" "shop_cache pen_codec" "Inr \<lparr>co_ProductID = 1, co_Quantity = 11\<rparr>",
        OF bg pen_cached_simps(2) pen_cached_simps(4) shop_cache_Delete] st
    by (auto simp: pen_cached_def pen_world_def)
qed

text \<open>
  Path ids are exactly the positive 64-bit integers: what \<open>pathID\<close> accepts is in that range, it
  reads every decimal numeral in the range back as its number, and refuses every numeral outside it.
\<close>

theorem pathID_exact:
  "(\<forall>s. case pathID s of Inl e \<Rightarrow> e = errors_New ''invalid id'' | Inr i \<Rightarrow> 0 < i \<and> i < 2 ^ 63)
   \<and> (\<forall>i. pathID (fmt_d i) = (if 0 < i \<and> i < 2 ^ 63 then Inr i else Inl (errors_New ''invalid id'')))"
proof (intro conjI allI)
  show "case pathID s of Inl e \<Rightarrow> e = errors_New ''invalid id'' | Inr i \<Rightarrow> 0 < i \<and> i < 2 ^ 63" for s
    by (auto simp: pathID_def ParseInt_def Let_def split: sum.splits if_splits prod.splits)
  show "pathID (fmt_d i) = (if 0 < i \<and> i < 2 ^ 63 then Inr i else Inl (errors_New ''invalid id''))" for i
    by (simp add: pathID_def ParseInt_fmt_d not_less)
qed


text \<open>
  An ordinary miss of the in-memory cache is logged as a cache error: the error text is
  the key, a colon and \<open>cache miss\<close>, which is neither of the two texts \<open>GetProduct\<close> compares with.
\<close>

theorem GetProduct_miss_warns:
  "\<exists>r w'. GetProduct shop_pgx shop_prov (shop_cache pen_codec) Background 1 (0, pen_world pen)
      = (Returned (r, [LWarn ''cache error or malformed entry'']), w') \<and> r = Inr pen"
proof -
  have "cache_Get (shop_cache pen_codec) Background (productCacheKey 1) zeroProduct (0, pen_world pen)
      = (Returned (zeroProduct, Some (wrapf (productCacheKey 1) ErrCacheMiss)), (0, pen_world pen))"
    by (simp add: shop_cache_def at_cache_def mc_defs pen_world_def mc_New_def)
  moreover obtain w2 where g: "product_GetByID shop_pgx shop_prov Background 1 (0, pen_world pen) = (Returned (Inr pen), w2)"
      "stepped (pen_shop pen) (0, pen_world pen) w2"
    unfolding product_GetByID_def using scanProduct_run [OF pen_world_simps(4) [of 0 pen], of 1 False] by (auto simp: pen_world_simps)
  moreover have "error_text (wrapf (productCacheKey 1) ErrCacheMiss) = productCacheKey 1 @ '': cache miss''"
    by (simp add: wrapf_def ErrCacheMiss_def)
  moreover have "\<exists>w3. cache_Set (shop_cache pen_codec) Background (productCacheKey 1) pen productCacheTTL w2 = (Returned None, w3)"
  proof -
    have "pg_state.more (snd w2) = pg_state.more (pen_world pen)" using g(2) by (simp add: stepped_def)
    then have "ss_cache (snd w2) = mc_New []" by (cases "snd w2") (simp add: pen_world_def)
    then show ?thesis by (simp add: shop_cache_def at_cache_def mc_defs mc_codecOrDefault_def mc_New_def pen_codec_def)
  qed
  ultimately show ?thesis
    by (auto simp: GetProduct_def Let_def act_bind_def productCacheKey_def)
qed

end
