(* ===== verification/Telemetry.thy ===== *)
theory Telemetry
  imports Runner
begin

text \<open>
  core/trace_handler.go and core/otelkit/hooks.go: trace-correlated logging and the metrics hooks.
  The wrapped \<open>slog.Handler\<close> is the parameter \<open>slog\<close>, a record of its methods on handler values
  \<open>'b\<close>; the span context of a call is an optional pair of identifiers, \<open>None\<close> when it is not valid.
  A meter is the parameter that creates the instruments by name; what is recorded is appended to a
  list of samples.
\<close>

section \<open>TraceHandler\<close>

type_synonym attr = "string \<times> string"

record ('b, 'r, 'o) slog =
  slog_Enabled :: "'b \<Rightarrow> int \<Rightarrow> bool"
  slog_WithAttrs :: "attr list \<Rightarrow> 'b \<Rightarrow> 'b"
  slog_WithGroup :: "string \<Rightarrow> 'b \<Rightarrow> 'b"
  slog_Handle :: "'b \<Rightarrow> 'r \<Rightarrow> 'o"

record handlerOp =
  op_isGroup :: bool
  op_name :: string
  op_attrs :: "attr list"

record 'b TraceHandler =
  th_base :: 'b
  th_ops :: "handlerOp list"

definition NewTraceHandler :: "'b \<Rightarrow> 'b TraceHandler" where
  "NewTraceHandler base = \<lparr>th_base = base, th_ops = []\<rparr>"

definition th_Enabled :: "('b, 'r, 'o) slog \<Rightarrow> 'b TraceHandler \<Rightarrow> int \<Rightarrow> bool" where
  "th_Enabled S h level = slog_Enabled S (th_base h) level"

fun apply_ops :: "('b, 'r, 'o) slog \<Rightarrow> handlerOp list \<Rightarrow> 'b \<Rightarrow> 'b" where
  "apply_ops S [] b = b"
| "apply_ops S (op # ops) b =
     apply_ops S ops (if op_isGroup op then slog_WithGroup S (op_name op) b else slog_WithAttrs S (op_attrs op) b)"

definition th_Handle :: "('b, 'r, 'o) slog \<Rightarrow> (string \<times> string) option \<Rightarrow> 'b TraceHandler \<Rightarrow> 'r \<Rightarrow> 'o" where
  "th_Handle S span h r =
     (let handler = (case span of
          Some (traceID, spanID) \<Rightarrow> slog_WithAttrs S [(''trace_id'', traceID), (''span_id'', spanID)] (th_base h)
        | None \<Rightarrow> th_base h)
      in slog_Handle S (apply_ops S (th_ops h) handler) r)"

definition th_WithAttrs :: "attr list \<Rightarrow> 'b TraceHandler \<Rightarrow> 'b TraceHandler" where
  "th_WithAttrs attrs h =
     \<lparr>th_base = th_base h, th_ops = th_ops h @ [\<lparr>op_isGroup = False, op_name = [], op_attrs = attrs\<rparr>]\<rparr>"

definition th_WithGroup :: "string \<Rightarrow> 'b TraceHandler \<Rightarrow> 'b TraceHandler" where
  "th_WithGroup name h =
     \<lparr>th_base = th_base h, th_ops = th_ops h @ [\<lparr>op_isGroup = True, op_name = name, op_attrs = []\<rparr>]\<rparr>"

section \<open>OTelHooks\<close>

text \<open>\<open>duration.Milliseconds()\<close>.\<close>

definition Milliseconds :: "int \<Rightarrow> int" where
  "Milliseconds d = i64 (d sdiv 1000000)"

datatype label = LStr string string | LBool string bool

record sample =
  sm_instrument :: string
  sm_value :: int
  sm_labels :: "label list"

record OTelHooks =
  oh_startDuration :: string
  oh_stopDuration :: string
  oh_healthDuration :: string
  oh_healthErrorsTotal :: string

text \<open>\<open>meter name\<close> is the error of creating the instrument, \<open>None\<close> when it succeeds.\<close>

definition NewHooks :: "(string \<Rightarrow> go_error option) \<Rightarrow> go_error + OTelHooks" where
  "NewHooks meter =
     (case meter ''bootkit.component.start.duration'' of
        Some err \<Rightarrow> Inl err
      | None \<Rightarrow>
     (case meter ''bootkit.component.stop.duration'' of
        Some err \<Rightarrow> Inl err
      | None \<Rightarrow>
     (case meter ''bootkit.health.duration'' of
        Some err \<Rightarrow> Inl err
      | None \<Rightarrow>
     (case meter ''bootkit.health.errors.total'' of
        Some err \<Rightarrow> Inl err
      | None \<Rightarrow>
          Inr \<lparr>oh_startDuration = ''bootkit.component.start.duration'',
               oh_stopDuration = ''bootkit.component.stop.duration'',
               oh_healthDuration = ''bootkit.health.duration'',
               oh_healthErrorsTotal = ''bootkit.health.errors.total''\<rparr>))))"

definition otel_OnComponentStart :: "OTelHooks \<Rightarrow> string \<Rightarrow> int \<Rightarrow> go_error option \<Rightarrow> sample list \<Rightarrow> sample list" where
  "otel_OnComponentStart h name duration err samples =
     samples @ [\<lparr>sm_instrument = oh_startDuration h, sm_value = Milliseconds duration,
                 sm_labels = [LStr ''component'' name, LBool ''error'' (err \<noteq> None)]\<rparr>]"

definition otel_OnComponentStop :: "OTelHooks \<Rightarrow> string \<Rightarrow> int \<Rightarrow> go_error option \<Rightarrow> sample list \<Rightarrow> sample list" where
  "otel_OnComponentStop h name duration err samples =
     samples @ [\<lparr>sm_instrument = oh_stopDuration h, sm_value = Milliseconds duration,
                 sm_labels = [LStr ''component'' name, LBool ''error'' (err \<noteq> None)]\<rparr>]"

definition otel_OnHealthEvaluated :: "OTelHooks \<Rightarrow> string \<Rightarrow> int \<Rightarrow> go_error option \<Rightarrow> sample list \<Rightarrow> sample list" where
  "otel_OnHealthEvaluated h kind duration err samples =
     (let attrs = [LStr ''kind'' kind, LBool ''error'' (err \<noteq> None)];
          s1 = samples @ [\<lparr>sm_instrument = oh_healthDuration h, sm_value = Milliseconds duration, sm_labels = attrs\<rparr>]
      in if err \<noteq> None then s1 @ [\<lparr>sm_instrument = oh_healthErrorsTotal h, sm_value = 1, sm_labels = attrs\<rparr>] else s1)"

definition otel_hooks :: "OTelHooks \<Rightarrow> sample list hooks" where
  "otel_hooks h =
     \<lparr>OnComponentStart = otel_OnComponentStart h, OnComponentStop = otel_OnComponentStop h,
      OnHealthEvaluated = otel_OnHealthEvaluated h\<rparr>"

section \<open>A structured handler\<close>

text \<open>
  What slog documents of a handler: \<open>WithGroup\<close> qualifies the attributes that come later, \<open>WithAttrs\<close>
  adds attributes under the groups opened so far. The state is the open groups and the attributes
  with their paths; handling a record emits them and then the record's own under the open groups.
\<close>

type_synonym node = "string list \<times> (string list \<times> attr) list"

definition node_slog :: "(node, attr list, (string list \<times> attr) list) slog" where
  "node_slog =
     \<lparr>slog_Enabled = (\<lambda>b level. 0 \<le> level),
      slog_WithAttrs = (\<lambda>attrs b. (fst b, snd b @ map (Pair (fst b)) attrs)),
      slog_WithGroup = (\<lambda>name b. (fst b @ [name], snd b)),
      slog_Handle = (\<lambda>b r. snd b @ map (Pair (fst b)) r)\<rparr>"

lemma apply_ops_append [simp]: "apply_ops S (xs @ ys) b = apply_ops S ys (apply_ops S xs b)"
  by (induction xs arbitrary: b) simp_all

lemma node_ops:
  "apply_ops node_slog ops (g, as) = (fst (apply_ops node_slog ops (g, [])), as @ snd (apply_ops node_slog ops (g, [])))"
proof (induction ops arbitrary: g as)
  case Nil
  then show ?case by simp
next
  case (Cons op ops)
  show ?case
  proof (cases "op_isGroup op")
    case True
    then show ?thesis using Cons.IH [of "g @ [op_name op]" as] by (simp add: node_slog_def)
  next
    case False
    then show ?thesis
      using Cons.IH [of g "as @ map (Pair g) (op_attrs op)"] Cons.IH [of g "map (Pair g) (op_attrs op)"]
      by (simp add: node_slog_def)
  qed
qed

section \<open>Properties\<close>

text \<open>
  The trace handler is transparent. Whatever chain of \<open>WithAttrs\<close> and \<open>WithGroup\<close> calls built it,
  a record handled without a valid span is handled exactly as the wrapped handler would after the
  same calls; with a span, exactly as if the trace attributes had been added to the wrapped handler
  before all of them. For a structured handler the identifiers then stand at the root of the
  output, outside every group, and the rest is unchanged.
\<close>

theorem trace_handler_transparent:
  "th_Handle S None h r = slog_Handle S (apply_ops S (th_ops h) (th_base h)) r
   \<and> th_Handle S (Some (tid, sid)) h r = th_Handle S None
       \<lparr>th_base = slog_WithAttrs S [(''trace_id'', tid), (''span_id'', sid)] (th_base h), th_ops = th_ops h\<rparr> r
   \<and> apply_ops S (th_ops (th_WithAttrs attrs h)) b = slog_WithAttrs S attrs (apply_ops S (th_ops h) b)
   \<and> apply_ops S (th_ops (th_WithGroup g h)) b = slog_WithGroup S g (apply_ops S (th_ops h) b)
   \<and> th_Handle node_slog (Some (tid, sid)) \<lparr>th_base = ([], []), th_ops = ops\<rparr> rec
     = [([], (''trace_id'', tid)), ([], (''span_id'', sid))] @ th_Handle node_slog None \<lparr>th_base = ([], []), th_ops = ops\<rparr> rec"
proof -
  have "apply_ops node_slog ops (slog_WithAttrs node_slog [(''trace_id'', tid), (''span_id'', sid)] ([], []))
    = apply_ops node_slog ops ([], [([], (''trace_id'', tid)), ([], (''span_id'', sid))])"
    by (simp add: node_slog_def)
  also have "\<dots> = (fst (apply_ops node_slog ops ([], [])),
      [([], (''trace_id'', tid)), ([], (''span_id'', sid))] @ snd (apply_ops node_slog ops ([], [])))"
    by (rule node_ops)
  finally show ?thesis
    by (simp add: th_Handle_def th_WithAttrs_def th_WithGroup_def) (simp add: node_slog_def)
qed

lemma Milliseconds_exact:
  "0 \<le> d \<Longrightarrow> d < 2 ^ 63 \<Longrightarrow> Milliseconds d = d div 1000000"
proof -
  assume d: "0 \<le> d" "d < 2 ^ 63"
  then have "d sdiv 1000000 = d div 1000000" by (auto simp: signed_divide_int_def sgn_if)
  moreover have "d div 1000000 \<le> d div 1" using d by (intro zdiv_mono2) auto
  ultimately show ?thesis using d unfolding Milliseconds_def by (subst i64_id) (simp_all add: pos_imp_zdiv_nonneg_iff order_le_less_trans)
qed

definition stop_labels :: "stop_call \<Rightarrow> label list" where
  "stop_labels c = [LStr ''component'' (sc_name c), LBool ''error'' (sc_err c \<noteq> None)]"

lemma shutdown_loop_samples:
  assumes "n \<le> length (services r)" and "run_hooks r = otel_hooks H"
    and "shutdown_loop (traced_runner r) ctx n rem now (w, l) h = (errs, logs, t, (w', l'), h')"
  shows "\<exists>calls samples. l' = l @ calls \<and> h' = h @ samples
    \<and> map sm_labels samples = map stop_labels calls \<and> (\<forall>s\<in>set samples. sm_instrument s = oh_stopDuration H)"
  using assms(1,3)
proof (induction n arbitrary: rem now w l h errs logs)
  case 0
  then show ?case by simp
next
  case (Suc i)
  let ?svc = "services r ! i"
  let ?budget = "i64 (rem sdiv i64 (int (Suc i)))"
  obtain e t1 w1 where st: "svc_Stop ?svc (WithTimeout ctx now ?budget) now w = (e, t1, w1)"
    by (cases "svc_Stop ?svc (WithTimeout ctx now ?budget) now w") auto
  let ?call = "\<lparr>sc_name = svc_Name ?svc, sc_ctx = WithTimeout ctx now ?budget, sc_at = now, sc_err = e\<rparr>"
  let ?left = "i64 (rem - (t1 - now))"
  let ?rem = "if ?left < 0 then 0 else ?left"
  let ?h = "otel_OnComponentStop H (svc_Name ?svc) (t1 - now) e h"
  obtain errs2 logs2 where
    rec: "shutdown_loop (traced_runner r) ctx i ?rem t1 (w1, l @ [?call]) ?h = (errs2, logs2, t, (w', l'), h')"
    using Suc.prems st assms(2) by (cases e) (auto simp: Let_def otel_hooks_def split: prod.splits)
  from Suc.IH [OF _ rec] Suc.prems(1) obtain calls samples where
    c: "l' = l @ ?call # calls" "h' = ?h @ samples" "map sm_labels samples = map stop_labels calls"
    "\<forall>s\<in>set samples. sm_instrument s = oh_stopDuration H"
    by auto
  let ?s = "\<lparr>sm_instrument = oh_stopDuration H, sm_value = Milliseconds (t1 - now), sm_labels = stop_labels ?call\<rparr>"
  have "?h = h @ [?s]" by (simp add: otel_OnComponentStop_def stop_labels_def)
  with c show ?case by (intro exI [of _ "?call # calls"] exI [of _ "?s # samples"]) auto
qed

text \<open>
  The metrics of a shutdown. With the hooks \<open>NewHooks\<close> built, a shutdown records one stop-duration
  sample per service, in the order of the stops, labelled with the component's name and whether
  its \<open>Stop\<close> failed, and nothing else.
\<close>

theorem shutdown_metrics:
  assumes "NewHooks meter = Inr H" and "run_hooks r = otel_hooks H"
    and "shutdownOrchestrator (traced_runner r) ctx now (w, []) h = (errs, logs, t, (w', calls), h')"
  shows "\<exists>samples. h' = h @ samples
    \<and> map sm_labels samples = map (\<lambda>c. [LStr ''component'' (sc_name c), LBool ''error'' (sc_err c \<noteq> None)]) calls
    \<and> (\<forall>s\<in>set samples. sm_instrument s = ''bootkit.component.stop.duration'')"
proof -
  have H: "oh_stopDuration H = ''bootkit.component.stop.duration''"
    using assms(1) by (auto simp: NewHooks_def split: option.splits)
  note loop = assms(3) [unfolded shutdownOrchestrator_def traced_runner_frame length_map]
  from shutdown_loop_samples [OF order_refl assms(2) loop] H show ?thesis
    by (auto simp: stop_labels_def)
qed

definition metered_runner :: "OTelHooks \<Rightarrow> (nat, sample list) runner" where
  "metered_runner H = NewApplicationRunner
     [WithHooks (Some (otel_hooks H)), WithServices [slow_service ''http'' (Some (errors_New ''boom''))]]"

theorem shutdown_metrics_witness:
  "\<exists>H errs logs t w' calls h'. NewHooks (\<lambda>_. None) = Inr H
     \<and> shutdownOrchestrator (traced_runner (metered_runner H)) Background 0 (0, []) [] = (errs, logs, t, (w', calls), h')
     \<and> map sm_labels h' = [[LStr ''component'' ''http'', LBool ''error'' True]]"
proof -
  obtain H where H: "NewHooks (\<lambda>_. None) = Inr H" by (simp add: NewHooks_def)
  have hooks: "run_hooks (metered_runner H) = otel_hooks H"
    by (simp add: metered_runner_def NewApplicationRunner_def WithHooks_def WithServices_def)
  obtain errs logs t w' calls h' where run:
    "shutdownOrchestrator (traced_runner (metered_runner H)) Background 0 (0, []) [] = (errs, logs, t, (w', calls), h')"
    by (metis prod.exhaust)
  have svcs: "services (metered_runner H) = [slow_service ''http'' (Some (errors_New ''boom''))]"
    "shutdownTimeout (metered_runner H) = 15000000000"
    by (simp_all add: metered_runner_def NewApplicationRunner_def WithHooks_def WithServices_def Second_def)
  have "map (\<lambda>c. (sc_name c, sc_err c \<noteq> None)) calls = [(''http'', True)]"
    using run by (auto simp: shutdownOrchestrator_def svcs Let_def select2_def done_time_def WithTimeout_def Background_def)
  then have "map (\<lambda>c. [LStr ''component'' (sc_name c), LBool ''error'' (sc_err c \<noteq> None)]) calls
      = [[LStr ''component'' ''http'', LBool ''error'' True]]" by auto
  with shutdown_metrics [OF H hooks run] H run show ?thesis by auto
qed

end
