(* ===== verification/App.thy ===== *)
theory App
  imports Orders Telemetry
begin

text \<open>
  examples/orders/main.go: how \<open>run\<close> builds the service from the kits, up to the call of
  \<open>runner.Run\<close>. The components' \<open>Stop\<close> methods and what the probes see (the pool, the Redis client
  and the moments at which the asynq client, the asynq server and the HTTP server became ready) are
  parameters, since they belong to the running process and not to its construction.
\<close>

section \<open>Construction\<close>

type_synonym 'w stop_fn = "go_ctx \<Rightarrow> int \<Rightarrow> 'w \<Rightarrow> go_error option \<times> int \<times> 'w"

record 'w stops =
  stop_db :: "'w stop_fn"
  stop_cache :: "'w stop_fn"
  stop_client :: "'w stop_fn"
  stop_worker :: "'w stop_fn"
  stop_http :: "'w stop_fn"

record ('p, 'cl, 's, 'u) probes =
  pr_pool :: "'p option"
  pr_db :: 's
  pr_client :: "'cl option"
  pr_redis :: 'u
  pr_pick :: bool
  pr_clientReady :: "int option"
  pr_workerReady :: "int option"
  pr_httpReady :: "int option"

definition serviceName :: string where
  "serviceName = ''orders-example''"

definition app_component :: "string \<Rightarrow> 'w stop_fn \<Rightarrow> check list \<Rightarrow> 'w component" where
  "app_component name stop checks =
     \<lparr>svc_Name = name, svc_Stop = stop, svc_Readyable = True, svc_Checks = Some checks\<rparr>"

definition mount_Routes :: "('mw, string) router \<Rightarrow> ('mw, string) router" where
  "mount_Routes r = r\<lparr>rt_routes := rt_routes r @ map (\<lambda>(m, p, h). (m, p, AppHandler h)) Routes\<rparr>"

definition worker_config :: "unit ServerConfig" where
  "worker_config =
     \<lparr>sc_Concurrency = 5, sc_Queues = (), sc_StrictPriority = False, sc_ShutdownTimeout = 0, sc_RetryDelayFunc = None\<rparr>"

text \<open>
  The handler of the worker, \<open>processor.Process\<close>, on a clock; its log entries go to slog.
\<close>

definition notification_handler :: "bool \<Rightarrow> go_ctx \<Rightarrow> task \<Rightarrow> (int, go_error option) action" where
  "notification_handler pick ctx t now =
     (case notification_Process pick ctx t now of
        Returned (err, u, logs) \<Rightarrow> (Returned err, u)
      | Panicked p \<Rightarrow> (Panicked p, now)
      | Blocked \<Rightarrow> (Blocked, now))"

text \<open>
  \<open>tracing\<close> is the error of \<open>setupTracing\<close>. The result is the runner that \<open>Run\<close> is called on, the
  router and the HTTP server.
\<close>

definition run_app ::
  "(string \<Rightarrow> string) \<Rightarrow> go_error option \<Rightarrow> ('p, 's) pgxpool \<Rightarrow> ('cl, 'u) redis \<Rightarrow> ('p, 'cl, 's, 'u) probes \<Rightarrow> 'w stops
     \<Rightarrow> (go_error + ('w, 'h) runner \<times> (unit, string) router \<times> (unit, string) router HTTPServer) outcome" where
  "run_app getenv tracing PP R pr st =
     (case LoadConfig getenv of
        Inl err \<Rightarrow> Returned (Inl err)
      | Inr cfg \<Rightarrow>
      case tracing of
        Some err \<Rightarrow> Returned (Inl err)
      | None \<Rightarrow>
      case NewPostgresDB PP (DBConnStr cfg) [db_WithLogger True] of
        Inl err \<Rightarrow> Returned (Inl err)
      | Inr (db, config) \<Rightarrow>
      case NewRedisCache (RedisAddr cfg) [rc_WithPassword (RedisPassword cfg), rc_WithLogger True] of
        Inl err \<Rightarrow> Returned (Inl err)
      | Inr cache \<Rightarrow>
        let dbc = app_component (db_name db) (stop_db st) (db_HealthChecks PP (db\<lparr>db_pool := pr_pool pr\<rparr>) (pr_db pr));
            cachec = app_component (rc_name cache) (stop_cache st)
              (rc_HealthChecks R ((cache :: ('cl, Product) RedisCache)\<lparr>rc_client := pr_client pr\<rparr>) (pr_redis pr));
            workerRedis = \<lparr>rcfg_Addr = RedisAddr cfg, rcfg_Password = RedisPassword cfg, rcfg_DB = 0, rcfg_Username = [], rcfg_TLS = False\<rparr>;
            asyncClient = NewAsynqClient ''notification-client'' workerRedis;
            asyncServer = as_HandleFunc ''notification:send'' (notification_handler (pr_pick pr))
              (NewAsynqServer ''notification-worker'' workerRedis worker_config);
            clientc = app_component (ac_Name asyncClient) (stop_client st)
              (ac_HealthChecks asyncClient (pr_pick pr) (pr_clientReady pr));
            workerc = app_component (as_Name asyncServer) (stop_worker st)
              (as_HealthChecks asyncServer (pr_pick pr) (pr_workerReady pr));
            runner = NewApplicationRunner [WithLogger True, WithServices [dbc, cachec, clientc, workerc]]
        in case NewDefaultRouter (HealthAggregator runner) [] of
             Panicked p \<Rightarrow> Panicked p
           | Blocked \<Rightarrow> Blocked
           | Returned router0 \<Rightarrow>
               let router = mount_Routes router0
               in case NewHTTPServer serviceName (HTTPAddr cfg) (Some router) [hs_WithLogger True] of
                    Inl err \<Rightarrow> Returned (Inl err)
                  | Inr server \<Rightarrow>
                      let httpc = app_component (hs_name server) (stop_http st) (hs_HealthChecks server (pr_httpReady pr))
                      in Returned (Inr (WithServices [httpc] runner, router, server)))"

end
