(* ===== verification/AppLife.thy ===== *)
theory AppLife
  imports App
begin

text \<open>
  The orders service from start to exit: the \<open>Lifecycle\<close> of each component with its closures, the
  connect and stop closures of the five components on one external world, the runner's shutdown
  over them, and around it the tracer that main.go sets up and flushes.
\<close>

section \<open>A Lifecycle and its closures\<close>

text \<open>
  One call of \<open>Start\<close> and the calls of \<open>Stop\<close> as Go runs them, with the closures. Connecting works on
  a world outside of the component.
\<close>

type_synonym 'x connect_fn = "go_ctx \<Rightarrow> int \<Rightarrow> 'x \<Rightarrow> (go_error + 'x stop_fn option) \<times> int \<times> 'x"

record 'x life =
  lf_stopFunc :: "'x stop_fn option"
  lf_ready :: bool
  lf_stopped :: bool

definition new_life :: "'x life" where
  "new_life = \<lparr>lf_stopFunc = None, lf_ready = False, lf_stopped = False\<rparr>"

text \<open>
  \<open>Start\<close> up to the point where it returns, or, with the outcome \<open>Blocked\<close>, where it waits for its
  context to end, which it then returns the error of.
\<close>

definition lf_Start ::
  "'x connect_fn option \<Rightarrow> go_ctx \<Rightarrow> int \<Rightarrow> 'x \<Rightarrow> 'x life \<Rightarrow> go_error option outcome \<times> int \<times> 'x \<times> 'x life" where
  "lf_Start Connect ctx now x l =
     (case Connect of
        None \<Rightarrow> (Returned (Some (errors_New ''core.Lifecycle: Connect closure is not set'')), now, x, l)
      | Some connect \<Rightarrow>
          (case connect ctx now x of
             (Inl err, t, x') \<Rightarrow> (Returned (Some err), t, x', l)
           | (Inr stop, t, x') \<Rightarrow>
               if lf_stopped l
               then (case stop of
                       Some f \<Rightarrow> (case f ctx t x' of (err, t', x'') \<Rightarrow> (Returned err, t', x'', l))
                     | None \<Rightarrow> (Returned None, t, x', l))
               else (Blocked, t, x', l\<lparr>lf_stopFunc := stop, lf_ready := True\<rparr>)))"

definition lf_Stop :: "go_ctx \<Rightarrow> int \<Rightarrow> 'x \<Rightarrow> 'x life \<Rightarrow> (go_error option \<times> int \<times> 'x) \<times> 'x life" where
  "lf_Stop ctx now x l =
     (if lf_stopped l then ((None, now, x), l)
      else (case lf_stopFunc l of Some f \<Rightarrow> f ctx now x | None \<Rightarrow> (None, now, x), l\<lparr>lf_stopped := True\<rparr>))"

text \<open>
  These are the atomic actions of the interleaved Lifecycle in one piece: \<open>life_abs\<close> forgets the
  closure and keeps a number for the resource.
\<close>

definition life_abs :: "nat \<Rightarrow> 'x life \<Rightarrow> lifecycle" where
  "life_abs r l =
     \<lparr>Connect_set = True, mu_locked = False, ready_made = True, ready_closed = lf_ready l,
      stopFunc = map_option (\<lambda>_. r) (lf_stopFunc l), stopped = lf_stopped l\<rparr>"

lemma lf_Stop_refines:
  "life_abs r (snd (lf_Stop ctx now x l)) = Stop_leave (snd (Stop_enter (life_abs r l)))"
  "fst (lf_Stop ctx now x l) =
     (case fst (Stop_enter (life_abs r l)) of StopReleasing _ \<Rightarrow> the (lf_stopFunc l) ctx now x | _ \<Rightarrow> (None, now, x))"
  by (simp_all add: lf_Stop_def life_abs_def Stop_enter_def Stop_leave_def split: option.split)

lemma lf_Start_refines:
  assumes "connect ctx now x = (Inr (Some f), t, x')" and "\<not> lf_ready l"
  shows "life_abs r (snd (snd (snd (lf_Start (Some connect) ctx now x l)))) =
    (case Start_commit (Some r) (life_abs r l) of
       (Publishing, l') \<Rightarrow> snd (Start_publish l') | (_, l') \<Rightarrow> l')"
  using assms
  by (cases "f ctx t x'") (auto simp: lf_Start_def life_abs_def Start_commit_def Start_publish_def)

section \<open>The components' closures\<close>

text \<open>What the components act on: the pools, the Redis clients, the asynq queue and the HTTP server's log.\<close>

record ('s, 'u, 'q) ext =
  x_db :: 's
  x_redis :: 'u
  x_asynq :: 'q
  x_log :: "string list"

text \<open>Stop closures of the pool and of the client; both were made by a successful connect and cannot panic.\<close>

definition db_closure :: "('p, 's) pgxpool \<Rightarrow> 'p PostgresDB \<Rightarrow> ('s, 'u, 'q) ext stop_fn" where
  "db_closure PP db ctx now x =
     (case pg_stop PP db ctx (now, x_db x) of
        (Returned err, t, s) \<Rightarrow> (err, t, x\<lparr>x_db := s\<rparr>)
      | (_, t, s) \<Rightarrow> (None, t, x\<lparr>x_db := s\<rparr>))"

definition db_Connect ::
  "('p, 's) pgxpool \<Rightarrow> (nat \<Rightarrow> int \<Rightarrow> int option) \<Rightarrow> (nat \<Rightarrow> bool) \<Rightarrow> pool_config \<Rightarrow> 'p PostgresDB \<Rightarrow> ('s, 'u, 'q) ext connect_fn" where
  "db_Connect PP rand pick config db ctx now x =
     (case pg_connect PP rand pick ctx config db (now, x_db x) of
        (Some err, db', t, s) \<Rightarrow> (Inl err, t, x\<lparr>x_db := s\<rparr>)
      | (None, db', t, s) \<Rightarrow> (Inr (Some (db_closure PP db')), t, x\<lparr>x_db := s\<rparr>))"

definition redis_closure :: "('cl, 'u) redis \<Rightarrow> ('cl, 'v) RedisCache \<Rightarrow> ('s, 'u, 'q) ext stop_fn" where
  "redis_closure R cache ctx now x =
     (case redis_stop R cache ctx (now, x_redis x) of
        (Returned err, t, u) \<Rightarrow> (err, t, x\<lparr>x_redis := u\<rparr>)
      | (_, t, u) \<Rightarrow> (None, t, x\<lparr>x_redis := u\<rparr>))"

definition redis_Connect ::
  "('cl, 'u) redis \<Rightarrow> (nat \<Rightarrow> int \<Rightarrow> int option) \<Rightarrow> (nat \<Rightarrow> bool) \<Rightarrow> ('cl, 'v) RedisCache \<Rightarrow> ('s, 'u, 'q) ext connect_fn" where
  "redis_Connect R rand pick cache ctx now x =
     (case redis_connect R rand pick ctx cache (now, x_redis x) of
        (Some err, cache', t, u) \<Rightarrow> (Inl err, t, x\<lparr>x_redis := u\<rparr>)
      | (None, cache', t, u) \<Rightarrow> (Inr (Some (redis_closure R cache')), t, x\<lparr>x_redis := u\<rparr>))"

definition client_Connect :: "'q asynq \<Rightarrow> ('s, 'u, 'q) ext connect_fn" where
  "client_Connect A ctx now x =
     (Inr (Some (\<lambda>shutdownCtx now' y. case client_stop A shutdownCtx (now', x_asynq y) of
        (err, t, q) \<Rightarrow> (err, t, y\<lparr>x_asynq := q\<rparr>))), now, x)"

definition worker_Connect :: "'q asynq \<Rightarrow> bool \<Rightarrow> ('s, 'u, 'q) ext connect_fn" where
  "worker_Connect A pick ctx now x =
     (case server_connect A (now, x_asynq x) of
        (Some err, t, q) \<Rightarrow> (Inl err, t, x\<lparr>x_asynq := q\<rparr>)
      | (None, t, q) \<Rightarrow>
          (Inr (Some (\<lambda>shutdownCtx now' y. case server_stop A pick shutdownCtx now' (x_asynq y) of
             (err, t', q') \<Rightarrow> (err, t', y\<lparr>x_asynq := q'\<rparr>))), t, x\<lparr>x_asynq := q\<rparr>))"

text \<open>\<open>listen\<close> binds the address; \<open>drain\<close> is how long the open requests take to finish.\<close>

definition http_Connect ::
  "(string \<Rightarrow> go_error + string) \<Rightarrow> bool \<Rightarrow> nat \<Rightarrow> 'hd HTTPServer \<Rightarrow> ('s, 'u, 'q) ext connect_fn" where
  "http_Connect listen pick drain srv ctx now x =
     (case http_connect (\<lambda>addr c log. (listen addr, log)) ctx srv (x_log x) of
        (Returned (Some err, logs, srv'), l) \<Rightarrow> (Inl err, now, x\<lparr>x_log := l @ logs\<rparr>)
      | (Returned (None, logs, srv'), l) \<Rightarrow>
          (Inr (Some (\<lambda>stopCtx now' y. case http_stop pick drain stopCtx now' (x_log y) of
             (err, t, l') \<Rightarrow> (err, t, y\<lparr>x_log := l'\<rparr>))), now, x\<lparr>x_log := l @ logs\<rparr>)
      | (_, l) \<Rightarrow> (Inl (errors_New ''panic''), now, x))"

section \<open>The running service\<close>

record 'x app_world =
  aw_life :: "nat \<Rightarrow> 'x life"
  aw_ext :: 'x

definition life_Start :: "nat \<Rightarrow> 'x connect_fn \<Rightarrow> go_ctx \<Rightarrow> int \<Rightarrow> 'x app_world \<Rightarrow> 'x app_world" where
  "life_Start i connect ctx now w =
     (case lf_Start (Some connect) ctx now (aw_ext w) (aw_life w i) of
        (res, t, x, l) \<Rightarrow> w\<lparr>aw_life := (aw_life w)(i := l), aw_ext := x\<rparr>)"

definition life_Stop :: "nat \<Rightarrow> 'x app_world stop_fn" where
  "life_Stop i ctx now w =
     (case lf_Stop ctx now (aw_ext w) (aw_life w i) of
        ((err, t, x), l) \<Rightarrow> (err, t, w\<lparr>aw_life := (aw_life w)(i := l), aw_ext := x\<rparr>))"

definition life_stops :: "'x app_world stops" where
  "life_stops = \<lparr>stop_db = life_Stop 0, stop_cache = life_Stop 1, stop_client = life_Stop 2,
                 stop_worker = life_Stop 3, stop_http = life_Stop 4\<rparr>"

text \<open>
  The call of \<open>Start\<close> in the goroutine of each component: when it runs, with which context, and the
  choices of the retries.
\<close>

record start_event =
  ev_index :: nat
  ev_ctx :: go_ctx
  ev_now :: int
  ev_rand :: "nat \<Rightarrow> int \<Rightarrow> int option"
  ev_pick :: "nat \<Rightarrow> bool"

record ('p, 's, 'cl, 'u, 'q, 'hd) parts =
  pt_pgx :: "('p, 's) pgxpool"
  pt_config :: pool_config
  pt_db :: "'p PostgresDB"
  pt_redis :: "('cl, 'u) redis"
  pt_cache :: "('cl, Product) RedisCache"
  pt_asynq :: "'q asynq"
  pt_http :: "'hd HTTPServer"
  pt_listen :: "string \<Rightarrow> go_error + string"
  pt_drain :: nat

definition app_Connect :: "('p, 's, 'cl, 'u, 'q, 'hd) parts \<Rightarrow> start_event \<Rightarrow> ('s, 'u, 'q) ext connect_fn" where
  "app_Connect pt ev =
     (if ev_index ev = 0 then db_Connect (pt_pgx pt) (ev_rand ev) (ev_pick ev) (pt_config pt) (pt_db pt)
      else if ev_index ev = 1 then redis_Connect (pt_redis pt) (ev_rand ev) (ev_pick ev) (pt_cache pt)
      else if ev_index ev = 2 then client_Connect (pt_asynq pt)
      else if ev_index ev = 3 then worker_Connect (pt_asynq pt) (ev_pick ev 0)
      else http_Connect (pt_listen pt) (ev_pick ev 0) (pt_drain pt) (pt_http pt))"

definition app_Start :: "('p, 's, 'cl, 'u, 'q, 'hd) parts \<Rightarrow> start_event \<Rightarrow> ('s, 'u, 'q) ext app_world \<Rightarrow> ('s, 'u, 'q) ext app_world" where
  "app_Start pt ev = life_Start (ev_index ev) (app_Connect pt ev) (ev_ctx ev) (ev_now ev)"

definition app_Starts :: "('p, 's, 'cl, 'u, 'q, 'hd) parts \<Rightarrow> start_event list \<Rightarrow> ('s, 'u, 'q) ext \<Rightarrow> ('s, 'u, 'q) ext app_world" where
  "app_Starts pt evs x = fold (app_Start pt) evs \<lparr>aw_life = (\<lambda>_. new_life), aw_ext = x\<rparr>"

section \<open>A resource with one owner\<close>

text \<open>
  The contract of a resource that one component acquires when it connects and gives back when it
  stops, and that no other component touches: \<open>res\<close> are the open resources, \<open>part\<close> the part of the
  world they are in, \<open>owner\<close> the index of the component.
\<close>

locale one_owner =
  fixes connect :: "start_event \<Rightarrow> 'x connect_fn" and part :: "'x \<Rightarrow> 'y" and res :: "'y \<Rightarrow> 'r multiset" and owner :: nat
  assumes acquires: "ev_index ev = owner \<Longrightarrow> connect ev ctx now x = (Inr (Some f), t, x') \<Longrightarrow>
      \<exists>p. res (part x') = add_mset p (res (part x))
        \<and> (\<forall>c n y. res (part (snd (snd (f c n y)))) = res (part y) - {#p#})"
    and acquires_nothing: "ev_index ev = owner \<Longrightarrow> connect ev ctx now x = (r, t, x') \<Longrightarrow> \<forall>f. r \<noteq> Inr (Some f) \<Longrightarrow>
      res (part x') = res (part x)"
    and others_connect: "ev_index ev \<noteq> owner \<Longrightarrow> connect ev ctx now x = (r, t, x') \<Longrightarrow> part x' = part x"
    and others_stop: "ev_index ev \<noteq> owner \<Longrightarrow> connect ev ctx now x = (Inr (Some f), t, x') \<Longrightarrow> part (snd (snd (f c n y))) = part y"
begin

abbreviation open_in :: "'x app_world \<Rightarrow> 'r multiset" where
  "open_in w \<equiv> res (part (aw_ext w))"

text \<open>The resource is open exactly while the owner has a stop closure it has not run.\<close>

definition accounted_for :: "'r multiset \<Rightarrow> 'x app_world \<Rightarrow> bool" where
  "accounted_for base w \<longleftrightarrow>
     (\<forall>j f. j \<noteq> owner \<longrightarrow> lf_stopFunc (aw_life w j) = Some f \<longrightarrow> (\<forall>c n y. part (snd (snd (f c n y))) = part y))
   \<and> (if lf_stopFunc (aw_life w owner) = None \<or> lf_stopped (aw_life w owner) then open_in w = base
      else \<exists>p f. lf_stopFunc (aw_life w owner) = Some f \<and> open_in w = add_mset p base
             \<and> (\<forall>c n y. res (part (snd (snd (f c n y)))) = res (part y) - {#p#}))"

lemma start_other:
  assumes "accounted_for base w" and "ev_index ev \<noteq> owner"
  shows "accounted_for base (life_Start (ev_index ev) (connect ev) ctx now w)"
proof -
  obtain r t x where c: "connect ev ctx now (aw_ext w) = (r, t, x)" by (metis prod.exhaust)
  have x: "part x = part (aw_ext w)" by (rule others_connect [OF assms(2) c])
  have f: "part (snd (snd (f c' n y))) = part y" if "r = Inr (Some f)" for f c' n y
    using others_stop [OF assms(2) c [unfolded that]] .
  have "part (aw_ext (life_Start (ev_index ev) (connect ev) ctx now w)) = part (aw_ext w)"
    using c x f
    by (auto simp: life_Start_def lf_Start_def split: sum.splits option.splits prod.splits) (metis snd_conv)+
  moreover have "aw_life (life_Start (ev_index ev) (connect ev) ctx now w) j = aw_life w j" if "j \<noteq> ev_index ev" for j
    using that by (simp add: life_Start_def split: prod.splits)
  moreover have "lf_stopFunc (aw_life (life_Start (ev_index ev) (connect ev) ctx now w) (ev_index ev)) = Some g \<Longrightarrow>
      lf_stopFunc (aw_life w (ev_index ev)) = Some g \<or> r = Inr (Some g)" for g
    using c by (auto simp: life_Start_def lf_Start_def split: sum.splits option.splits prod.splits if_splits)
  ultimately show ?thesis
    using assms f unfolding accounted_for_def by (auto simp del: not_None_eq) metis+
qed

lemma start_owner:
  assumes "accounted_for base w" and "ev_index ev = owner" and "lf_stopFunc (aw_life w owner) = None"
  shows "accounted_for base (life_Start (ev_index ev) (connect ev) ctx now w)"
proof -
  obtain r t x where c: "connect ev ctx now (aw_ext w) = (r, t, x)" by (metis prod.exhaust)
  have base: "open_in w = base" using assms(1,3) by (simp add: accounted_for_def)
  show ?thesis
  proof (cases "\<exists>f. r = Inr (Some f)")
    case True
    then obtain f where f: "r = Inr (Some f)" by blast
    obtain p where p: "res (part x) = add_mset p base" "\<And>c n y. res (part (snd (snd (f c n y)))) = res (part y) - {#p#}"
      using acquires [OF assms(2) c [unfolded f]] base by auto
    obtain e t' x' where s: "f ctx t x = (e, t', x')" by (metis prod.exhaust)
    have "res (part x') = base" using p(2) [of ctx t x] p(1) s by simp
    then show ?thesis
      using assms c f p s by (auto simp: accounted_for_def life_Start_def lf_Start_def)
  next
    case False
    then have "res (part x) = base" using acquires_nothing [OF assms(2) c] base by auto
    then show ?thesis
      using assms c False by (auto simp: accounted_for_def life_Start_def lf_Start_def split: sum.splits option.splits)
  qed
qed

lemma stop_any:
  assumes "accounted_for base w" and "life_Stop i ctx now w = (e, t, w')"
  shows "accounted_for base w'"
proof (cases "lf_stopped (aw_life w i) \<or> lf_stopFunc (aw_life w i) = None")
  case True
  with assms show ?thesis by (auto simp: life_Stop_def lf_Stop_def accounted_for_def split: if_splits)
next
  case False
  then obtain f where f: "lf_stopFunc (aw_life w i) = Some f" "\<not> lf_stopped (aw_life w i)" by auto
  obtain e' t' x where s: "f ctx now (aw_ext w) = (e', t', x)" by (metis prod.exhaust)
  have w': "w' = w\<lparr>aw_life := (aw_life w)(i := (aw_life w i)\<lparr>lf_stopped := True\<rparr>), aw_ext := x\<rparr>"
    using assms(2) f s by (simp add: life_Stop_def lf_Stop_def)
  have x: "part x = part (aw_ext w)" if "i \<noteq> owner"
    using assms(1) that f(1) s unfolding accounted_for_def by (metis snd_conv)
  have "res (part x) = base" if own: "i = owner"
  proof -
    obtain p where "open_in w = add_mset p base" "\<And>c n y. res (part (snd (snd (f c n y)))) = res (part y) - {#p#}"
      using assms(1) f unfolding own by (auto simp: accounted_for_def)
    from this(1) this(2) [of ctx now "aw_ext w"] s show ?thesis by simp
  qed
  with x assms(1) f show ?thesis unfolding w' accounted_for_def by auto
qed

lemma starts_accounted:
  assumes "distinct (map ev_index evs)" and "accounted_for base w"
    and "owner \<in> ev_index ` set evs \<Longrightarrow> lf_stopFunc (aw_life w owner) = None"
  shows "accounted_for base (fold (\<lambda>ev. life_Start (ev_index ev) (connect ev) (ev_ctx ev) (ev_now ev)) evs w)"
  using assms
proof (induction evs arbitrary: w)
  case (Cons ev evs)
  let ?w = "life_Start (ev_index ev) (connect ev) (ev_ctx ev) (ev_now ev) w"
  have "accounted_for base ?w"
    using start_other [OF Cons.prems(2)] start_owner [OF Cons.prems(2)] Cons.prems(3) by (cases "ev_index ev = owner") auto
  moreover have "lf_stopFunc (aw_life ?w owner) = None" if "owner \<in> ev_index ` set evs"
  proof -
    have "ev_index ev \<noteq> owner" using that Cons.prems(1) by auto
    then show ?thesis using Cons.prems(3) that by (auto simp: life_Start_def split: prod.splits)
  qed
  ultimately show ?case using Cons.IH [of ?w] Cons.prems(1) by simp
qed simp

lemma fresh_accounted: "accounted_for (res (part x)) \<lparr>aw_life = (\<lambda>_. new_life), aw_ext = x\<rparr>"
  by (simp add: accounted_for_def new_life_def)

lemma stopped_released: "accounted_for base w \<Longrightarrow> lf_stopped (aw_life w owner) \<Longrightarrow> open_in w = base"
  by (simp add: accounted_for_def)

end

lemmas connect_defs =
  db_Connect_def redis_Connect_def client_Connect_def worker_Connect_def http_Connect_def client_stop_def

lemma db_owner:
  assumes "pool_driver (pt_pgx pt) opened"
  shows "one_owner (app_Connect pt :: start_event \<Rightarrow> ('s, 'u, 'q) ext connect_fn) x_db opened 0"
proof (unfold_locales, goal_cases)
  case (1 ev ctx now x f t x')
  from 1 obtain db' s where c: "pg_connect (pt_pgx pt) (ev_rand ev) (ev_pick ev) ctx (pt_config pt) (pt_db pt) (now, x_db x) = (None, db', t, s)"
    and x': "f = db_closure (pt_pgx pt) db'" "x' = x\<lparr>x_db := s\<rparr>"
    by (auto simp: app_Connect_def db_Connect_def split: prod.splits option.splits)
  obtain p where p: "db_pool db' = Some p" "opened s = add_mset p (opened (x_db x))"
    using pool_driver.pg_connect_pools [OF assms c] by auto
  have "opened (x_db (snd (snd (f c n y)))) = opened (x_db y) - {#p#}" for c n y
    using pool_driver.close_pool [OF assms, of p "(n, x_db y)"] p(1)
    by (cases "pgxpool_Close (pt_pgx pt) p (n, x_db y)") (simp add: x' db_closure_def pg_stop_def)
  with p x' show ?case by auto
next
  case (2 ev ctx now x r t x')
  then show ?case
    using pool_driver.pg_connect_pools [OF assms, of "ev_rand ev" "ev_pick ev" ctx "pt_config pt" "pt_db pt" now "x_db x"]
    by (auto simp: app_Connect_def db_Connect_def split: prod.splits option.splits)
next
  case (3 ev ctx now x r t x')
  then show ?case
    by (auto simp: app_Connect_def connect_defs split: prod.splits option.splits outcome.splits if_splits)
next
  case (4 ev ctx now x f t x' c n y)
  then show ?case
    by (auto simp: app_Connect_def connect_defs redis_closure_def split: prod.splits option.splits outcome.splits if_splits)
qed

lemma redis_owner:
  assumes "redis_server (pt_redis pt) store opened"
  shows "one_owner (app_Connect pt :: start_event \<Rightarrow> ('s, 'u, 'q) ext connect_fn) x_redis opened 1"
proof (unfold_locales, goal_cases)
  case (1 ev ctx now x f t x')
  from 1 obtain cache' s where c: "redis_connect (pt_redis pt) (ev_rand ev) (ev_pick ev) ctx (pt_cache pt) (now, x_redis x) = (None, cache', t, s)"
    and x': "f = redis_closure (pt_redis pt) cache'" "x' = x\<lparr>x_redis := s\<rparr>"
    by (auto simp: app_Connect_def redis_Connect_def split: prod.splits option.splits)
  obtain p where p: "rc_client cache' = Some p" "opened s = add_mset p (opened (x_redis x))"
    using redis_server.redis_connect_clients [OF assms c] by auto
  have "opened (x_redis (snd (snd (f c n y)))) = opened (x_redis y) - {#p#}" for c n y
  proof -
    obtain e u where "redis_Close (pt_redis pt) p (n, x_redis y) = (e, u)" by (rule prod.exhaust)
    with redis_server.close_client [OF assms this] p(1) show ?thesis
      by (cases u) (simp add: x' redis_closure_def redis_stop_def)
  qed
  with p x' show ?case by auto
next
  case (2 ev ctx now x r t x')
  then show ?case
    using redis_server.redis_connect_clients [OF assms, of "ev_rand ev" "ev_pick ev" ctx "pt_cache pt" now "x_redis x"]
    by (auto simp: app_Connect_def redis_Connect_def split: prod.splits option.splits)
next
  case (3 ev ctx now x r t x')
  then show ?case
    by (auto simp: app_Connect_def connect_defs split: prod.splits option.splits outcome.splits if_splits)
next
  case (4 ev ctx now x f t x' c n y)
  then show ?case
    by (auto simp: app_Connect_def connect_defs db_closure_def split: prod.splits option.splits outcome.splits if_splits)
qed

section \<open>The shutdown of all components\<close>

lemma shutdown_loop_each:
  assumes "\<And>i c t w e t' w'. i < n \<Longrightarrow> P w \<Longrightarrow> svc_Stop (services r ! i) c t w = (e, t', w') \<Longrightarrow> P w' \<and> Q i w'"
    and "\<And>i j c t w e t' w'. i < n \<Longrightarrow> Q j w \<Longrightarrow> svc_Stop (services r ! i) c t w = (e, t', w') \<Longrightarrow> Q j w'"
    and "P w" and "shutdown_loop r ctx n rem now w h = (errs, logs, t, w', h')"
  shows "P w' \<and> (\<forall>j. j < n \<or> Q j w \<longrightarrow> Q j w')"
  using assms
proof (induction n arbitrary: rem now w h errs logs)
  case (Suc i)
  let ?b = "i64 (rem sdiv i64 (int (Suc i)))"
  obtain e t1 w1 where st: "svc_Stop (services r ! i) (WithTimeout ctx now ?b) now w = (e, t1, w1)" by (metis prod.exhaust)
  obtain rem' h1 errs1 logs1 where rec: "shutdown_loop r ctx i rem' t1 w1 h1 = (errs1, logs1, t, w', h')"
    using Suc.prems(4) st by (auto simp: Let_def split: prod.splits)
  have w1: "P w1" "Q i w1" using Suc.prems(1) [OF _ Suc.prems(3) st] by auto
  have keep: "Q j w1" if "Q j w" for j using Suc.prems(2) [OF _ that st] by simp
  have "P w' \<and> (\<forall>j. j < i \<or> Q j w1 \<longrightarrow> Q j w')"
    by (rule Suc.IH [OF _ _ w1(1) rec]) (use Suc.prems(1,2) in \<open>blast intro: less_SucI\<close>)+
  with w1(2) keep show ?case by (auto simp: less_Suc_eq)
qed simp

lemma life_Stop_stops: "life_Stop i ctx now w = (e, t, w') \<Longrightarrow> lf_stopped (aw_life w' i)"
  by (auto simp: life_Stop_def lf_Stop_def split: if_splits option.splits prod.splits)

lemma life_Stop_keeps: "life_Stop i ctx now w = (e, t, w') \<Longrightarrow> lf_stopped (aw_life w j) \<Longrightarrow> lf_stopped (aw_life w' j)"
  by (auto simp: life_Stop_def lf_Stop_def split: if_splits option.splits prod.splits)

lemma life_Stop_again: "lf_stopped (aw_life w i) \<Longrightarrow> life_Stop i ctx now w = (None, now, w)"
  by (simp add: life_Stop_def lf_Stop_def)

lemma life_shutdown:
  assumes "map svc_Stop (services r) = map life_Stop [0..<n]"
    and "\<And>i c t w e t' w'. P w \<Longrightarrow> life_Stop i c t w = (e, t', w') \<Longrightarrow> P w'"
    and "P w" and "shutdownOrchestrator r ctx now w h = (errs, logs, t, w', h')"
  shows "P w' \<and> (\<forall>i < n. lf_stopped (aw_life w' i))"
proof -
  have len: "length (services r) = n" using arg_cong [OF assms(1), of length] by simp
  have stop: "svc_Stop (services r ! i) = life_Stop i" if "i < n" for i
    using arg_cong [OF assms(1), of "\<lambda>xs. xs ! i"] that len by simp
  have "P w' \<and> (\<forall>j. j < n \<or> lf_stopped (aw_life w j) \<longrightarrow> lf_stopped (aw_life w' j))"
    by (rule shutdown_loop_each [where P = P and Q = "\<lambda>j v. lf_stopped (aw_life v j)" and r = r,
          OF _ _ assms(3) assms(4) [unfolded shutdownOrchestrator_def len]])
      (use stop assms(2) life_Stop_stops life_Stop_keeps in \<open>metis+\<close>)
  then show ?thesis by blast
qed

text \<open>A runner without start deadline whose services return from \<open>Start\<close> runs to the end.\<close>

lemma starts_return:
  assumes "startDeadline r \<le> 0" and "n \<le> length (services r)"
  shows "\<exists>s. reach (sup_init r) (sup_step r) s \<and> (\<forall>i. start_done s i \<longleftrightarrow> i < n) \<and> (\<forall>i. watchers s i \<noteq> Watching) \<and> sup_parent s = None"
  using assms(2)
proof (induction n)
  case 0
  show ?case using assms(1) by (intro exI [of _ "sup_start r"]) (simp add: sup_reach_start, simp add: sup_start_def)
next
  case (Suc n)
  then obtain s where s: "reach (sup_init r) (sup_step r) s" "\<forall>i. start_done s i \<longleftrightarrow> i < n" "\<forall>i. watchers s i \<noteq> Watching"
    "sup_parent s = None" by auto
  have "sup_step r s (start_return r n None s)" using Suc.prems s(2) by (intro sup_step.start_returns) auto
  from sup_reach_step [OF this s(1)] s(2-4) show ?case
    by (intro exI [of _ "start_return r n None s"]) (auto simp: start_return_def start_result_def eg_return_def less_Suc_eq)
qed

lemma Run_can_return:
  fixes r :: "('w, 'h) runner"
  assumes "healthAggregator r \<noteq> None" and "startDeadline r \<le> 0"
  shows "\<exists>s res t w' h'. Run_returns r Background w h s res t w' h'"
proof -
  obtain r' where r': "healthWiring r = Returned r'" "services r' = services r" "startDeadline r' = startDeadline r"
    using assms(1) by (auto simp: healthWiring_def)
  obtain s where s: "reach (sup_init r') (sup_step r') s" "\<forall>i. start_done s i \<longleftrightarrow> i < length (services r')"
    "\<forall>i. watchers s i \<noteq> Watching" "sup_parent s = None"
    using starts_return [of r' "length (services r')"] assms(2) r'(3) by auto
  have fin: "sup_finished r' s" using s by (simp add: sup_finished_def)
  let ?ds = "replicate (length (start_hooks s)) (0 :: int)"
  let ?h = "fold (\<lambda>((i, err), d). OnComponentStart (run_hooks r') (svc_Name (services r' ! i)) d err) (zip (start_hooks s) ?ds) h"
  obtain errs logs t w' h' where run: "shutdownOrchestrator r' Background 0 w ?h = (errs, logs, t, w', h')" by (metis prod.exhaust)
  have "ctx_Err Background 0 = sup_parent s" using s(4) by (simp add: Background_def ctx_Err_def)
  from Run_returns.Run [OF r'(1) s(1) fin this _ refl run] show ?thesis by fastforce
qed

section \<open>Tracing\<close>

text \<open>
  The parts of the OpenTelemetry SDK the setup calls, on a world of its own: the stdout exporter,
  the default resource merged with the service's attributes, the provider, the global registration
  and the provider's shutdown, which flushes the spans.
\<close>

record ('exp, 'res, 'tp, 'o) otel_sdk =
  stdouttrace_New :: "'o \<Rightarrow> (go_error + 'exp) \<times> 'o"
  resource_Merge :: "string \<Rightarrow> go_error + 'res"
  NewTracerProvider :: "'exp \<Rightarrow> 'res \<Rightarrow> 'o \<Rightarrow> 'tp \<times> 'o"
  SetTracerProvider :: "'tp \<Rightarrow> 'o \<Rightarrow> 'o"
  tp_Shutdown :: "'tp \<Rightarrow> go_ctx \<Rightarrow> int \<times> 'o \<Rightarrow> go_error option \<times> int \<times> 'o"

definition setupTracing ::
  "('exp, 'res, 'tp, 'o) otel_sdk \<Rightarrow> string \<Rightarrow> 'o
     \<Rightarrow> (go_error + (go_ctx \<Rightarrow> int \<times> 'o \<Rightarrow> go_error option \<times> int \<times> 'o)) \<times> 'o" where
  "setupTracing T service o' =
     (case stdouttrace_New T o' of
        (Inl err, o1) \<Rightarrow> (Inl (wrapf ''create stdout trace exporter'' err), o1)
      | (Inr exporter, o1) \<Rightarrow>
          (case resource_Merge T service of
             Inl err \<Rightarrow> (Inl (wrapf ''build resource'' err), o1)
           | Inr res \<Rightarrow>
               (case NewTracerProvider T exporter res o1 of
                  (tp, o2) \<Rightarrow> (Inr (tp_Shutdown T tp), SetTracerProvider T tp o2))))"

section \<open>main\<close>

text \<open>
  \<open>run\<close> and \<open>main\<close>: the configuration, the tracer, then the construction and \<open>runner.Run\<close> (a
  parameter here: what it returns, when, and what it leaves of the tracer's world), and after all of
  them the deferred flush with its own five seconds. The second result is what the flush logged.
\<close>

definition flush_traces ::
  "(go_ctx \<Rightarrow> int \<times> 'o \<Rightarrow> go_error option \<times> int \<times> 'o) \<Rightarrow> int \<times> 'o \<Rightarrow> string list \<times> int \<times> 'o" where
  "flush_traces shutdownTracer w =
     (case shutdownTracer (WithTimeout Background (fst w) (5 * Second)) w of
        (Some err, w') \<Rightarrow> ([''failed to flush traces''], w')
      | (None, w') \<Rightarrow> ([], w'))"

definition run_body ::
  "(string \<Rightarrow> string) \<Rightarrow> ('p, 's) pgxpool \<Rightarrow> ('cl, 'u) redis \<Rightarrow> ('p, 'cl, 's, 'u) probes \<Rightarrow> 'w stops
     \<Rightarrow> (('w, 'h) runner \<Rightarrow> int \<times> 'o \<Rightarrow> go_error option \<times> int \<times> 'o) \<Rightarrow> (int \<times> 'o, go_error option) action" where
  "run_body getenv PP R pr st Run w =
     (case run_app getenv None PP R pr st of
        Returned (Inl err) \<Rightarrow> (Returned (Some err), w)
      | Returned (Inr (runner, router, server)) \<Rightarrow> (case Run runner w of (err, w') \<Rightarrow> (Returned err, w'))
      | Panicked p \<Rightarrow> (Panicked p, w)
      | Blocked \<Rightarrow> (Blocked, w))"

definition run_traced ::
  "('exp, 'res, 'tp, 'o) otel_sdk \<Rightarrow> (string \<Rightarrow> string) \<Rightarrow> ('p, 's) pgxpool \<Rightarrow> ('cl, 'u) redis \<Rightarrow> ('p, 'cl, 's, 'u) probes
     \<Rightarrow> 'w stops \<Rightarrow> (('w, 'h) runner \<Rightarrow> int \<times> 'o \<Rightarrow> go_error option \<times> int \<times> 'o)
     \<Rightarrow> (int \<times> 'o, go_error option \<times> string list) action" where
  "run_traced T getenv PP R pr st Run w =
     (case LoadConfig getenv of
        Inl err \<Rightarrow> (Returned (Some err, []), w)
      | Inr cfg \<Rightarrow>
          (case setupTracing T serviceName (snd w) of
             (Inl err, o1) \<Rightarrow> (Returned (Some err, []), fst w, o1)
           | (Inr shutdownTracer, o1) \<Rightarrow>
               (case run_body getenv PP R pr st Run (fst w, o1) of
                  (Returned err, w2) \<Rightarrow> (case flush_traces shutdownTracer w2 of (logs, w3) \<Rightarrow> (Returned (err, logs), w3))
                | (Panicked p, w2) \<Rightarrow> (case flush_traces shutdownTracer w2 of (logs, w3) \<Rightarrow> (Panicked p, w3))
                | (Blocked, w2) \<Rightarrow> (Blocked, w2))))"

text \<open>The exit status and what is logged at the end.\<close>

definition main ::
  "('exp, 'res, 'tp, 'o) otel_sdk \<Rightarrow> (string \<Rightarrow> string) \<Rightarrow> ('p, 's) pgxpool \<Rightarrow> ('cl, 'u) redis \<Rightarrow> ('p, 'cl, 's, 'u) probes
     \<Rightarrow> 'w stops \<Rightarrow> (('w, 'h) runner \<Rightarrow> int \<times> 'o \<Rightarrow> go_error option \<times> int \<times> 'o) \<Rightarrow> (int \<times> 'o, nat \<times> string list) action" where
  "main T getenv PP R pr st Run =
     act_bind (run_traced T getenv PP R pr st Run) (\<lambda>(err, logs).
       case err of
         Some e \<Rightarrow> act_ret (1, logs @ [''application stopped''])
       | None \<Rightarrow> act_ret (0, logs))"

text \<open>
  What the SDK promises about providers: a provider is live from its creation until its shutdown
  returns, whatever the shutdown returns, and nothing else of the setup changes that.
\<close>

locale tracer_sdk =
  fixes T :: "('exp, 'res, 'tp, 'o) otel_sdk" and providers :: "'o \<Rightarrow> 'tp multiset"
  assumes exporter_live: "stdouttrace_New T o1 = (r, o2) \<Longrightarrow> providers o2 = providers o1"
    and provider_live: "NewTracerProvider T ex rs o1 = (tp, o2) \<Longrightarrow> providers o2 = add_mset tp (providers o1)"
    and global_live: "providers (SetTracerProvider T tp o1) = providers o1"
    and shutdown_live: "tp_Shutdown T tp ctx (t, o1) = (e, t', o2) \<Longrightarrow> providers o2 = providers o1 - {#tp#}"
begin

lemma setup_live:
  assumes "setupTracing T service o1 = (r, o2)"
  shows "case r of Inl e \<Rightarrow> providers o2 = providers o1 | Inr f \<Rightarrow> \<exists>tp. f = tp_Shutdown T tp \<and> providers o2 = add_mset tp (providers o1)"
proof -
  obtain x oa where x: "stdouttrace_New T o1 = (x, oa)" by (rule prod.exhaust)
  note a = exporter_live [OF x]
  show ?thesis
  proof (cases "\<exists>ex rs. x = Inr ex \<and> resource_Merge T service = Inr rs")
    case True
    then obtain ex rs where ex: "x = Inr ex" "resource_Merge T service = Inr rs" by blast
    obtain tp ob where tp: "NewTracerProvider T ex rs oa = (tp, ob)" by (rule prod.exhaust)
    have "r = Inr (tp_Shutdown T tp)" "o2 = SetTracerProvider T tp ob"
      using assms x ex tp by (simp_all add: setupTracing_def)
    with provider_live [OF tp] global_live [of tp ob] a show ?thesis by auto
  next
    case False
    with assms x a show ?thesis by (auto simp: setupTracing_def split: sum.splits)
  qed
qed

lemma flush_live:
  assumes "flush_traces (tp_Shutdown T tp) w = (logs, w')"
  shows "providers (snd w') = providers (snd w) - {#tp#}"
proof -
  obtain e u where u: "tp_Shutdown T tp (WithTimeout Background (fst w) (5 * Second)) (fst w, snd w) = (e, u)" by (rule prod.exhaust)
  have "w' = u" using assms u by (auto simp: flush_traces_def split: option.splits)
  with shutdown_live [of tp _ "fst w" "snd w" e "fst u" "snd u"] u show ?thesis by simp
qed

end

end
