(* ===== verification/OrderSystem.thy ===== *)
theory OrderSystem
  imports Orders JsonString
begin

text \<open>
  The orders service under a sequence of requests: every request is handled by its handler on the
  world the previous one left (the database and the in-memory cache). What the responses say is
  compared with what the database holds. The last section splits \<open>GetProduct\<close> where another request
  can run in between.
\<close>

section \<open>Serving requests\<close>

datatype request =
    POST_products "go_error + createProductRequest"
  | GET_products string
  | POST_orders "go_error + createOrderRequest"
  | GET_orders string

definition serve :: "Product codec \<Rightarrow> request \<Rightarrow> (int \<times> shop_state, api_response) action" where
  "serve dc req =
     (case req of
        POST_products body \<Rightarrow> h_createProduct shop_pgx shop_prov Background body
      | GET_products i \<Rightarrow> h_getProduct shop_pgx shop_prov (shop_cache dc) Background i
      | POST_orders body \<Rightarrow> h_createOrder shop_pgx shop_prov (shop_cache dc) Background body
      | GET_orders i \<Rightarrow> h_getOrder shop_pgx shop_prov Background i)"

text \<open>The answers in order; a request that panicked or blocked would end the list.\<close>

fun serve_all :: "Product codec \<Rightarrow> request list \<Rightarrow> int \<times> shop_state \<Rightarrow> api_response list \<times> int \<times> shop_state" where
  "serve_all dc [] w = ([], w)"
| "serve_all dc (r # rs) w =
     (case serve dc r w of
        (Returned a, w') \<Rightarrow> (case serve_all dc rs w' of (as, w'') \<Rightarrow> (a # as, w''))
      | (_, w') \<Rightarrow> ([], w'))"

text \<open>
  The name in a request is valid UTF-8, a price and a stock are Go int64 values: decoding accepts no
  others, as theory OrderJson shows.
\<close>

fun request_ok :: "request \<Rightarrow> bool" where
  "request_ok (POST_products (Inr r)) = (valid_utf8 (cp_Name r) \<and> cp_PriceCents r < 2 ^ 63 \<and> cp_Stock r < 2 ^ 63)"
| "request_ok _ = True"

section \<open>The service on the data alone\<close>

text \<open>
  The specification of the whole HTTP surface: the answer to a request and the data after it, as a
  function of the data before it, with no cache, transactions or driver.
\<close>

fun respond :: "int \<Rightarrow> request \<Rightarrow> shop \<Rightarrow> api_response \<times> shop" where
  "respond now (POST_products (Inl err)) d = (writeError 400 ''invalid_request'' (error_text err), d)"
| "respond now (POST_products (Inr r)) d =
     (if cp_Name r = [] then (writeError 400 ''invalid_request'' ''name is required'', d)
      else if cp_PriceCents r < 0 then (writeError 400 ''invalid_request'' ''price_cents must not be negative'', d)
      else if cp_Stock r < 0 then (writeError 400 ''invalid_request'' ''stock must not be negative'', d)
      else let p = \<lparr>p_CreatedAt = now, p_Name = cp_Name r, p_ID = sh_nextProduct d, p_Price = cp_PriceCents r, p_Stock = cp_Stock r\<rparr>
           in (writeJSON 201 (PProduct p),
               d\<lparr>sh_products := (sh_products d)(sh_nextProduct d \<mapsto> p), sh_nextProduct := sh_nextProduct d + 1\<rparr>))"
| "respond now (GET_products i) d =
     (case pathID i of
        Inl e \<Rightarrow> (writeError 400 ''invalid_request'' ''id must be a positive integer'', d)
      | Inr n \<Rightarrow> (case sh_products d n of Some p \<Rightarrow> writeJSON 200 (PProduct p) | None \<Rightarrow> renderServiceError ErrNotFound, d))"
| "respond now (POST_orders (Inl err)) d = (writeError 400 ''invalid_request'' (error_text err), d)"
| "respond now (POST_orders (Inr r)) d =
     (if co_ProductID r \<le> 0 then (writeError 400 ''invalid_request'' ''product_id is required'', d)
      else if co_Quantity r \<le> 0 then (writeError 400 ''invalid_request'' ''quantity must be greater than zero'', d)
      else case buy d (co_ProductID r) (co_Quantity r) now of
             Inl e \<Rightarrow> (renderServiceError e, d)
           | Inr (ord, d') \<Rightarrow> (writeJSON 201 (POrder ord), d'))"
| "respond now (GET_orders i) d =
     (case pathID i of
        Inl e \<Rightarrow> (writeError 400 ''invalid_request'' ''id must be a positive integer'', d)
      | Inr n \<Rightarrow> (case sh_orders d n of Some ord \<Rightarrow> writeJSON 200 (POrder ord) | None \<Rightarrow> renderServiceError ErrNotFound, d))"

fun respond_all :: "(int \<times> request) list \<Rightarrow> shop \<Rightarrow> api_response list \<times> shop" where
  "respond_all [] d = ([], d)"
| "respond_all ((now, r) # rs) d =
     (case respond now r d of (a, d1) \<Rightarrow> case respond_all rs d1 of (as, d2) \<Rightarrow> (a # as, d2))"

section \<open>What the responses promise\<close>

fun created1 :: "int \<Rightarrow> api_response \<Rightarrow> int" where
  "created1 i (st, PProduct p) = (if st = 201 \<and> p_ID p = i then p_Stock p else 0)"
| "created1 i _ = 0"

fun sold1 :: "int \<Rightarrow> api_response \<Rightarrow> int" where
  "sold1 i (st, POrder o') = (if st = 201 \<and> o_ProductID o' = i then o_Quantity o' else 0)"
| "sold1 i _ = 0"

definition created :: "int \<Rightarrow> api_response list \<Rightarrow> int" where
  "created i as = sum_list (map (created1 i) as)"

definition sold :: "int \<Rightarrow> api_response list \<Rightarrow> int" where
  "sold i as = sum_list (map (sold1 i) as)"

definition stock :: "shop \<Rightarrow> int \<Rightarrow> int" where
  "stock d i = (case sh_products d i of Some p \<Rightarrow> p_Stock p | None \<Rightarrow> 0)"

lemma stock_nonneg: "shop_ok d \<Longrightarrow> 0 \<le> stock d i"
  by (auto simp: shop_ok_def stock_def split: option.splits)

text \<open>The invariant between two requests.\<close>

definition sys_inv :: "Product codec \<Rightarrow> int \<times> shop_state \<Rightarrow> bool" where
  "sys_inv dc w \<longleftrightarrow> snd (pg_txs (snd w)) = [] \<and> shop_ok (seen w) \<and> shop_fresh dc w
     \<and> (\<forall>i. sh_nextProduct (seen w) \<le> i \<longrightarrow> sh_products (seen w) i = None)
     \<and> (\<forall>i p. sh_products (seen w) i = Some p \<longrightarrow> valid_utf8 (p_Name p))"

lemma sys_live: "sys_inv dc w \<Longrightarrow> live Background w"
  by (cases "pg_txs (snd w)") (simp add: sys_inv_def live_def Background_def)

lemma shop_fresh_step:
  assumes "shop_fresh dc w" and "pg_state.more (snd w') = pg_state.more (snd w)"
    and "\<And>k v. product_at (seen w) k = Some v \<Longrightarrow> product_at (seen w') k = Some v"
  shows "shop_fresh dc w'"
proof -
  have "ss_cache (snd w') = ss_cache (snd w)" using assms(2) by (cases "snd w"; cases "snd w'") auto
  with assms(1,3) show ?thesis by (fastforce simp: shop_fresh_def)
qed

lemma shop_fresh_cong: "ss_cache (snd w') = ss_cache (snd w) \<Longrightarrow> seen w' = seen w \<Longrightarrow> shop_fresh dc w' = shop_fresh dc w"
  by (simp add: shop_fresh_def)

section \<open>One request\<close>

lemma stepped_txs: "stepped d w w' \<Longrightarrow> snd (pg_txs (snd w)) = [] \<Longrightarrow> snd (pg_txs (snd w')) = []"
  by (cases "pg_txs (snd w)") (auto simp: stepped_def)

lemma sys_inv_stepped: "stepped (seen w) w w' \<Longrightarrow> sys_inv dc w \<Longrightarrow> sys_inv dc w'"
  using stepped_txs [of "seen w" w w'] shop_fresh_step [of dc w w']
  by (simp add: sys_inv_def stepped_seen) (simp add: stepped_def)

text \<open>A request is served as the specification says: the answer, the data and the invariant.\<close>

definition served :: "Product codec \<Rightarrow> request \<Rightarrow> int \<times> shop_state \<Rightarrow> bool" where
  "served dc r w \<longleftrightarrow> (\<exists>t w'. serve dc r w = (Returned (fst (respond t r (seen w))), w')
     \<and> seen w' = snd (respond t r (seen w)) \<and> sys_inv dc w')"

lemma servedI:
  "serve dc r w = (Returned a, w') \<Longrightarrow> respond t r (seen w) = (a, seen w') \<Longrightarrow> sys_inv dc w' \<Longrightarrow> served dc r w"
  unfolding served_def by (metis fst_conv snd_conv)

lemma serve_POST_products:
  assumes "sys_inv dc w" and "request_ok (POST_products body)"
  shows "served dc (POST_products body) w"
proof (cases "\<exists>r. body = Inr r \<and> cp_Name r \<noteq> [] \<and> 0 \<le> cp_PriceCents r \<and> 0 \<le> cp_Stock r")
  case False
  then have "serve dc (POST_products body) w = (Returned (fst (respond 0 (POST_products body) (seen w))), w)
    \<and> snd (respond 0 (POST_products body) (seen w)) = seen w"
    by (cases body) (auto simp: serve_def h_createProduct_def not_le)
  with assms(1) show ?thesis by (auto simp: served_def intro!: exI [of _ 0])
next
  case True
  then obtain r where r: "body = Inr r" "cp_Name r \<noteq> []" "0 \<le> cp_PriceCents r" "0 \<le> cp_Stock r" by blast
  let ?d = "seen w"
  let ?p = "\<lparr>p_CreatedAt = fst w, p_Name = cp_Name r, p_ID = sh_nextProduct ?d, p_Price = cp_PriceCents r, p_Stock = cp_Stock r\<rparr>"
  let ?d' = "?d\<lparr>sh_products := (sh_products ?d)(sh_nextProduct ?d \<mapsto> ?p), sh_nextProduct := sh_nextProduct ?d + 1\<rparr>"
  let ?args = "[DStr (cp_Name r), DInt (cp_PriceCents r), DInt (cp_Stock r)]"
  have sql: "orders_sql sql_insert_product ?args (fst w) ?d = Inr ([product_row ?p], 1, ?d')"
    using r by (simp add: Let_def)
  obtain w' where q: "query_scan shop_pgx shop_prov Background sql_insert_product ?args w
      = (Returned (scan_result (orders_sql sql_insert_product ?args (fst w) ?d)), w')"
    "stepped (data_after ?d (orders_sql sql_insert_product ?args (fst w) ?d)) w w'"
    using query_scan_run [OF sys_live [OF assms(1)]] .
  then have st: "stepped ?d' w w'" unfolding sql by (simp add: data_after_def)
  have run: "serve dc (POST_products body) w = (Returned (writeJSON 201 (PProduct ?p)), w')"
    using q(1) r unfolding sql
    by (simp add: serve_def h_createProduct_def CreateProduct_def product_Create_def act_bind_def scan_result_def not_less [symmetric])
  have old: "sh_products ?d (sh_nextProduct ?d) = None" using assms(1) by (simp add: sys_inv_def)
  have at: "product_at ?d' k = Some v" if "product_at ?d k = Some v" for k v
    using that old by (auto simp: product_at_def split: if_splits)
  have "shop_fresh dc w'"
    by (rule shop_fresh_step [of dc w]) (use assms(1) st at in \<open>auto simp: sys_inv_def stepped_seen stepped_def seen_def\<close>)
  moreover have "shop_ok ?d'" using assms r by (auto simp: sys_inv_def shop_ok_def)
  ultimately have "sys_inv dc w'"
    using assms stepped_seen [OF st] stepped_txs [OF st] r(1) by (simp add: sys_inv_def)
  moreover have "respond (fst w) (POST_products body) ?d = (writeJSON 201 (PProduct ?p), seen w')"
    using r stepped_seen [OF st] by (simp add: Let_def)
  ultimately show ?thesis using run by (blast intro: servedI)
qed

lemma serve_GET_orders:
  assumes "sys_inv dc w"
  shows "served dc (GET_orders i) w"
proof (cases "pathID i")
  case (Inl e)
  then show ?thesis using assms by (auto simp: served_def serve_def h_getOrder_def)
next
  case (Inr n)
  obtain w' where q: "query_scan shop_pgx shop_prov Background sql_select_order [DInt n] w
      = (Returned (scan_result (orders_sql sql_select_order [DInt n] (fst w) (seen w))), w')"
    "stepped (data_after (seen w) (orders_sql sql_select_order [DInt n] (fst w) (seen w))) w w'"
    using query_scan_run [OF sys_live [OF assms]] .
  have st: "stepped (seen w) w w'" using q(2) by (simp add: data_after_def)
  have "serve dc (GET_orders i) w = (Returned (fst (respond 0 (GET_orders i) (seen w))), w')"
    using q(1) Inr
    by (cases "sh_orders (seen w) n")
      (auto simp: serve_def h_getOrder_def GetOrder_def order_GetByID_def act_bind_def scan_result_def ErrNoRows_def)
  moreover have "seen w' = snd (respond 0 (GET_orders i) (seen w))" using Inr stepped_seen [OF st] by simp
  ultimately show ?thesis using sys_inv_stepped [OF st assms] unfolding served_def by blast
qed

lemma serve_GET_products:
  assumes "sys_inv dc w" and "reads_back (\<lambda>p. valid_utf8 (p_Name p)) dc"
  shows "served dc (GET_products i) w"
proof (cases "pathID i")
  case (Inl e)
  then show ?thesis using assms(1) by (auto simp: served_def serve_def h_getProduct_def)
next
  case (Inr n)
  have fr: "shopp.fresh dc w" using assms(1) by (simp add: shopp_fresh sys_inv_def)
  have rb: "reads_back (\<lambda>p. sh_products (seen w) n = Some p) dc"
    using assms(1) by (intro reads_back_mono [OF assms(2)]) (auto simp: sys_inv_def)
  obtain logs w' where g: "GetProduct shop_pgx shop_prov (shop_cache dc) Background n w =
      (Returned (case sh_products (seen w) n of None \<Rightarrow> Inl ErrNotFound | Some p \<Rightarrow> Inr p, logs), w')"
    "shopp.fresh dc w'" "pg_txs (snd w') = pg_txs (snd w)"
    using shopp.GetProduct_current [OF sys_live [OF assms(1)] fr rb] by blast
  have same: "seen w' = seen w" using g(3) by (simp add: seen_def)
  have "sys_inv dc w'" using assms(1) g(2,3) same by (simp add: sys_inv_def shopp_fresh)
  moreover have "serve dc (GET_products i) w = (Returned (fst (respond 0 (GET_products i) (seen w))), w')"
    using g(1) Inr by (cases "sh_products (seen w) n") (auto simp: serve_def h_getProduct_def act_bind_def)
  moreover have "seen w' = snd (respond 0 (GET_products i) (seen w))" using Inr same by simp
  ultimately show ?thesis unfolding served_def by blast
qed

lemma serve_POST_orders:
  assumes "sys_inv dc w"
  shows "served dc (POST_orders body) w"
proof (cases "\<exists>r. body = Inr r \<and> 0 < co_ProductID r \<and> 0 < co_Quantity r")
  case False
  then have "serve dc (POST_orders body) w = (Returned (fst (respond 0 (POST_orders body) (seen w))), w)
    \<and> snd (respond 0 (POST_orders body) (seen w)) = seen w"
    by (cases body) (auto simp: serve_def h_createOrder_def not_less)
  with assms show ?thesis by (auto simp: served_def intro!: exI [of _ 0])
next
  case True
  then obtain r where r: "body = Inr r" "0 < co_ProductID r" "0 < co_Quantity r" by blast
  let ?pid = "co_ProductID r" and ?q = "co_Quantity r" and ?t = "fst w + 2 * Millisecond"
  let ?buy = "buy (seen w) ?pid ?q ?t"
  have pre: "ctx_done Background = None" "ctx_tx Background = None" "snd (pg_txs (snd w)) = []" "0 < ?q" "shop_ok (seen w)"
    and fr: "shopp.fresh dc w"
    using assms r by (simp_all add: sys_inv_def Background_def shopp_fresh)
  obtain x logs w' where x: "CreateOrder shop_pgx shop_prov (shop_cache dc) Background ?pid ?q w = (Returned (x, logs), w')"
    "x = (case ?buy of Inl e \<Rightarrow> Inl e | Inr (o', d) \<Rightarrow> Inr o')"
    "pg_txs (snd w') = (case ?buy of Inl e \<Rightarrow> pg_txs (snd w) | Inr (o', d) \<Rightarrow> (d, []))"
    "logs = [] \<Longrightarrow> shopp.fresh dc w'"
    using shopp.CreateOrder_fresh [OF pre fr, of ?pid] by blast
  have fr': "shop_fresh dc w'" using x(4) CreateOrder_silent [OF pre x(1)] by (simp add: shopp_fresh)
  show ?thesis
  proof (cases ?buy)
    case (Inl e)
    then have "seen w' = seen w" "snd (pg_txs (snd w')) = []" using x(3) pre(3) by (simp_all add: seen_def)
    then have "sys_inv dc w'" "respond ?t (POST_orders body) (seen w) = (renderServiceError e, seen w')"
      using fr' assms r Inl by (simp_all add: sys_inv_def)
    moreover have "serve dc (POST_orders body) w = (Returned (renderServiceError e), w')"
      using x(1,2) r Inl by (simp add: serve_def h_createOrder_def act_bind_def)
    ultimately show ?thesis by (blast intro: servedI)
  next
    case (Inr y)
    then obtain o' d where y: "?buy = Inr (o', d)" by (cases y) auto
    have txs: "pg_txs (snd w') = (d, [])" using x(3) y by simp
    then have seen: "seen w' = d" by (simp add: seen_def)
    obtain p where p: "sh_products (seen w) ?pid = Some p"
      "sh_products d = (sh_products (seen w))(?pid \<mapsto> p\<lparr>p_Stock := p_Stock p - ?q\<rparr>)"
      using buy_ok(1) [OF y pre(5,4)] by blast
    have "sh_nextProduct d = sh_nextProduct (seen w)" using y by (auto simp: buy_def Let_def split: option.splits if_splits)
    then have "sys_inv dc w'"
      using assms fr' seen txs p buy_ok(2) [OF y pre(5,4)] by (auto simp: sys_inv_def)
    moreover have "respond ?t (POST_orders body) (seen w) = (writeJSON 201 (POrder o'), seen w')" using r y seen by simp
    moreover have "serve dc (POST_orders body) w = (Returned (writeJSON 201 (POrder o')), w')"
      using x(1,2) r y by (simp add: serve_def h_createOrder_def act_bind_def)
    ultimately show ?thesis by (blast intro: servedI)
  qed
qed

lemma serve_step:
  assumes "sys_inv dc w" and "request_ok r" and "reads_back (\<lambda>p. valid_utf8 (p_Name p)) dc"
  shows "served dc r w"
  using serve_POST_products [OF assms(1)] serve_GET_products [OF assms(1,3)] serve_POST_orders [OF assms(1)]
    serve_GET_orders [OF assms(1)] assms(2)
  by (cases r) blast+

lemma serve_all_responds:
  assumes "reads_back (\<lambda>p. valid_utf8 (p_Name p)) dc"
    and "list_all request_ok rs" and "sys_inv dc w" and "serve_all dc rs w = (as, w')"
  shows "sys_inv dc w' \<and> (\<exists>ts. length ts = length rs \<and> respond_all (zip ts rs) (seen w) = (as, seen w'))"
  using assms(2-4)
proof (induction rs arbitrary: w as)
  case (Cons r rs)
  have "request_ok r" using Cons.prems(1) by simp
  then obtain t w1 where a: "serve dc r w = (Returned (fst (respond t r (seen w))), w1)" "seen w1 = snd (respond t r (seen w))" "sys_inv dc w1"
    using serve_step [OF Cons.prems(2) _ assms(1)] unfolding served_def by blast
  obtain as1 where as1: "serve_all dc rs w1 = (as1, w')" "as = fst (respond t r (seen w)) # as1"
    using Cons.prems(3) a(1) by (cases "serve_all dc rs w1") auto
  obtain ts where ts: "sys_inv dc w'" "length ts = length rs" "respond_all (zip ts rs) (seen w1) = (as1, seen w')"
    using Cons.IH [OF _ a(3) as1(1)] Cons.prems(1) by auto
  have "respond_all (zip (t # ts) (r # rs)) (seen w) = (as, seen w')"
    using ts(3) a(2) as1(2) by (cases "respond t r (seen w)") simp
  with ts(1,2) show ?case by (metis length_Cons)
qed simp

section \<open>What the specification keeps\<close>

lemma error_counts [simp]: "created1 i (writeError st c m) = 0" "sold1 i (writeError st c m) = 0"
  by (simp_all add: writeError_def writeJSON_def)

lemma render_counts [simp]: "created1 i (renderServiceError e) = 0" "sold1 i (renderServiceError e) = 0"
  by (simp_all add: renderServiceError_def)

text \<open>
  The data of the migration's schema: rows are stored under their key, keys come from the
  sequences, the checks and the foreign key hold, and every amount is an int64.
\<close>

definition product_ok :: "Product \<Rightarrow> bool" where
  "product_ok p \<longleftrightarrow> p_Name p \<noteq> [] \<and> 0 < p_ID p \<and> 0 \<le> p_Price p \<and> p_Price p < 2 ^ 63 \<and> 0 \<le> p_Stock p \<and> p_Stock p < 2 ^ 63"

definition order_ok :: "Order \<Rightarrow> bool" where
  "order_ok ord \<longleftrightarrow> 0 < o_ID ord \<and> 0 < o_ProductID ord \<and> 0 < o_Quantity ord \<and> o_Quantity ord < 2 ^ 63
     \<and> 0 \<le> o_Total ord \<and> o_Total ord < 2 ^ 63"

definition schema_ok :: "shop \<Rightarrow> bool" where
  "schema_ok d \<longleftrightarrow> 0 < sh_nextProduct d \<and> 0 < sh_nextOrder d
     \<and> (\<forall>i p. sh_products d i = Some p \<longrightarrow> p_ID p = i \<and> i < sh_nextProduct d \<and> product_ok p)
     \<and> (\<forall>i ord. sh_orders d i = Some ord \<longrightarrow> o_ID ord = i \<and> i < sh_nextOrder d \<and> order_ok ord
          \<and> sh_products d (o_ProductID ord) \<noteq> None)"

fun payload_ok :: "api_response \<Rightarrow> bool" where
  "payload_ok (st, PProduct p) = product_ok p"
| "payload_ok (st, POrder ord) = order_ok ord"
| "payload_ok (st, PError c m) = True"

lemma payload_ok_simps [simp]:
  "payload_ok (writeJSON st (PProduct p)) = product_ok p" "payload_ok (writeJSON st (POrder ord)) = order_ok ord"
  "payload_ok (writeError st c m)" "payload_ok (renderServiceError e)"
  by (simp_all add: writeJSON_def writeError_def renderServiceError_def)

lemma schema_product: "schema_ok d \<Longrightarrow> sh_products d i = Some p \<Longrightarrow> product_ok p \<and> p_ID p = i \<and> i < sh_nextProduct d"
  by (simp add: schema_ok_def)

lemma schema_buy:
  assumes "schema_ok d" and "buy d pid q t = Inr (ord, d')" and "0 < q"
  shows "schema_ok d' \<and> order_ok ord \<and> (\<forall>i. stock d' i = stock d i - sold1 i (writeJSON 201 (POrder ord)))"
proof -
  obtain p where p: "sh_products d pid = Some p" "q \<le> p_Stock p" "0 \<le> i64 (p_Price p * q)"
    "ord = \<lparr>o_CreatedAt = t, o_ID = sh_nextOrder d, o_ProductID = pid, o_Quantity = q, o_Total = i64 (p_Price p * q)\<rparr>"
    "d' = d\<lparr>sh_products := (sh_products d)(pid \<mapsto> p\<lparr>p_Stock := p_Stock p - q\<rparr>),
             sh_orders := (sh_orders d)(sh_nextOrder d \<mapsto> ord), sh_nextOrder := sh_nextOrder d + 1\<rparr>"
    using assms(2) by (auto simp: buy_def Let_def split: option.splits if_splits)
  note row = schema_product [OF assms(1) p(1)]
  have "order_ok ord" using row p(2-4) assms(1,3) i64_upper [of "p_Price p * q"] by (auto simp: order_ok_def product_ok_def schema_ok_def)
  moreover have "product_ok (p\<lparr>p_Stock := p_Stock p - q\<rparr>)" using row p(2) assms(3) by (auto simp: product_ok_def)
  ultimately have "schema_ok d'"
    using assms(1) row p(1) unfolding p(5) by (auto simp: schema_ok_def p(4)) (force)+
  with \<open>order_ok ord\<close> p(1,4,5) show ?thesis by (auto simp: stock_def writeJSON_def)
qed

lemma schema_insert:
  assumes "schema_ok d" and "product_ok p" and "p_ID p = sh_nextProduct d"
    and "d' = d\<lparr>sh_products := (sh_products d)(sh_nextProduct d \<mapsto> p), sh_nextProduct := sh_nextProduct d + 1\<rparr>"
  shows "schema_ok d' \<and> (\<forall>i. stock d' i = stock d i + created1 i (writeJSON 201 (PProduct p)))"
proof -
  have "sh_products d (sh_nextProduct d) = None" using assms(1) by (cases "sh_products d (sh_nextProduct d)") (auto simp: schema_ok_def)
  moreover have "schema_ok d'"
  proof -
    have "p_ID q = i \<and> i < sh_nextProduct d + 1 \<and> product_ok q" if "((sh_products d)(sh_nextProduct d \<mapsto> p)) i = Some q" for i q
      using that schema_product [OF assms(1), of i q] assms(2,3) by (auto split: if_splits)
    moreover have "0 < sh_nextProduct d \<and> 0 < sh_nextOrder d" using assms(1) by (simp add: schema_ok_def)
    ultimately show ?thesis using assms(1) unfolding assms(4) schema_ok_def by simp
  qed
  ultimately show ?thesis using assms(3) unfolding assms(4) by (simp add: stock_def writeJSON_def)
qed

lemma respond_ok:
  assumes "schema_ok d" and "request_ok r" and "respond now r d = (a, d')"
  shows "schema_ok d' \<and> payload_ok a \<and> (\<forall>i. stock d' i = stock d i + created1 i a - sold1 i a)"
  using assms
proof (induction now r d rule: respond.induct)
  case (2 now r d)
  show ?case
  proof (cases "cp_Name r = [] \<or> cp_PriceCents r < 0 \<or> cp_Stock r < 0")
    case True
    with 2 show ?thesis by (auto split: if_splits)
  next
    case False
    let ?p = "\<lparr>p_CreatedAt = now, p_Name = cp_Name r, p_ID = sh_nextProduct d, p_Price = cp_PriceCents r, p_Stock = cp_Stock r\<rparr>"
    have "product_ok ?p" "p_ID ?p = sh_nextProduct d" using False 2 by (auto simp: product_ok_def schema_ok_def)
    from schema_insert [OF 2(1) this refl] False 2(3) \<open>product_ok ?p\<close> show ?thesis
      by (auto simp: Let_def writeJSON_def)
  qed
next
  case (5 now r d)
  then show ?case
    using schema_buy [of d "co_ProductID r" "co_Quantity r" now]
    by (auto simp: writeJSON_def split: if_splits sum.splits)
qed (auto simp: schema_ok_def writeJSON_def split: sum.splits option.splits)

lemma respond_all_ok:
  assumes "schema_ok d" and "list_all (request_ok \<circ> snd) rs" and "respond_all rs d = (as, d')"
  shows "schema_ok d' \<and> list_all payload_ok as \<and> length as = length rs
    \<and> (\<forall>i. stock d' i = stock d i + created i as - sold i as)"
  using assms
proof (induction rs d arbitrary: as rule: respond_all.induct)
  case (2 now r rs d)
  obtain a d1 where a: "respond now r d = (a, d1)" by (rule prod.exhaust)
  obtain as1 d2 where r: "respond_all rs d1 = (as1, d2)" by (rule prod.exhaust)
  have s: "schema_ok d1 \<and> payload_ok a \<and> (\<forall>i. stock d1 i = stock d i + created1 i a - sold1 i a)"
    using respond_ok [OF "2.prems"(1) _ a] "2.prems"(2) by simp
  have d2: "d2 = d'" "as = a # as1" using "2.prems"(3) a r by simp_all
  from "2.IH" [OF a [symmetric] _ _ r [unfolded d2(1)]] s "2.prems"(2) show ?case
    unfolding d2(2) by (simp add: created_def sold_def)
qed (simp add: created_def sold_def)

section \<open>Properties\<close>

definition empty_world :: shop_state where
  "empty_world =
     \<lparr>pg_txs = (\<lparr>sh_products = (\<lambda>_. None), sh_orders = (\<lambda>_. None), sh_nextProduct = 1, sh_nextOrder = 1\<rparr>, []),
      pg_next = 0, pg_results = (\<lambda>_. ([], None)), ss_cache = mc_New []\<rparr>"

lemma empty_world_inv: "sys_inv dc (t, empty_world)" "stock (seen (t, empty_world)) i = 0" "schema_ok (seen (t, empty_world))"
  by (simp_all add: sys_inv_def empty_world_def seen_def shop_ok_def shop_fresh_def mc_New_def stock_def schema_ok_def)


lemma served_ok:
  assumes "reads_back (\<lambda>p. valid_utf8 (p_Name p)) dc"
    and "list_all request_ok rs" and "serve_all dc rs (t, empty_world) = (as, w')"
  shows "sys_inv dc w' \<and> schema_ok (seen w') \<and> list_all payload_ok as \<and> length as = length rs
    \<and> (\<forall>i. stock (seen w') i = created i as - sold i as)"
proof -
  obtain ts where ts: "sys_inv dc w'" "length ts = length rs" "respond_all (zip ts rs) (seen (t, empty_world)) = (as, seen w')"
    using serve_all_responds [OF assms(1,2) empty_world_inv(1) assms(3)] by blast
  have "list_all (request_ok \<circ> snd) (zip ts rs)" using assms(2) by (auto simp: list_all_iff dest: set_zip_rightD)
  from respond_all_ok [OF empty_world_inv(3) this ts(3)] ts(1,2) show ?thesis by (simp add: empty_world_inv(2))
qed

text \<open>
  C9: nothing is oversold. Starting from an empty shop, every request of any sequence of requests
  (names of valid UTF-8, int64 amounts, a codec that reads such products back) is answered, and afterwards the stock of every product is what its 201 answer promised less the
  quantities of the 201 answers to orders of it, and not negative: the answers account for the
  stock to the unit, whatever was rejected in between and whatever the cache held.
\<close>

theorem never_oversold:
  assumes "reads_back (\<lambda>p. valid_utf8 (p_Name p)) dc"
    and "list_all request_ok rs" and "serve_all dc rs (t, empty_world) = (as, w')"
  shows "length as = length rs \<and> stock (seen w') i = created i as - sold i as \<and> sold i as \<le> created i as"
proof -
  have inv: "sys_inv dc w' \<and> length as = length rs \<and> stock (seen w') i = created i as - sold i as"
    using served_ok [OF assms] by blast
  then have "shop_ok (seen w')" by (simp add: sys_inv_def)
  from stock_nonneg [OF this, of i] inv show ?thesis by simp
qed

text \<open>
  C27: the data and the answers stay well typed. Starting from an empty shop, after any sequence of
  requests whose names are valid UTF-8 and whose prices and stocks are int64 values, every row is stored under its own id and below
  the sequence, prices, stocks, quantities and totals are int64 values that satisfy the checks of the
  migration, every order refers to a product that exists, and every product or order in an answer
  has such fields too.
\<close>

theorem answers_well_typed:
  assumes "reads_back (\<lambda>p. valid_utf8 (p_Name p)) dc"
    and "list_all request_ok rs" and "serve_all dc rs (t, empty_world) = (as, w')"
  shows "schema_ok (seen w') \<and> list_all payload_ok as"
  using served_ok [OF assms] by blast

text \<open>
  C13: reads are current. After any sequence of requests (with names, amounts and a codec as above) a
  read of any product id in range answers
  200 with the row the database holds at that moment, or 404 when there is none, whether it comes
  from the cache or not.
\<close>

theorem reads_current:
  assumes "reads_back (\<lambda>p. valid_utf8 (p_Name p)) dc"
    and "list_all request_ok rs" and "serve_all dc rs (t, empty_world) = (as, w')" and "pathID param = Inr i"
  shows "\<exists>w''. serve dc (GET_products param) w' =
      (Returned (case sh_products (seen w') i of Some p \<Rightarrow> writeJSON 200 (PProduct p) | None \<Rightarrow> renderServiceError ErrNotFound), w'')
    \<and> seen w'' = seen w'"
proof -
  have "sys_inv dc w'" using served_ok [OF assms(1-3)] by blast
  from serve_GET_products [OF this assms(1), of param] assms(4) show ?thesis by (auto simp: served_def)
qed

text \<open>A product is created, three units are ordered, then far too many, then one is read.\<close>

definition demo_requests :: "request list" where
  "demo_requests =
     [POST_products (Inr \<lparr>cp_Name = ''pen'', cp_PriceCents = 250, cp_Stock = 10\<rparr>), GET_products ''1'',
      POST_orders (Inr \<lparr>co_ProductID = 1, co_Quantity = 3\<rparr>), POST_orders (Inr \<lparr>co_ProductID = 1, co_Quantity = 100\<rparr>)]"

lemma demo_ok: "list_all request_ok demo_requests"
  by (simp add: demo_requests_def valid_ascii)

theorem never_oversold_witness:
  "\<exists>as w'. serve_all pen_codec demo_requests (0, empty_world) = (as, w') \<and> length as = 4
     \<and> stock (seen w') 1 = created 1 as - sold 1 as \<and> sold 1 as \<le> created 1 as"
proof -
  obtain as w' where run: "serve_all pen_codec demo_requests (0, empty_world) = (as, w')" by (rule prod.exhaust)
  from never_oversold [OF exact_reads_back [OF pen_codec_ok] demo_ok run, of 1] run show ?thesis by (auto simp: demo_requests_def)
qed

theorem reads_current_witness:
  "\<exists>as w' w''. serve_all pen_codec demo_requests (0, empty_world) = (as, w')
     \<and> serve pen_codec (GET_products ''1'') w' =
      (Returned (case sh_products (seen w') 1 of Some p \<Rightarrow> writeJSON 200 (PProduct p) | None \<Rightarrow> renderServiceError ErrNotFound), w'')"
proof -
  obtain as w' where run: "serve_all pen_codec demo_requests (0, empty_world) = (as, w')" by (rule prod.exhaust)
  have "pathID ''1'' = Inr 1" by (simp add: pathID_def ParseInt_def is_digit_def read_nat_def char_digit_def)
  from reads_current [OF exact_reads_back [OF pen_codec_ok] demo_ok run this] run show ?thesis by blast
qed


theorem answers_well_typed_witness:
  "\<exists>as w'. serve_all pen_codec demo_requests (0, empty_world) = (as, w') \<and> schema_ok (seen w') \<and> list_all payload_ok as"
proof -
  obtain as w' where run: "serve_all pen_codec demo_requests (0, empty_world) = (as, w')" by (rule prod.exhaust)
  from answers_well_typed [OF exact_reads_back [OF pen_codec_ok] demo_ok run] run show ?thesis by blast
qed

section \<open>Interleaving a read with an order\<close>

text \<open>
  \<open>GetProduct\<close> up to and including the database read, and the rest of it. The flag says that the
  cache answered.
\<close>

definition GetProduct_load ::
  "'s pgx \<Rightarrow> 's provider \<Rightarrow> (int \<times> 's, Product) cache \<Rightarrow> go_ctx \<Rightarrow> int
     \<Rightarrow> (int \<times> 's, bool \<times> (go_error + Product) \<times> log_entry list) action" where
  "GetProduct_load P prov C ctx i =
     (let key = productCacheKey i in
      act_bind (cache_Get C ctx key zeroProduct) (\<lambda>(p, err).
        case err of
          None \<Rightarrow> act_ret (True, Inr p, [LDebug ''product cache hit''])
        | Some e \<Rightarrow>
            let warn = (if error_text e \<noteq> ''redis: nil'' \<and> error_text e \<noteq> ''cache miss: '' @ key
                        then [LWarn ''cache error or malformed entry''] else [])
            in act_bind (product_GetByID P prov ctx i) (\<lambda>r. act_ret (False, r, warn))))"

definition GetProduct_fill ::
  "(int \<times> 's, Product) cache \<Rightarrow> go_ctx \<Rightarrow> int \<Rightarrow> bool \<times> (go_error + Product) \<times> log_entry list
     \<Rightarrow> (int \<times> 's, (go_error + Product) \<times> log_entry list) action" where
  "GetProduct_fill C ctx i = (\<lambda>(hit, r, logs).
     case r of
       Inl dbErr \<Rightarrow> act_ret (Inl dbErr, logs)
     | Inr q \<Rightarrow>
         if hit then act_ret (Inr q, logs)
         else act_bind (cache_Set C ctx (productCacheKey i) q productCacheTTL) (\<lambda>setErr.
                act_ret (Inr q, logs @ (if setErr \<noteq> None then [LWarn ''failed to populate product cache''] else []))))"

lemma GetProduct_split:
  "GetProduct P prov C ctx i w = act_bind (GetProduct_load P prov C ctx i) (GetProduct_fill C ctx i) w"
proof -
  obtain g w1 where g: "cache_Get C ctx (productCacheKey i) zeroProduct w = (g, w1)" by (rule prod.exhaust)
  obtain r w2 where r: "product_GetByID P prov ctx i w1 = (r, w2)" by (rule prod.exhaust)
  show ?thesis
  proof (cases g)
    case (Returned x)
    obtain p err where x: "x = (p, err)" by (rule prod.exhaust)
    show ?thesis
      using g r Returned x
      by (cases err; cases r)
        (auto simp: GetProduct_def GetProduct_load_def GetProduct_fill_def Let_def act_bind_def split: sum.split)
  qed (use g in \<open>simp_all add: GetProduct_def GetProduct_load_def GetProduct_fill_def Let_def act_bind_def\<close>)
qed

text \<open>The cache operations of the race, on a world without a codec of its own.\<close>

lemma shop_cache_run:
  fixes w :: "int \<times> shop_state"
  assumes "mc_codec (ss_cache (snd w)) = None"
  shows "mc_data (ss_cache (snd w)) k = None \<Longrightarrow>
      cache_Get (shop_cache dc) ctx k v w = (Returned (v, Some (wrapf k ErrCacheMiss)), w)"
    and "mc_data (ss_cache (snd w)) k = Some b \<Longrightarrow>
      cache_Get (shop_cache dc) ctx k v w = (Returned (Unmarshal dc b v), w)"
    and "Marshal dc p = Inr b \<Longrightarrow> cache_Set (shop_cache dc) ctx k p ttl w =
      (Returned None, fst w, (snd w)\<lparr>ss_cache := (ss_cache (snd w))\<lparr>mc_data := (mc_data (ss_cache (snd w)))(k \<mapsto> b)\<rparr>\<rparr>)"
  using assms by (simp_all add: shop_cache_def at_cache_def mc_defs mc_codecOrDefault_def)

lemma buy_succeeds:
  assumes "sh_products d pid = Some p" and "q \<le> p_Stock p" and "0 \<le> i64 (p_Price p * q)"
  obtains o' d' where "buy d pid q t = Inr (o', d')"
  using assms by (auto simp: buy_def Let_def)

lemma GetProduct_load_miss:
  assumes "live Background w" and "mc_codec (ss_cache (snd w)) = None"
    and "mc_data (ss_cache (snd w)) (productCacheKey i) = None" and "sh_products (seen w) i = Some p"
  obtains logs w1 where "GetProduct_load shop_pgx shop_prov (shop_cache dc) Background i w = (Returned (False, Inr p, logs), w1)"
    and "stepped (seen w) w w1"
proof -
  obtain w1 where w1: "product_GetByID shop_pgx shop_prov Background i w = (Returned (Inr p), w1)" "stepped (seen w) w w1"
    unfolding product_GetByID_def using scanProduct_run [OF assms(1), of i False] assms(4) by auto
  then show thesis
    using that by (simp add: GetProduct_load_def Let_def act_bind_def shop_cache_run(1) [OF assms(2,3)])
qed

text \<open>
  C39: a read that overlaps an order can bring the old row back. When a read has missed the cache
  and loaded the row before an order of the product commits, and stores it after the order's
  invalidation has succeeded, every later read is answered from the cache with the old stock,
  although no invalidation failed and none was logged: the sequential freshness above does not
  extend to overlapping requests.
\<close>

theorem overlapping_read_is_stale:
  assumes "sys_inv dc w" and "mc_data (ss_cache (snd w)) (productCacheKey pid) = None"
    and "sh_products (seen w) pid = Some p" and "Marshal dc p = Inr b" and "\<And>v. Unmarshal dc b v = (p, None)"
    and "0 < q" and "q \<le> p_Stock p" and "0 \<le> i64 (p_Price p * q)"
  shows "\<exists>ld w1 o' w2 logs w3.
      GetProduct_load shop_pgx shop_prov (shop_cache dc) Background pid w = (Returned ld, w1)
    \<and> CreateOrder shop_pgx shop_prov (shop_cache dc) Background pid q w1 = (Returned (Inr o', []), w2)
    \<and> GetProduct_fill (shop_cache dc) Background pid ld w2 = (Returned (Inr p, logs), w3)
    \<and> sh_products (seen w3) pid = Some (p\<lparr>p_Stock := p_Stock p - q\<rparr>)
    \<and> GetProduct shop_pgx shop_prov (shop_cache dc) Background pid w3 = (Returned (Inr p, [LDebug ''product cache hit'']), w3)"
proof -
  let ?C = "shop_cache dc" and ?k = "productCacheKey pid"
  have codec: "mc_codec (ss_cache (snd w)) = None" using assms(1) by (simp add: sys_inv_def shop_fresh_def)
  obtain logs w1 where ld: "GetProduct_load shop_pgx shop_prov ?C Background pid w = (Returned (False, Inr p, logs), w1)"
    and st: "stepped (seen w) w w1"
    using GetProduct_load_miss [OF sys_live [OF assms(1)] codec assms(2,3)] .
  have inv1: "sys_inv dc w1" and s1: "seen w1 = seen w"
    using sys_inv_stepped [OF st assms(1)] stepped_seen [OF st] by simp_all
  have pre: "ctx_done Background = None" "ctx_tx Background = None" "snd (pg_txs (snd w1)) = []" "0 < q" "shop_ok (seen w1)"
    and fr: "shopp.fresh dc w1"
    using inv1 assms(6) by (simp_all add: sys_inv_def Background_def shopp_fresh)
  obtain o' d where buy: "buy (seen w1) pid q (fst w1 + 2 * Millisecond) = Inr (o', d)"
    using buy_succeeds [of "seen w1" pid p q] assms(3,7,8) s1 by metis
  obtain r l w2 where co: "CreateOrder shop_pgx shop_prov ?C Background pid q w1 = (Returned (r, l), w2)"
    "r = (case buy (seen w1) pid q (fst w1 + 2 * Millisecond) of Inl e \<Rightarrow> Inl e | Inr (o', d) \<Rightarrow> Inr o')"
    "pg_txs (snd w2) = (case buy (seen w1) pid q (fst w1 + 2 * Millisecond) of Inl e \<Rightarrow> pg_txs (snd w1) | Inr (o', d) \<Rightarrow> (d, []))"
    "l = [] \<Longrightarrow> shopp.fresh dc w2"
    using shopp.CreateOrder_fresh [OF pre fr, of pid] by blast
  have l: "l = []" using CreateOrder_silent [OF pre co(1)] .
  have co': "CreateOrder shop_pgx shop_prov ?C Background pid q w1 = (Returned (Inr o', []), w2)" "seen w2 = d"
    using co(1-3) l buy by (simp_all add: seen_def)
  have codec2: "mc_codec (ss_cache (snd w2)) = None" using co(4) [OF l] by (simp add: shopp_fresh shop_fresh_def)
  have new: "sh_products d pid = Some (p\<lparr>p_Stock := p_Stock p - q\<rparr>)"
    using buy_ok(1) [OF buy pre(5,4)] assms(3) s1 by auto
  let ?w3 = "(fst w2, (snd w2)\<lparr>ss_cache := (ss_cache (snd w2))\<lparr>mc_data := (mc_data (ss_cache (snd w2)))(?k \<mapsto> b)\<rparr>\<rparr>)"
  have fill: "GetProduct_fill ?C Background pid (False, Inr p, logs) w2 = (Returned (Inr p, logs), ?w3)"
    by (simp add: GetProduct_fill_def act_bind_def shop_cache_run(3) [OF codec2 assms(4)])
  have "seen ?w3 = d" using co'(2) by (simp add: seen_def)
  moreover have "GetProduct shop_pgx shop_prov ?C Background pid ?w3 = (Returned (Inr p, [LDebug ''product cache hit'']), ?w3)"
    using codec2 assms(5) shop_cache_run(2) [of ?w3 ?k b dc Background zeroProduct]
    by (simp add: GetProduct_def Let_def act_bind_def)
  ultimately show ?thesis using ld co'(1) fill new by blast
qed

theorem overlapping_read_is_stale_witness:
  "\<exists>ld w1 o' w2 logs w3.
      GetProduct_load shop_pgx shop_prov (shop_cache pen_codec) Background 1 (0, pen_world pen) = (Returned ld, w1)
    \<and> CreateOrder shop_pgx shop_prov (shop_cache pen_codec) Background 1 3 w1 = (Returned (Inr o', []), w2)
    \<and> GetProduct_fill (shop_cache pen_codec) Background 1 ld w2 = (Returned (Inr pen, logs), w3)
    \<and> sh_products (seen w3) 1 = Some (pen\<lparr>p_Stock := 7\<rparr>)
    \<and> GetProduct shop_pgx shop_prov (shop_cache pen_codec) Background 1 w3 = (Returned (Inr pen, [LDebug ''product cache hit'']), w3)"
proof -
  have inv: "sys_inv pen_codec (0, pen_world pen)"
    by (simp add: sys_inv_def pen_world_simps) (simp add: shop_ok_def pen_shop_def pen_def valid_ascii)
  have h: "mc_data (ss_cache (snd (0 :: int, pen_world pen))) (productCacheKey 1) = None"
    "sh_products (seen (0, pen_world pen)) 1 = Some pen" "Marshal pen_codec pen = Inr ''pen''"
    "(0 :: int) < 3" "3 \<le> p_Stock pen" "0 \<le> i64 (p_Price pen * 3)"
    by (simp_all add: pen_world_simps) (simp_all add: pen_world_def mc_New_def pen_codec_def pen_def i64_def)
  have u: "Unmarshal pen_codec ''pen'' v = (pen, None)" for v by (simp add: pen_codec_def)
  have "pen\<lparr>p_Stock := p_Stock pen - 3\<rparr> = pen\<lparr>p_Stock := 7\<rparr>" by (simp add: pen_def)
  with overlapping_read_is_stale [OF inv h(1-3) u h(4-6)] show ?thesis by simp
qed

end
