(* ===== verification/OrderConcurrency.thy ===== *)
theory OrderConcurrency
  imports OrderSystem
begin

text \<open>
  Order requests that overlap. The function \<open>CreateOrder\<close> passes to \<open>WithTx\<close> is split at its
  database calls, so that the statements of several transactions interleave in any order; the
  split code is proved equal to \<open>place_order\<close>. The database is a parameter: its laws
  (\<open>read_committed\<close>) are PostgreSQL's documented behaviour at its default isolation level, with row
  locks that last to the end of the transaction.
\<close>

section \<open>The transaction of an order, one statement at a time\<close>

datatype order_pc =
    AtLock
  | AtDecrement Product
  | AtInsert Product
  | AtCommit Order
  | AtRollback go_error
  | Answered "go_error + Order"

text \<open>The statement the code issues next, and what it does with the reply.\<close>

fun order_stmt :: "int \<Rightarrow> int \<Rightarrow> order_pc \<Rightarrow> (string \<times> dbval list) option" where
  "order_stmt pid q AtLock = Some (sql_select_product @ '' FOR UPDATE'', [DInt pid])"
| "order_stmt pid q (AtDecrement p) = Some (sql_decrement, [DInt q, DInt pid])"
| "order_stmt pid q (AtInsert p) = Some (sql_insert_order, [DInt pid, DInt q, DInt (i64 (p_Price p * q))])"
| "order_stmt pid q _ = None"

fun order_reply :: "int \<Rightarrow> order_pc \<Rightarrow> dbval list \<times> go_error option \<Rightarrow> order_pc" where
  "order_reply q AtLock (vs, err) =
     (if err_is err ''databasekit.ErrNoRows'' then AtRollback ErrNotFound
      else case err of
        Some e \<Rightarrow> AtRollback (wrapf ''select product'' e)
      | None \<Rightarrow>
          let p = product_of vs
          in if p_Stock p < q then AtRollback (stock_err (p_Stock p) q) else AtDecrement p)"
| "order_reply q (AtDecrement p) (vs, err) =
     (case err of Some e \<Rightarrow> AtRollback (wrapf ''decrement stock'' e) | None \<Rightarrow> AtInsert p)"
| "order_reply q (AtInsert p) (vs, err) =
     (case err of Some e \<Rightarrow> AtRollback (wrapf ''insert order'' e) | None \<Rightarrow> AtCommit (order_of vs))"
| "order_reply q pc _ = pc"

fun order_verdict :: "order_pc \<Rightarrow> go_error option \<times> Order" where
  "order_verdict (AtRollback e) = (Some e, zeroOrder)"
| "order_verdict (AtCommit ord) = (None, ord)"
| "order_verdict _ = (None, zeroOrder)"

text \<open>One statement through the repositories' querier.\<close>

definition issue ::
  "'s pgx \<Rightarrow> 's provider \<Rightarrow> go_ctx \<Rightarrow> string \<Rightarrow> dbval list \<Rightarrow> (int \<times> 's, dbval list \<times> go_error option) action" where
  "issue P prov ctx stmt args =
     (if stmt = sql_decrement
      then act_bind (q_Exec P prov (QuerierFromContext prov ctx) ctx stmt args) (\<lambda>(n, err). act_ret ([], err))
      else query_scan P prov ctx stmt args)"

definition order_next ::
  "'s pgx \<Rightarrow> 's provider \<Rightarrow> go_ctx \<Rightarrow> int \<Rightarrow> int \<Rightarrow> order_pc \<Rightarrow> (int \<times> 's, order_pc) action" where
  "order_next P prov ctx pid q pc =
     (case order_stmt pid q pc of
        None \<Rightarrow> act_ret pc
      | Some (stmt, args) \<Rightarrow> act_bind (issue P prov ctx stmt args) (\<lambda>r. act_ret (order_reply q pc r)))"

text \<open>Each statement of the split code is the repository call of \<open>place_order\<close>.\<close>

lemma stmt_distinct [simp]:
  "sql_select_product @ '' FOR UPDATE'' \<noteq> sql_decrement" "sql_insert_order \<noteq> sql_decrement"
  by (simp_all add: sql_stmts)

lemma order_next_lock:
  "order_next P prov ctx pid q AtLock w =
     act_bind (GetForUpdate P prov ctx pid) (\<lambda>r. act_ret
       (case r of Inl e \<Rightarrow> AtRollback e
        | Inr p \<Rightarrow> if p_Stock p < q then AtRollback (stock_err (p_Stock p) q) else AtDecrement p)) w"
proof -
  obtain r v where r: "query_scan P prov ctx (sql_select_product @ '' FOR UPDATE'') [DInt pid] w = (r, v)" by (rule prod.exhaust)
  then show ?thesis
    by (cases r) (auto simp: order_next_def issue_def GetForUpdate_def scanProduct_def act_bind_def Let_def split: option.splits)
qed

lemma order_next_decrement:
  "order_next P prov ctx pid q (AtDecrement p) w =
     act_bind (DecrementStock P prov ctx pid q) (\<lambda>r. act_ret (case r of Some e \<Rightarrow> AtRollback e | None \<Rightarrow> AtInsert p)) w"
proof -
  obtain r v where r: "q_Exec P prov (QuerierFromContext prov ctx) ctx sql_decrement [DInt q, DInt pid] w = (r, v)" by (rule prod.exhaust)
  then show ?thesis
    by (cases r) (auto simp: order_next_def issue_def DecrementStock_def act_bind_def split: option.splits)
qed

lemma order_next_insert:
  "order_next P prov ctx pid q (AtInsert p) w =
     act_bind (order_Create P prov ctx pid q (i64 (p_Price p * q))) (\<lambda>r. act_ret
       (case r of Inl e \<Rightarrow> AtRollback e | Inr ord \<Rightarrow> AtCommit ord)) w"
proof -
  obtain r v where r: "query_scan P prov ctx sql_insert_order [DInt pid, DInt q, DInt (i64 (p_Price p * q))] w = (r, v)" by (rule prod.exhaust)
  then show ?thesis
    by (cases r) (auto simp: order_next_def issue_def order_Create_def act_bind_def split: option.splits)
qed

lemma order_next_over [simp]: "order_next P prov ctx pid q (AtRollback e) w = (Returned (AtRollback e), w)"
  by (simp add: order_next_def)

lemmas order_nexts = order_next_lock order_next_decrement order_next_insert


section \<open>The database\<close>

text \<open>
  The calls of a transaction \<open>k\<close>, as relations: a statement with its reply (no transition while it
  waits for a lock), the commit (the first result says whether the server applied it, the second
  what the client is told) and the rollback.
\<close>

record 's rc_db =
  rc_exec :: "'s \<Rightarrow> nat \<Rightarrow> string \<Rightarrow> dbval list \<Rightarrow> go_error + dbval list list \<times> int \<Rightarrow> 's \<Rightarrow> bool"
  rc_commit :: "'s \<Rightarrow> nat \<Rightarrow> bool \<Rightarrow> go_error option \<Rightarrow> 's \<Rightarrow> bool"
  rc_rollback :: "'s \<Rightarrow> nat \<Rightarrow> go_error option \<Rightarrow> 's \<Rightarrow> bool"

text \<open>The reply as the repositories read it: \<open>Exec\<close> for the update, \<open>QueryRow\<close> and \<open>Scan\<close> for the others.\<close>

fun stmt_reply :: "string \<Rightarrow> go_error + dbval list list \<times> int \<Rightarrow> dbval list \<times> go_error option" where
  "stmt_reply stmt (Inl e) =
     ([], Some (if stmt \<noteq> sql_decrement \<and> errors_Is e ''pgx.ErrNoRows'' then ErrNoRows else e))"
| "stmt_reply stmt (Inr (rws, n)) =
     (if stmt = sql_decrement then ([], None)
      else case rws of [] \<Rightarrow> ([], Some ErrNoRows) | v # vs \<Rightarrow> (v, None))"

text \<open>
  The product row a statement locks against others, and the row whose lock by another transaction
  makes it wait (the foreign key makes the insertion of an order look at its product).
\<close>

fun row_lock :: "string \<Rightarrow> dbval list \<Rightarrow> int option" where
  "row_lock stmt [DInt i] = (if stmt = sql_select_product @ '' FOR UPDATE'' then Some i else None)"
| "row_lock stmt [DInt q, DInt i] = (if stmt = sql_decrement then Some i else None)"
| "row_lock stmt _ = None"

fun row_wait :: "string \<Rightarrow> dbval list \<Rightarrow> int option" where
  "row_wait stmt [DInt i, DInt q, DInt t] = (if stmt = sql_insert_order then Some i else None)"
| "row_wait stmt args = row_lock stmt args"

text \<open>
  What a transaction sees: the committed rows with its own writes over them. The next order number
  is a sequence all transactions share; it is never taken back.
\<close>

definition overlay :: "shop \<Rightarrow> (int \<Rightarrow> Product option) \<Rightarrow> (int \<Rightarrow> Order option) \<Rightarrow> shop" where
  "overlay d ps os = d\<lparr>sh_products := sh_products d ++ ps, sh_orders := sh_orders d ++ os\<rparr>"

definition written :: "(int \<Rightarrow> 'r option) \<Rightarrow> (int \<Rightarrow> 'r option) \<Rightarrow> (int \<Rightarrow> 'r option) \<Rightarrow> int \<Rightarrow> 'r option" where
  "written own old new = (\<lambda>i. if new i = old i then own i else new i)"

lemma overlay_sel [simp]:
  "sh_products (overlay d ps os) = sh_products d ++ ps" "sh_orders (overlay d ps os) = sh_orders d ++ os"
  "sh_nextOrder (overlay d ps os) = sh_nextOrder d" "sh_nextProduct (overlay d ps os) = sh_nextProduct d"
  by (simp_all add: overlay_def)

lemma overlay_empty [simp]: "overlay d Map.empty Map.empty = d"
  by (simp add: overlay_def)

section \<open>The overlapping requests\<close>

text \<open>
  A request in its transaction, and the state of the system: the database, the requests by the
  number of their transaction, and a record of what was decided in which order.
\<close>

record client =
  cl_pid :: int
  cl_qty :: int
  cl_pc :: order_pc

datatype decision = Sold nat Order | Refused nat int int go_error

record 's order_sys =
  sy_db :: 's
  sy_clients :: "nat \<Rightarrow> client option"
  sy_log :: "decision list"

fun refusal :: "nat \<Rightarrow> client \<Rightarrow> go_error + dbval list list \<times> int \<Rightarrow> order_pc \<Rightarrow> decision list" where
  "refusal k c (Inr x) (AtRollback e) = [Refused k (cl_pid c) (cl_qty c) e]"
| "refusal k c _ _ = []"

definition advance :: "nat \<Rightarrow> client \<Rightarrow> order_pc \<Rightarrow> 's \<Rightarrow> decision list \<Rightarrow> 's order_sys \<Rightarrow> 's order_sys" where
  "advance k c pc db l s =
     \<lparr>sy_db = db, sy_clients = (sy_clients s)(k \<mapsto> c\<lparr>cl_pc := pc\<rparr>), sy_log = sy_log s @ l\<rparr>"

text \<open>How \<open>WithTx\<close> ends: the answer after the commit and after the rollback.\<close>

definition commit_answer :: "Order \<Rightarrow> go_error option \<Rightarrow> go_error + Order" where
  "commit_answer ord err =
     (case err of Some ce \<Rightarrow> Inl (wrapf ''failed to commit transaction'' ce) | None \<Rightarrow> Inr ord)"

definition rollback_answer :: "go_error \<Rightarrow> go_error option \<Rightarrow> go_error + Order" where
  "rollback_answer e err =
     (case err of
        Some re \<Rightarrow>
          if \<not> errors_Is re ''databasekit.ErrTxClosed''
          then Inl (WrapError (''transaction failed: '' @ error_text e @ '', rollback failed: '' @ error_text re) [e, re])
          else Inl e
      | None \<Rightarrow> Inl e)"

inductive order_move :: "'s rc_db \<Rightarrow> 's order_sys \<Rightarrow> 's order_sys \<Rightarrow> bool" for D where
  arrive: "order_move D s (s\<lparr>sy_clients := (sy_clients s)(k \<mapsto> \<lparr>cl_pid = pid, cl_qty = q, cl_pc = AtLock\<rparr>)\<rparr>)"
    if "sy_clients s k = None" and "0 < pid" and "0 < q"
| exec: "order_move D s (advance k c pc db (refusal k c r pc) s)"
    if "sy_clients s k = Some c" and "order_stmt (cl_pid c) (cl_qty c) (cl_pc c) = Some (stmt, args)"
      and "rc_exec D (sy_db s) k stmt args r db" and "pc = order_reply (cl_qty c) (cl_pc c) (stmt_reply stmt r)"
| commit: "order_move D s (advance k c (Answered (commit_answer ord err)) db (if applied then [Sold k ord] else []) s)"
    if "sy_clients s k = Some c" and "cl_pc c = AtCommit ord" and "rc_commit D (sy_db s) k applied err db"
| rollback: "order_move D s (advance k c (Answered (rollback_answer e err)) db [] s)"
    if "sy_clients s k = Some c" and "cl_pc c = AtRollback e" and "rc_rollback D (sy_db s) k err db"

definition opened :: "'s \<Rightarrow> 's order_sys" where
  "opened db = \<lparr>sy_db = db, sy_clients = (\<lambda>_. None), sy_log = []\<rparr>"

definition order_moves :: "'s rc_db \<Rightarrow> 's order_sys \<Rightarrow> 's order_sys \<Rightarrow> bool" where
  "order_moves D = (order_move D)\<^sup>*\<^sup>*"

text \<open>
  The specification: the decisions taken one after the other, each by \<open>buy\<close> on the whole data.
  Only the number of an order may differ from the sequential run, where numbers leave no gaps.
\<close>

fun replay :: "shop \<Rightarrow> decision list \<Rightarrow> shop option" where
  "replay d [] = Some d"
| "replay d (Sold k ord # l) =
     (case buy (d\<lparr>sh_nextOrder := o_ID ord\<rparr>) (o_ProductID ord) (o_Quantity ord) (o_CreatedAt ord) of
        Inr (ord', d') \<Rightarrow> if ord' = ord then replay d' l else None
      | Inl e \<Rightarrow> None)"
| "replay d (Refused k pid q e # l) = (if buy d pid q 0 = Inl e then replay d l else None)"

lemma replay_append: "replay d (l @ l') = (case replay d l of Some d' \<Rightarrow> replay d' l' | None \<Rightarrow> None)"
  by (induction d l rule: replay.induct) (auto split: sum.splits)

fun decider :: "decision \<Rightarrow> nat" where
  "decider (Sold k ord) = k"
| "decider (Refused k pid q e) = k"

section \<open>A request in its transaction\<close>

text \<open>
  What holds of a request at each point: the row it read is still the committed one and is locked
  by it, and its own writes are those of the statements it has run. The arguments are the committed
  data, its own product and order rows, and the rows it holds.
\<close>

definition sell :: "Product \<Rightarrow> int \<Rightarrow> Product" where
  "sell p q = p\<lparr>p_Stock := p_Stock p - q\<rparr>"

definition reserved :: "shop \<Rightarrow> (int \<Rightarrow> bool) \<Rightarrow> client \<Rightarrow> Product \<Rightarrow> bool" where
  "reserved d held c p \<longleftrightarrow> held (cl_pid c) \<and> sh_products d (cl_pid c) = Some p \<and> cl_qty c \<le> p_Stock p"

definition client_ok :: "shop \<Rightarrow> (int \<Rightarrow> Product option) \<Rightarrow> (int \<Rightarrow> Order option) \<Rightarrow> (int \<Rightarrow> bool) \<Rightarrow> client \<Rightarrow> bool" where
  "client_ok d ps os held c \<longleftrightarrow> 0 < cl_qty c \<and>
     (case cl_pc c of
        AtLock \<Rightarrow> ps = Map.empty \<and> os = Map.empty
      | AtDecrement p \<Rightarrow> ps = Map.empty \<and> os = Map.empty \<and> reserved d held c p
      | AtInsert p \<Rightarrow> ps = [cl_pid c \<mapsto> sell p (cl_qty c)] \<and> os = Map.empty \<and> reserved d held c p
      | AtCommit ord \<Rightarrow> (\<exists>p. ps = [cl_pid c \<mapsto> sell p (cl_qty c)] \<and> os = [o_ID ord \<mapsto> ord] \<and> reserved d held c p
            \<and> o_ProductID ord = cl_pid c \<and> o_Quantity ord = cl_qty c \<and> o_Total ord = i64 (p_Price p * cl_qty c)
            \<and> 0 \<le> o_Total ord \<and> o_ID ord < sh_nextOrder d)
      | AtRollback e \<Rightarrow> True
      | Answered a \<Rightarrow> True)"

lemma client_ok_frame:
  assumes "client_ok d ps os held c" and "\<And>i. held i \<Longrightarrow> held' i" and "\<And>i. held i \<Longrightarrow> sh_products d' i = sh_products d i"
    and "sh_nextOrder d \<le> sh_nextOrder d'"
  shows "client_ok d' ps os held' c"
  using assms by (force simp: client_ok_def reserved_def split: order_pc.splits)

text \<open>Committing is \<open>buy\<close> on the committed data, whatever else has happened since the row was read.\<close>

lemma client_commit:
  assumes "client_ok d ps os held c" and "cl_pc c = AtCommit ord" and "sh_products d' = sh_products d"
  shows "buy (d'\<lparr>sh_nextOrder := o_ID ord\<rparr>) (o_ProductID ord) (o_Quantity ord) (o_CreatedAt ord)
    = Inr (ord, d'\<lparr>sh_products := sh_products d' ++ ps, sh_orders := sh_orders d' ++ os, sh_nextOrder := o_ID ord + 1\<rparr>)"
  using assms by (cases ord) (auto simp: client_ok_def reserved_def buy_def sell_def Let_def not_less)

lemma buy_refuses_cong: "buy d pid q t = Inl e \<Longrightarrow> sh_products d' = sh_products d \<Longrightarrow> buy d' pid q t' = Inl e"
  by (auto simp: buy_def Let_def split: option.splits if_splits)

lemma client_commit_ok:
  assumes "client_ok d ps os held c" and "cl_pc c = AtCommit ord" and "shop_ok d"
  shows "shop_ok (overlay d ps os)"
proof -
  obtain p where p: "ps = [cl_pid c \<mapsto> sell p (cl_qty c)]" "sh_products d (cl_pid c) = Some p" "cl_qty c \<le> p_Stock p" "0 < cl_qty c"
    using assms(1,2) by (auto simp: client_ok_def reserved_def)
  then have "0 \<le> p_Stock p - cl_qty c" "p_Stock p - cl_qty c < 2 ^ 63" using assms(3) by (force simp: shop_ok_def)+
  then show ?thesis using assms(3) p(1) by (auto simp: shop_ok_def sell_def)
qed

fun answered :: "order_pc \<Rightarrow> bool" where
  "answered (Answered a) = True"
| "answered pc = False"

lemma advance_sel [simp]:
  "sy_db (advance k c pc db l s) = db" "sy_log (advance k c pc db l s) = sy_log s @ l"
  "sy_clients (advance k c pc db l s) = (sy_clients s)(k \<mapsto> c\<lparr>cl_pc := pc\<rparr>)"
  by (simp_all add: advance_def)

text \<open>How the decisions and the answers belong together, given the committed orders.\<close>

definition told :: "(nat \<Rightarrow> client option) \<Rightarrow> (int \<Rightarrow> Order option) \<Rightarrow> decision \<Rightarrow> bool" where
  "told cs os x \<longleftrightarrow>
     (case x of
        Sold k ord \<Rightarrow> os (o_ID ord) = Some ord \<and> (\<exists>c err. cs k = Some c \<and> cl_pid c = o_ProductID ord \<and> cl_qty c = o_Quantity ord
            \<and> cl_pc c = Answered (commit_answer ord err))
      | Refused k pid q e \<Rightarrow> (\<exists>c. cs k = Some c \<and> cl_pid c = pid \<and> cl_qty c = q
            \<and> (cl_pc c = AtRollback e \<or> (\<exists>err. cl_pc c = Answered (rollback_answer e err)))))"

text \<open>The database before the first request.\<close>

definition quiet_db ::
  "('s \<Rightarrow> shop) \<Rightarrow> ('s \<Rightarrow> nat \<Rightarrow> int \<Rightarrow> Product option) \<Rightarrow> ('s \<Rightarrow> nat \<Rightarrow> int \<Rightarrow> Order option) \<Rightarrow> ('s \<Rightarrow> int \<Rightarrow> nat option) \<Rightarrow> 's \<Rightarrow> bool" where
  "quiet_db rows ownp owno holder s \<longleftrightarrow>
     (\<forall>k. ownp s k = Map.empty \<and> owno s k = Map.empty) \<and> (\<forall>i. holder s i = None) \<and> shop_ok (rows s)
     \<and> (\<forall>i. sh_nextOrder (rows s) \<le> i \<longrightarrow> sh_orders (rows s) i = None)"

text \<open>The calls a request still has to make at most, and those of all requests together.\<close>

fun calls_left :: "order_pc \<Rightarrow> nat" where
  "calls_left AtLock = 4"
| "calls_left (AtDecrement p) = 3"
| "calls_left (AtInsert p) = 2"
| "calls_left (AtCommit ord) = 1"
| "calls_left (AtRollback e) = 1"
| "calls_left (Answered a) = 0"

definition work :: "'s order_sys \<Rightarrow> nat" where
  "work s = (\<Sum>k \<in> dom (sy_clients s). calls_left (cl_pc (the (sy_clients s k))))"

lemma calls_left_zero [simp]: "calls_left pc = 0 \<longleftrightarrow> answered pc"
  by (cases pc) simp_all

lemma reply_advances:
  "order_stmt pid q pc = Some x \<Longrightarrow> calls_left (order_reply q pc (stmt_reply stmt r)) < calls_left pc"
  by (cases pc; cases "stmt_reply stmt r") (auto simp: Let_def split: option.splits)

lemma work_advance:
  assumes "finite (dom (sy_clients s))" and "sy_clients s k = Some c" and "calls_left pc < calls_left (cl_pc c)"
  shows "work (advance k c pc db l s) < work s"
proof -
  have k: "k \<in> dom (sy_clients s)" using assms(2) by blast
  show ?thesis
    unfolding work_def using assms k
    by (simp add: insert_absorb sum.remove [OF assms(1) k] del: sum.remove)
qed

lemma order_move_work:
  assumes "order_move D s s'" and "finite (dom (sy_clients s))" and "dom (sy_clients s') = dom (sy_clients s)"
  shows "work s' < work s"
  using assms
proof (induction rule: order_move.induct)
  case (arrive s k pid q)
  then have "k \<in> dom (sy_clients s)" by (metis domI fun_upd_same order_sys.select_convs(2) order_sys.surjective order_sys.update_convs(2))
  with arrive show ?case by auto
next
  case (exec s k c stmt args r db pc)
  show ?case by (rule work_advance [OF exec.prems(1) exec.hyps(1)]) (use reply_advances [OF exec.hyps(2)] exec.hyps(4) in simp)
next
  case (commit s k c ord applied err db)
  show ?case by (rule work_advance [OF commit.prems(1) commit.hyps(1)]) (simp add: commit.hyps(2))
next
  case (rollback s k c e err db)
  show ?case by (rule work_advance [OF rollback.prems(1) rollback.hyps(1)]) (simp add: rollback.hyps(2))
qed

lemma told_decided:
  "told cs os x \<Longrightarrow> \<exists>c. cs (decider x) = Some c \<and> ((\<exists>e. cl_pc c = AtRollback e) \<or> answered (cl_pc c))"
  by (cases x) (auto simp: told_def)

lemma told_frame:
  assumes "told cs os x" and "decider x \<noteq> k" and "\<And>i ord. os i = Some ord \<Longrightarrow> os' i = Some ord"
  shows "told (cs(k := y)) os' x"
  using assms by (cases x) (auto simp: told_def)

section \<open>The laws of the database\<close>

locale read_committed =
  fixes D :: "'s rc_db"
    and rows :: "'s \<Rightarrow> shop" and ownp :: "'s \<Rightarrow> nat \<Rightarrow> int \<Rightarrow> Product option"
    and owno :: "'s \<Rightarrow> nat \<Rightarrow> int \<Rightarrow> Order option" and holder :: "'s \<Rightarrow> int \<Rightarrow> nat option"
  assumes exec_ok: "rc_exec D s k stmt args (Inr (rws, n)) s' \<Longrightarrow>
      \<exists>now d. orders_sql stmt args now (overlay (rows s) (ownp s k) (owno s k)) = Inr (rws, n, d)
        \<and> ownp s' k = written (ownp s k) (sh_products (overlay (rows s) (ownp s k) (owno s k))) (sh_products d)
        \<and> owno s' k = written (owno s k) (sh_orders (overlay (rows s) (ownp s k) (owno s k))) (sh_orders d)
        \<and> sh_nextOrder d \<le> sh_nextOrder (rows s')"
    and exec_lock: "rc_exec D s k stmt args (Inr x) s' \<Longrightarrow> row_lock stmt args = Some i \<Longrightarrow>
      (sh_products (rows s) ++ ownp s k) i \<noteq> None \<Longrightarrow> holder s i \<in> {None, Some k} \<and> holder s' i = Some k"
    and exec_rows: "rc_exec D s k stmt args r s' \<Longrightarrow> sh_products (rows s') = sh_products (rows s)
        \<and> sh_orders (rows s') = sh_orders (rows s) \<and> sh_nextOrder (rows s) \<le> sh_nextOrder (rows s')"
    and exec_others: "rc_exec D s k stmt args r s' \<Longrightarrow> j \<noteq> k \<Longrightarrow> ownp s' j = ownp s j \<and> owno s' j = owno s j"
    and exec_keeps: "rc_exec D s k stmt args r s' \<Longrightarrow> holder s i = Some j \<Longrightarrow> holder s' i = Some j"
    and exec_takes: "rc_exec D s k stmt args r s' \<Longrightarrow> holder s' i = Some j \<Longrightarrow>
        holder s i = Some j \<or> j = k \<and> row_lock stmt args = Some i"
    and exec_enabled: "(\<And>i. row_wait stmt args = Some i \<Longrightarrow> holder s i \<in> {None, Some k}) \<Longrightarrow> \<exists>r s'. rc_exec D s k stmt args r s'"
    and commit_rows: "rc_commit D s k applied err s' \<Longrightarrow>
        (if applied then rows s' = overlay (rows s) (ownp s k) (owno s k) else rows s' = rows s) \<and> (err = None \<longrightarrow> applied)"
    and commit_ends: "rc_commit D s k applied err s' \<Longrightarrow> ownp s' = (ownp s)(k := Map.empty) \<and> owno s' = (owno s)(k := Map.empty)
        \<and> holder s' = (\<lambda>i. if holder s i = Some k then None else holder s i)"
    and commit_enabled: "\<exists>applied err s'. rc_commit D s k applied err s'"
    and rollback_rows: "rc_rollback D s k err s' \<Longrightarrow> rows s' = rows s"
    and rollback_ends: "rc_rollback D s k err s' \<Longrightarrow> ownp s' = (ownp s)(k := Map.empty) \<and> owno s' = (owno s)(k := Map.empty)
        \<and> holder s' = (\<lambda>i. if holder s i = Some k then None else holder s i)"
    and rollback_enabled: "\<exists>err s'. rc_rollback D s k err s'"
begin

abbreviation mine :: "'s \<Rightarrow> nat \<Rightarrow> int \<Rightarrow> bool" where
  "mine s k \<equiv> \<lambda>i. holder s i = Some k"

abbreviation ok :: "'s \<Rightarrow> nat \<Rightarrow> client \<Rightarrow> bool" where
  "ok s k c \<equiv> client_ok (rows s) (ownp s k) (owno s k) (mine s k) c"

lemma exec_fault:
  "0 < cl_qty c \<Longrightarrow> order_stmt pid (cl_qty c) (cl_pc c) = Some (stmt, args) \<Longrightarrow>
   ok s k (c\<lparr>cl_pc := order_reply (cl_qty c) (cl_pc c) (stmt_reply stmt (Inl e))\<rparr>)"
  by (cases "cl_pc c") (auto simp: client_ok_def)

lemma exec_lock_ok:
  assumes "ok s k c" and "cl_pc c = AtLock"
    and "rc_exec D s k (sql_select_product @ '' FOR UPDATE'') [DInt (cl_pid c)] (Inr x) s'"
    and "pc = order_reply (cl_qty c) AtLock (stmt_reply (sql_select_product @ '' FOR UPDATE'') (Inr x))"
  shows "(\<exists>e. pc = AtRollback e \<and> buy (rows s) (cl_pid c) (cl_qty c) 0 = Inl e)
    \<or> (\<exists>p. pc = AtDecrement p) \<and> ok s' k (c\<lparr>cl_pc := pc\<rparr>)"
proof -
  obtain rws n where x: "x = (rws, n)" by (rule prod.exhaust)
  have own: "ownp s k = Map.empty" "owno s k = Map.empty" "0 < cl_qty c" using assms(1,2) by (simp_all add: client_ok_def)
  obtain d where d: "run_select_product [DInt (cl_pid c)] (rows s) = Inr (rws, n, d)"
    "ownp s' k = written Map.empty (sh_products (rows s)) (sh_products d)"
    "owno s' k = written Map.empty (sh_orders (rows s)) (sh_orders d)"
    using exec_ok [OF assms(3) [unfolded x]] own by auto
  show ?thesis
  proof (cases "sh_products (rows s) (cl_pid c)")
    case None
    then show ?thesis using assms(4) x d by (auto simp: buy_def ErrNoRows_def)
  next
    case (Some p)
    have "holder s' (cl_pid c) = Some k" using exec_lock [OF assms(3)] Some own by simp
    moreover have "ownp s' k = Map.empty" "owno s' k = Map.empty" using d by (auto simp: written_def)
    ultimately show ?thesis
      using assms(4) x d(1) Some exec_rows [OF assms(3)] own(3)
      by (auto simp: buy_def Let_def client_ok_def reserved_def)
  qed
qed

lemma exec_decrement_ok:
  assumes "ok s k c" and "cl_pc c = AtDecrement p" and "rc_exec D s k sql_decrement [DInt (cl_qty c), DInt (cl_pid c)] (Inr x) s'"
  shows "ok s' k (c\<lparr>cl_pc := AtInsert p\<rparr>)"
proof -
  obtain rws n where x: "x = (rws, n)" by (rule prod.exhaust)
  have own: "ownp s k = Map.empty" "owno s k = Map.empty" "0 < cl_qty c" "reserved (rows s) (mine s k) c p"
    using assms(1,2) by (simp_all add: client_ok_def)
  then have p: "sh_products (rows s) (cl_pid c) = Some p" by (simp add: reserved_def)
  obtain d where d: "run_decrement [DInt (cl_qty c), DInt (cl_pid c)] (rows s) = Inr (rws, n, d)"
    "ownp s' k = written Map.empty (sh_products (rows s)) (sh_products d)"
    "owno s' k = written Map.empty (sh_orders (rows s)) (sh_orders d)"
    using exec_ok [OF assms(3) [unfolded x]] own by auto
  have "d = (rows s)\<lparr>sh_products := (sh_products (rows s))(cl_pid c \<mapsto> sell p (cl_qty c))\<rparr>"
    using d(1) p by (auto simp: sell_def split: if_splits)
  moreover have "sell p (cl_qty c) \<noteq> p" using own(3) by (cases p) (simp add: sell_def)
  ultimately have "ownp s' k = [cl_pid c \<mapsto> sell p (cl_qty c)]" "owno s' k = Map.empty"
    using d(2,3) p by (auto simp: written_def)
  moreover have "reserved (rows s') (mine s' k) c p"
    using own(4) exec_keeps [OF assms(3)] exec_rows [OF assms(3)] by (simp add: reserved_def)
  ultimately show ?thesis using own(3) by (simp add: client_ok_def reserved_def)
qed

lemma exec_insert_ok:
  assumes "ok s k c" and "cl_pc c = AtInsert p"
    and "rc_exec D s k sql_insert_order [DInt (cl_pid c), DInt (cl_qty c), DInt (i64 (p_Price p * cl_qty c))] (Inr x) s'"
    and "sh_orders (rows s) (sh_nextOrder (rows s)) = None"
  shows "\<exists>ord. order_reply (cl_qty c) (AtInsert p) (stmt_reply sql_insert_order (Inr x)) = AtCommit ord
    \<and> o_ID ord = sh_nextOrder (rows s) \<and> ok s' k (c\<lparr>cl_pc := AtCommit ord\<rparr>)"
proof -
  obtain rws n where x: "x = (rws, n)" by (rule prod.exhaust)
  have own: "ownp s k = [cl_pid c \<mapsto> sell p (cl_qty c)]" "owno s k = Map.empty" "0 < cl_qty c" "reserved (rows s) (mine s k) c p"
    using assms(1,2) by (simp_all add: client_ok_def)
  let ?v = "overlay (rows s) (ownp s k) (owno s k)" and ?t = "i64 (p_Price p * cl_qty c)"
  obtain now d where d: "run_insert_order [DInt (cl_pid c), DInt (cl_qty c), DInt ?t] now ?v = Inr (rws, n, d)"
    "ownp s' k = written (ownp s k) (sh_products ?v) (sh_products d)"
    "owno s' k = written (owno s k) (sh_orders ?v) (sh_orders d)"
    "sh_nextOrder d \<le> sh_nextOrder (rows s')"
    using exec_ok [OF assms(3) [unfolded x]] by auto
  let ?o = "\<lparr>o_CreatedAt = now, o_ID = sh_nextOrder (rows s), o_ProductID = cl_pid c, o_Quantity = cl_qty c, o_Total = ?t\<rparr>"
  have t: "0 \<le> ?t" and rws: "rws = [order_row ?o]"
    and dd: "d = ?v\<lparr>sh_orders := (sh_orders ?v)(o_ID ?o \<mapsto> ?o), sh_nextOrder := sh_nextOrder (rows s) + 1\<rparr>"
    using d(1) by (auto simp: Let_def split: if_splits)
  have "ownp s' k = [cl_pid c \<mapsto> sell p (cl_qty c)]" using d(2) dd own(1) by (auto simp: written_def)
  moreover have "owno s' k = [o_ID ?o \<mapsto> ?o]" using d(3) dd own(2) assms(4) by (auto simp: written_def)
  moreover have "reserved (rows s') (mine s' k) c p"
    using own(4) exec_keeps [OF assms(3)] exec_rows [OF assms(3)] by (simp add: reserved_def)
  ultimately have "ok s' k (c\<lparr>cl_pc := AtCommit ?o\<rparr>)"
    using own(3) t d(4) dd by (simp add: client_ok_def reserved_def)
  then show ?thesis using x rws by (intro exI [of _ ?o]) simp
qed

definition serial :: "shop \<Rightarrow> 's order_sys \<Rightarrow> bool" where
  "serial d0 s \<longleftrightarrow> shop_ok (rows (sy_db s)) \<and> (\<exists>d. replay d0 (sy_log s) = Some d
     \<and> sh_products d = sh_products (rows (sy_db s)) \<and> sh_orders d = sh_orders (rows (sy_db s)))"

definition clients_ok :: "'s order_sys \<Rightarrow> bool" where
  "clients_ok s \<longleftrightarrow> finite (dom (sy_clients s)) \<and> (\<forall>k c. sy_clients s k = Some c \<longrightarrow> ok (sy_db s) k c)
     \<and> (\<forall>k. sy_clients s k = None \<longrightarrow> ownp (sy_db s) k = Map.empty \<and> owno (sy_db s) k = Map.empty)"

definition locks_ok :: "'s order_sys \<Rightarrow> bool" where
  "locks_ok s \<longleftrightarrow> (\<forall>i k. holder (sy_db s) i = Some k \<longrightarrow>
     (\<exists>c. sy_clients s k = Some c \<and> cl_pid c = i \<and> \<not> answered (cl_pc c)))"

definition ids_ok :: "'s order_sys \<Rightarrow> bool" where
  "ids_ok s \<longleftrightarrow> (\<forall>i. sh_nextOrder (rows (sy_db s)) \<le> i \<longrightarrow> sh_orders (rows (sy_db s)) i = None)
     \<and> (\<forall>k c ord. sy_clients s k = Some c \<longrightarrow> cl_pc c = AtCommit ord \<longrightarrow> sh_orders (rows (sy_db s)) (o_ID ord) = None
        \<and> (\<forall>j c' ord'. sy_clients s j = Some c' \<longrightarrow> cl_pc c' = AtCommit ord' \<longrightarrow> j \<noteq> k \<longrightarrow> o_ID ord' \<noteq> o_ID ord))"

definition log_ok :: "'s order_sys \<Rightarrow> bool" where
  "log_ok s \<longleftrightarrow> distinct (map decider (sy_log s)) \<and> (\<forall>x \<in> set (sy_log s). told (sy_clients s) (sh_orders (rows (sy_db s))) x)
     \<and> (\<forall>k c ord. sy_clients s k = Some c \<longrightarrow> cl_pc c = Answered (Inr ord) \<longrightarrow> Sold k ord \<in> set (sy_log s))"

definition system_ok :: "shop \<Rightarrow> 's order_sys \<Rightarrow> bool" where
  "system_ok d0 s \<longleftrightarrow> serial d0 s \<and> clients_ok s \<and> locks_ok s \<and> ids_ok s \<and> log_ok s"

lemma client_of: "clients_ok s \<Longrightarrow> sy_clients s k = Some c \<Longrightarrow> ok (sy_db s) k c"
  by (simp add: clients_ok_def)

text \<open>Nothing is recorded twice: a transaction that can still move has decided nothing.\<close>

lemma log_told: "log_ok s \<Longrightarrow> x \<in> set (sy_log s) \<Longrightarrow> told (sy_clients s) (sh_orders (rows (sy_db s))) x"
  by (simp add: log_ok_def)

lemma undecided:
  assumes "log_ok s" and "\<And>c. sy_clients s k = Some c \<Longrightarrow> \<not> answered (cl_pc c) \<and> (\<forall>e. cl_pc c \<noteq> AtRollback e)"
    and "x \<in> set (sy_log s)"
  shows "decider x \<noteq> k"
  using told_decided [OF log_told [OF assms(1,3)]] assms(2) by blast

lemma clients_ok_advance:
  assumes "clients_ok s" and "sy_clients s k = Some c" and "ok db k (c\<lparr>cl_pc := pc\<rparr>)"
    and "\<And>j. j \<noteq> k \<Longrightarrow> ownp db j = ownp (sy_db s) j \<and> owno db j = owno (sy_db s) j"
    and "\<And>j c'. j \<noteq> k \<Longrightarrow> ok (sy_db s) j c' \<Longrightarrow> ok db j c'"
  shows "clients_ok (advance k c pc db l s)"
  using assms by (simp add: clients_ok_def)

text \<open>A transaction's call leaves the other transactions' points as they are.\<close>

lemma ok_others_exec:
  assumes "rc_exec D s k stmt args r s'" and "j \<noteq> k" and "ok s j c"
  shows "ok s' j c"
proof -
  have "client_ok (rows s') (ownp s j) (owno s j) (mine s' j) c"
    by (rule client_ok_frame [OF assms(3)]) (use exec_keeps [OF assms(1)] exec_rows [OF assms(1)] in auto)
  then show ?thesis using exec_others [OF assms(1,2)] by simp
qed

lemma ok_others_rollback: "rc_rollback D s k err s' \<Longrightarrow> j \<noteq> k \<Longrightarrow> ok s j c \<Longrightarrow> ok s' j c"
  using rollback_rows [of s k err s'] rollback_ends [of s k err s'] by (auto elim: client_ok_frame)

text \<open>A commit changes the row of its product only, and that was locked by it.\<close>

lemma ok_others_commit:
  assumes "rc_commit D s k applied err s'" and "j \<noteq> k" and "ok s j c" and "ok s k c'" and "cl_pc c' = AtCommit ord"
  shows "ok s' j c"
proof -
  obtain p where held: "holder s (cl_pid c') = Some k" and own: "ownp s k = [cl_pid c' \<mapsto> p]"
    using assms(4,5) by (auto simp: client_ok_def reserved_def)
  have "(sh_products (rows s) ++ ownp s k) i = sh_products (rows s) i" if "holder s i = Some j" for i
    using that held own assms(2) by (auto simp: map_add_def)
  then have "client_ok (rows s') (ownp s j) (owno s j) (mine s' j) c"
    using commit_rows [OF assms(1)] commit_ends [OF assms(1)] assms(2)
    by (intro client_ok_frame [OF assms(3)]) (auto split: if_splits)
  then show ?thesis using commit_ends [OF assms(1)] assms(2) by simp
qed

section \<open>Every move keeps the invariant\<close>

lemma move_arrive:
  assumes "system_ok d0 s" and "sy_clients s k = None" and "0 < q"
  shows "system_ok d0 (s\<lparr>sy_clients := (sy_clients s)(k \<mapsto> \<lparr>cl_pid = pid, cl_qty = q, cl_pc = AtLock\<rparr>)\<rparr>)"
proof -
  let ?s = "s\<lparr>sy_clients := (sy_clients s)(k \<mapsto> \<lparr>cl_pid = pid, cl_qty = q, cl_pc = AtLock\<rparr>)\<rparr>"
  note inv = assms(1) [unfolded system_ok_def]
  have "decider x \<noteq> k" if "x \<in> set (sy_log s)" for x
    using undecided [of s k x] inv that assms(2) by simp
  then have "log_ok ?s" using inv by (auto simp: log_ok_def intro!: told_frame)
  moreover have "clients_ok ?s" using inv assms(2,3) by (auto simp: clients_ok_def client_ok_def)
  moreover have "locks_ok ?s" using inv assms(2) by (fastforce simp: locks_ok_def)
  moreover have "ids_ok ?s" using inv by (auto simp: ids_ok_def)
  moreover have "serial d0 ?s" using inv by (simp add: serial_def)
  ultimately show ?thesis by (simp add: system_ok_def)
qed

lemma move_rollback:
  assumes "system_ok d0 s" and "sy_clients s k = Some c" and "cl_pc c = AtRollback e" and "rc_rollback D (sy_db s) k err db"
  shows "system_ok d0 (advance k c (Answered (rollback_answer e err)) db [] s)"
proof -
  let ?s = "advance k c (Answered (rollback_answer e err)) db [] s"
  note inv = assms(1) [unfolded system_ok_def] and rs = rollback_rows [OF assms(4)] and en = rollback_ends [OF assms(4)]
  have ok: "ok (sy_db s) k c" using inv assms(2) by (blast intro: client_of)
  have "clients_ok ?s"
    by (rule clients_ok_advance [OF _ assms(2)])
      (use inv ok en ok_others_rollback [OF assms(4)] in \<open>auto simp: client_ok_def\<close>)
  moreover have "told ((sy_clients s)(k \<mapsto> c\<lparr>cl_pc := Answered (rollback_answer e err)\<rparr>)) os x"
    if "told (sy_clients s) os x" for os x
    using that assms(2,3) by (cases x) (auto simp: told_def)
  then have "log_ok ?s"
    using inv rs by (auto simp: log_ok_def rollback_answer_def split: option.splits if_splits)
  moreover have "locks_ok ?s" using inv en assms(2) by (fastforce simp: locks_ok_def split: if_splits)
  moreover have "ids_ok ?s" using inv rs by (auto simp: ids_ok_def)
  moreover have "serial d0 ?s" using inv rs by (simp add: serial_def)
  ultimately show ?thesis by (simp add: system_ok_def)
qed

text \<open>What a statement that was answered does to its own transaction.\<close>

lemma exec_own:
  assumes "ok s k c" and "order_stmt (cl_pid c) (cl_qty c) (cl_pc c) = Some (stmt, args)" and "rc_exec D s k stmt args r s'"
    and "pc = order_reply (cl_qty c) (cl_pc c) (stmt_reply stmt r)" and "sh_orders (rows s) (sh_nextOrder (rows s)) = None"
  shows "ok s' k (c\<lparr>cl_pc := pc\<rparr>) \<and> \<not> answered pc \<and> (\<forall>ord. pc = AtCommit ord \<longrightarrow> o_ID ord = sh_nextOrder (rows s))
    \<and> (refusal k c r pc = [] \<or> (\<exists>e. pc = AtRollback e \<and> refusal k c r pc = [Refused k (cl_pid c) (cl_qty c) e]
          \<and> buy (rows s) (cl_pid c) (cl_qty c) 0 = Inl e))"
proof (cases r)
  case (Inl e)
  have "0 < cl_qty c" using assms(1) by (simp add: client_ok_def)
  from exec_fault [OF this assms(2), of s' k e] show ?thesis
    using assms(2,4) Inl by (cases "cl_pc c") auto
next
  case (Inr x)
  show ?thesis
  proof (cases "cl_pc c")
    case AtLock
    have "0 < cl_qty c" using assms(1) by (simp add: client_ok_def)
    then show ?thesis
      using exec_lock_ok [OF assms(1) AtLock, of x s' pc] assms(2-4) AtLock Inr by (auto simp: client_ok_def)
  next
    case (AtDecrement p)
    then show ?thesis using exec_decrement_ok [OF assms(1), of p x s'] assms(2-4) Inr by (cases x) auto
  next
    case (AtInsert p)
    then show ?thesis using exec_insert_ok [OF assms(1) AtInsert, of x s'] assms(2-5) Inr by auto
  qed (use assms(2) in simp_all)
qed

lemma stmt_row: "order_stmt pid q pc = Some (stmt, args) \<Longrightarrow> row_lock stmt args = Some i \<Longrightarrow> i = pid"
  by (cases pc) (auto simp: sql_stmts split: if_splits)

lemma stmt_open: "order_stmt pid q pc = Some x \<Longrightarrow> \<not> answered pc \<and> (\<forall>e. pc \<noteq> AtRollback e) \<and> (\<forall>ord. pc \<noteq> AtCommit ord)"
  by (cases pc) auto

lemma move_exec:
  assumes "system_ok d0 s" and "sy_clients s k = Some c" and "order_stmt (cl_pid c) (cl_qty c) (cl_pc c) = Some (stmt, args)"
    and "rc_exec D (sy_db s) k stmt args r db" and "pc = order_reply (cl_qty c) (cl_pc c) (stmt_reply stmt r)"
  shows "system_ok d0 (advance k c pc db (refusal k c r pc) s)"
proof -
  let ?s = "advance k c pc db (refusal k c r pc) s" and ?d = "rows (sy_db s)"
  note inv = assms(1) [unfolded system_ok_def] and rs = exec_rows [OF assms(4)] and opn = stmt_open [OF assms(3)]
  have ok: "ok (sy_db s) k c" using inv assms(2) by (blast intro: client_of)
  have free: "sh_orders ?d (sh_nextOrder ?d) = None" using inv by (simp add: ids_ok_def)
  note own = exec_own [OF ok assms(3,4,5) free]
  have new: "decider x \<noteq> k" if "x \<in> set (sy_log s)" for x
    using undecided [of s k x] inv that assms(2) opn by simp
  have "serial d0 ?s"
    using inv own rs by (auto simp: serial_def replay_append shop_ok_def intro: buy_refuses_cong)
  moreover have "clients_ok ?s"
    by (rule clients_ok_advance [OF _ assms(2)]) (use inv own ok_others_exec [OF assms(4)] exec_others [OF assms(4)] in auto)
  moreover have "locks_ok ?s"
    using inv exec_takes [OF assms(4)] stmt_row [OF assms(3)] assms(2) own by (fastforce simp: locks_ok_def)
  moreover have "ids_ok ?s"
  proof -
    have "o_ID ord < sh_nextOrder ?d" if "sy_clients s j = Some c'" "cl_pc c' = AtCommit ord" for j c' ord
      using client_of [of s j c'] inv that by (auto simp: client_ok_def)
    then show ?thesis using inv own rs by (auto simp: ids_ok_def free) (metis less_irrefl)+
  qed
  moreover have "log_ok ?s"
  proof -
    have "told (sy_clients ?s) (sh_orders (rows db)) x" if "x \<in> set (sy_log s)" for x
      using told_frame [OF log_told [OF _ that] new [OF that]] inv rs by simp
    moreover have "told (sy_clients ?s) (sh_orders (rows db)) x" if "x \<in> set (refusal k c r pc)" for x
      using that own by (auto simp: told_def)
    ultimately show ?thesis using inv new own by (auto simp: log_ok_def)
  qed
  ultimately show ?thesis by (simp add: system_ok_def)
qed

lemma move_commit:
  assumes "system_ok d0 s" and "sy_clients s k = Some c" and "cl_pc c = AtCommit ord" and "rc_commit D (sy_db s) k applied err db"
  shows "system_ok d0 (advance k c (Answered (commit_answer ord err)) db (if applied then [Sold k ord] else []) s)"
proof -
  let ?s = "advance k c (Answered (commit_answer ord err)) db (if applied then [Sold k ord] else []) s" and ?d = "rows (sy_db s)"
  note inv = assms(1) [unfolded system_ok_def] and rs = commit_rows [OF assms(4)] and en = commit_ends [OF assms(4)]
  have ok: "ok (sy_db s) k c" using inv assms(2) by (blast intro: client_of)
  then have own: "owno (sy_db s) k = [o_ID ord \<mapsto> ord]" "cl_pid c = o_ProductID ord" "cl_qty c = o_Quantity ord"
    "o_ID ord < sh_nextOrder ?d"
    using assms(3) by (auto simp: client_ok_def)
  have fresh: "sh_orders ?d (o_ID ord) = None" using inv assms(2,3) unfolding ids_ok_def by blast
  have os: "sh_orders (rows db) = (if applied then (sh_orders ?d)(o_ID ord \<mapsto> ord) else sh_orders ?d)"
    "sh_nextOrder (rows db) = sh_nextOrder ?d"
    using rs own(1) by (simp_all split: if_splits)
  have keep: "sh_orders (rows db) i = Some y" if "sh_orders ?d i = Some y" for i y
    using that os(1) fresh by auto
  have new: "decider x \<noteq> k" if "x \<in> set (sy_log s)" for x
    using undecided [of s k x] inv that assms(2,3) by simp
  have "serial d0 ?s"
  proof -
    obtain d where d: "replay d0 (sy_log s) = Some d" "sh_products d = sh_products ?d" "sh_orders d = sh_orders ?d" "shop_ok ?d"
      using inv by (auto simp: serial_def)
    then show ?thesis
      using client_commit [OF ok assms(3) d(2)] client_commit_ok [OF ok assms(3) d(4)] rs by (auto simp: serial_def replay_append)
  qed
  moreover have "clients_ok ?s"
    by (rule clients_ok_advance [OF _ assms(2)])
      (use inv ok en ok_others_commit [OF assms(4) _ _ ok assms(3)] in \<open>auto simp: client_ok_def\<close>)
  moreover have "locks_ok ?s" using inv en assms(2) by (fastforce simp: locks_ok_def split: if_splits)
  moreover have "ids_ok ?s" using inv os own(4) assms(2,3) by (simp add: ids_ok_def)
  moreover have "log_ok ?s"
  proof -
    have "told (sy_clients ?s) (sh_orders (rows db)) x" if "x \<in> set (sy_log s)" for x
      using told_frame [OF log_told [OF _ that] new [OF that] keep] inv by simp
    moreover have "told (sy_clients ?s) (sh_orders (rows db)) (Sold k ord)" if applied
      using that own os by (auto simp: told_def)
    ultimately show ?thesis
      using inv new rs by (auto simp: log_ok_def commit_answer_def split: option.splits)
  qed
  ultimately show ?thesis by (simp add: system_ok_def)
qed

lemma system_ok_move: "order_move D s s' \<Longrightarrow> system_ok d0 s \<Longrightarrow> system_ok d0 s'"
  by (induction rule: order_move.induct) (rule move_arrive move_exec move_commit move_rollback; assumption)+

lemma system_ok_opened: "quiet_db rows ownp owno holder db \<Longrightarrow> system_ok (rows db) (opened db)"
  by (simp add: quiet_db_def opened_def system_ok_def serial_def clients_ok_def locks_ok_def ids_ok_def log_ok_def)

lemma system_ok_reached:
  assumes "quiet_db rows ownp owno holder db" and "order_moves D (opened db) s"
  shows "system_ok (rows db) s"
  using assms(2) unfolding order_moves_def
  by (induction rule: rtranclp_induct) (blast intro: system_ok_opened [OF assms(1)] system_ok_move)+

text \<open>
  No deadlock: a request whose row is not locked by another can always go on, and the one that
  locks a row waits for no other row.
\<close>

lemma unlocked_moves:
  assumes "sy_clients s k = Some c" and "\<not> answered (cl_pc c)" and "holder (sy_db s) (cl_pid c) \<in> {None, Some k}"
  shows "\<exists>s'. order_move D s s' \<and> dom (sy_clients s') = dom (sy_clients s)"
proof -
  have dom: "dom (sy_clients (advance k c pc db l s)) = dom (sy_clients s)" for pc db l
    using assms(1) by (simp add: insert_absorb domI)
  have wait: "row_wait stmt args = Some i \<Longrightarrow> i = cl_pid c"
    if "order_stmt (cl_pid c) (cl_qty c) (cl_pc c) = Some (stmt, args)" for stmt args i
    using that by (cases "cl_pc c") (auto simp: sql_stmts split: if_splits)
  consider stmt args where "order_stmt (cl_pid c) (cl_qty c) (cl_pc c) = Some (stmt, args)"
    | ord where "cl_pc c = AtCommit ord" | e where "cl_pc c = AtRollback e"
    using assms(2) by (cases "cl_pc c") auto
  then show ?thesis
  proof cases
    case 1
    obtain r db where "rc_exec D (sy_db s) k stmt args r db"
      using exec_enabled [of stmt args "sy_db s" k] wait [OF 1] assms(3) by blast
    from order_move.exec [OF assms(1) 1 this refl] dom show ?thesis by blast
  next
    case 2
    obtain applied err db where "rc_commit D (sy_db s) k applied err db" using commit_enabled by blast
    from order_move.commit [OF assms(1) 2 this] dom show ?thesis by blast
  next
    case 3
    obtain err db where "rc_rollback D (sy_db s) k err db" using rollback_enabled by blast
    from order_move.rollback [OF assms(1) 3 this] dom show ?thesis by blast
  qed
qed

lemma some_move:
  assumes "locks_ok s" and "sy_clients s k = Some c" and "\<not> answered (cl_pc c)"
  shows "\<exists>s'. order_move D s s' \<and> dom (sy_clients s') = dom (sy_clients s)"
proof (cases "holder (sy_db s) (cl_pid c) \<in> {None, Some k}")
  case True
  with unlocked_moves assms(2,3) show ?thesis by blast
next
  case False
  then obtain j where j: "holder (sy_db s) (cl_pid c) = Some j" by auto
  then obtain c' where "sy_clients s j = Some c'" "cl_pid c' = cl_pid c" "\<not> answered (cl_pc c')"
    using assms(1) by (auto simp: locks_ok_def)
  with j show ?thesis by (intro unlocked_moves [of s j c']) auto
qed

lemma work_zero:
  assumes "clients_ok s"
  shows "work s = 0 \<longleftrightarrow> (\<forall>k c. sy_clients s k = Some c \<longrightarrow> answered (cl_pc c))"
  using assms by (force simp: work_def clients_ok_def dom_def)

end

section \<open>Overlapping orders are serial\<close>

text \<open>
  C3: orders that overlap are serializable. However the statements of any number of order
  transactions interleave, and whichever of their calls fail, the decisions taken so far are those
  of \<open>buy\<close> applied to the whole data one after the other in the order of the record, and the
  products and orders tables hold what that leaves. Every transaction decides at most once, a
  recorded sale is in the orders table and was answered with its order (or with the failure of the
  commit), a recorded refusal with \<open>buy\<close>'s error, and no order is answered that was not recorded.
\<close>

theorem overlapping_orders_serial:
  assumes "read_committed D rows ownp owno holder" and "quiet_db rows ownp owno holder db" and "order_moves D (opened db) s"
  shows "(\<exists>d. replay (rows db) (sy_log s) = Some d \<and> sh_products (rows (sy_db s)) = sh_products d
            \<and> sh_orders (rows (sy_db s)) = sh_orders d)
    \<and> distinct (map decider (sy_log s))
    \<and> (\<forall>x \<in> set (sy_log s). told (sy_clients s) (sh_orders (rows (sy_db s))) x)
    \<and> (\<forall>k c ord. sy_clients s k = Some c \<longrightarrow> cl_pc c = Answered (Inr ord) \<longrightarrow> Sold k ord \<in> set (sy_log s))"
  using read_committed.system_ok_reached [OF assms]
  by (auto simp: read_committed.system_ok_def [OF assms(1)] read_committed.serial_def [OF assms(1)] read_committed.log_ok_def [OF assms(1)])

fun units :: "int \<Rightarrow> decision \<Rightarrow> int" where
  "units i (Sold k ord) = (if o_ProductID ord = i then o_Quantity ord else 0)"
| "units i (Refused k pid q e) = 0"

lemma buy_stock: "buy d pid q t = Inr (ord, d') \<Longrightarrow> stock d' i = stock d i - units i (Sold k ord)"
  by (auto simp: buy_def Let_def stock_def split: option.splits if_splits)

lemma stock_next [simp]: "stock (d\<lparr>sh_nextOrder := n\<rparr>) i = stock d i"
  by (simp add: stock_def)

lemma replay_stock: "replay d l = Some d' \<Longrightarrow> stock d' i = stock d i - sum_list (map (units i) l)"
proof (induction d l rule: replay.induct)
  case (2 d k ord l)
  then obtain d1 where b: "buy (d\<lparr>sh_nextOrder := o_ID ord\<rparr>) (o_ProductID ord) (o_Quantity ord) (o_CreatedAt ord) = Inr (ord, d1)"
    and r: "replay d1 l = Some d'"
    by (auto split: sum.splits if_splits)
  from "2.IH" [OF b refl refl r] buy_stock [OF b, of i k] show ?case by simp
qed (auto split: if_splits)

text \<open>
  C15: overlapping orders never oversell. In every state that any interleaving reaches, the stock
  of every product is the stock before the first request less the units of the recorded sales of
  it, and it is not negative.
\<close>

theorem overlapping_orders_stock:
  assumes "read_committed D rows ownp owno holder" and "quiet_db rows ownp owno holder db" and "order_moves D (opened db) s"
  shows "stock (rows (sy_db s)) i = stock (rows db) i - sum_list (map (units i) (sy_log s)) \<and> 0 \<le> stock (rows (sy_db s)) i"
proof -
  have "read_committed.serial rows (rows db) s"
    using read_committed.system_ok_reached [OF assms] by (simp add: read_committed.system_ok_def [OF assms(1)])
  then obtain d where "replay (rows db) (sy_log s) = Some d" "sh_products d = sh_products (rows (sy_db s))" "shop_ok (rows (sy_db s))"
    by (auto simp: read_committed.serial_def [OF assms(1)])
  then show ?thesis using replay_stock [of "rows db" "sy_log s" d i] stock_nonneg [of "rows (sy_db s)" i] by (simp add: stock_def)
qed

text \<open>
  C16: overlapping orders never deadlock. In every state that any interleaving reaches, as long as
  one request is unanswered some request in progress can make its next call, and every call uses
  up one of the at most four calls of its request: whatever is scheduled, without new arrivals
  every request is answered after at most \<open>work s\<close> moves.
\<close>

theorem overlapping_orders_progress:
  assumes "read_committed D rows ownp owno holder" and "quiet_db rows ownp owno holder db" and "order_moves D (opened db) s"
  shows "(\<forall>s'. order_move D s s' \<longrightarrow> dom (sy_clients s') = dom (sy_clients s) \<longrightarrow> work s' < work s)
    \<and> (0 < work s \<longrightarrow> (\<exists>s'. order_move D s s' \<and> dom (sy_clients s') = dom (sy_clients s)))
    \<and> (work s = 0 \<longleftrightarrow> (\<forall>k c. sy_clients s k = Some c \<longrightarrow> (\<exists>a. cl_pc c = Answered a)))"
proof -
  have ok: "read_committed.clients_ok rows ownp owno holder s" "read_committed.locks_ok holder s"
    using read_committed.system_ok_reached [OF assms] by (simp_all add: read_committed.system_ok_def [OF assms(1)])
  have zero: "work s = 0 \<longleftrightarrow> (\<forall>k c. sy_clients s k = Some c \<longrightarrow> answered (cl_pc c))"
    by (rule read_committed.work_zero [OF assms(1) ok(1)])
  moreover have "answered pc \<longleftrightarrow> (\<exists>a. pc = Answered a)" for pc by (cases pc) simp_all
  moreover have "finite (dom (sy_clients s))" using ok(1) by (simp add: read_committed.clients_ok_def [OF assms(1)])
  moreover have "\<exists>s'. order_move D s s' \<and> dom (sy_clients s') = dom (sy_clients s)" if "0 < work s"
    using that zero read_committed.some_move [OF assms(1) ok(2)] by (metis less_irrefl)
  ultimately show ?thesis using order_move_work by metis
qed

section \<open>A reference database\<close>

record table_db =
  tb_rows :: shop
  tb_products :: "nat \<Rightarrow> int \<Rightarrow> Product option"
  tb_orders :: "nat \<Rightarrow> int \<Rightarrow> Order option"
  tb_holder :: "int \<Rightarrow> nat option"

definition tb_sees :: "table_db \<Rightarrow> nat \<Rightarrow> shop" where
  "tb_sees s k = overlay (tb_rows s) (tb_products s k) (tb_orders s k)"

definition tb_free :: "table_db \<Rightarrow> nat \<Rightarrow> string \<Rightarrow> dbval list \<Rightarrow> bool" where
  "tb_free s k stmt args =
     (case row_wait stmt args of Some i \<Rightarrow> tb_holder s i = None \<or> tb_holder s i = Some k | None \<Rightarrow> True)"

definition tb_wrote :: "table_db \<Rightarrow> nat \<Rightarrow> string \<Rightarrow> dbval list \<Rightarrow> shop \<Rightarrow> table_db" where
  "tb_wrote s k stmt args d =
     \<lparr>tb_rows = (tb_rows s)\<lparr>sh_nextOrder := sh_nextOrder d\<rparr>,
      tb_products = (tb_products s)(k := written (tb_products s k) (sh_products (tb_sees s k)) (sh_products d)),
      tb_orders = (tb_orders s)(k := written (tb_orders s k) (sh_orders (tb_sees s k)) (sh_orders d)),
      tb_holder = (case row_lock stmt args of
          Some i \<Rightarrow> if sh_products (tb_sees s k) i = None then tb_holder s else (tb_holder s)(i \<mapsto> k)
        | None \<Rightarrow> tb_holder s)\<rparr>"

definition tb_run :: "table_db \<Rightarrow> nat \<Rightarrow> string \<Rightarrow> dbval list \<Rightarrow> int \<Rightarrow> (go_error + dbval list list \<times> int) \<times> table_db" where
  "tb_run s k stmt args now =
     (case orders_sql stmt args now (tb_sees s k) of
        Inl e \<Rightarrow> (Inl e, s)
      | Inr (rws, n, d) \<Rightarrow> (Inr (rws, n), tb_wrote s k stmt args d))"

definition tb_end :: "table_db \<Rightarrow> nat \<Rightarrow> bool \<Rightarrow> table_db" where
  "tb_end s k applied =
     \<lparr>tb_rows = (if applied then tb_sees s k else tb_rows s),
      tb_products = (tb_products s)(k := Map.empty), tb_orders = (tb_orders s)(k := Map.empty),
      tb_holder = (\<lambda>i. if tb_holder s i = Some k then None else tb_holder s i)\<rparr>"

definition tables :: "table_db rc_db" where
  "tables = \<lparr>rc_exec = (\<lambda>s k stmt args r s'. tb_free s k stmt args \<and> (\<exists>now. tb_run s k stmt args now = (r, s'))),
             rc_commit = (\<lambda>s k applied err s'. (err = None \<longrightarrow> applied) \<and> s' = tb_end s k applied),
             rc_rollback = (\<lambda>s k err s'. s' = tb_end s k False)\<rparr>"

lemma orders_sql_next: "orders_sql stmt args now d = Inr (rws, n, d') \<Longrightarrow> sh_nextOrder d \<le> sh_nextOrder d'"
  unfolding orders_sql_def
  by (auto simp: Let_def split: if_splits option.splits
      elim!: run_insert_product.elims run_select_product.elims run_decrement.elims run_insert_order.elims run_select_order.elims)

lemma lock_waits: "row_lock stmt args = Some i \<Longrightarrow> row_wait stmt args = Some i"
  by (cases "(stmt, args)" rule: row_lock.cases) (auto split: if_splits)

lemma tables_exec:
  assumes "rc_exec tables s k stmt args r s'"
  shows "tb_free s k stmt args"
    and "(\<exists>e. r = Inl e) \<and> s' = s \<or> (\<exists>now rws n d. r = Inr (rws, n) \<and> orders_sql stmt args now (tb_sees s k) = Inr (rws, n, d)
           \<and> s' = tb_wrote s k stmt args d)"
proof -
  obtain now where now: "tb_run s k stmt args now = (r, s')" and "tb_free s k stmt args" using assms by (auto simp: tables_def)
  then show "tb_free s k stmt args" by simp
  show "(\<exists>e. r = Inl e) \<and> s' = s \<or> (\<exists>now rws n d. r = Inr (rws, n) \<and> orders_sql stmt args now (tb_sees s k) = Inr (rws, n, d)
           \<and> s' = tb_wrote s k stmt args d)"
  proof (cases "orders_sql stmt args now (tb_sees s k)")
    case (Inl e)
    with now show ?thesis by (auto simp: tb_run_def)
  next
    case (Inr x)
    obtain rws n d where x: "x = (rws, n, d)" by (metis prod.exhaust)
    from now Inr x have "r = Inr (rws, n)" "s' = tb_wrote s k stmt args d" by (simp_all add: tb_run_def)
    with Inr x show ?thesis by blast
  qed
qed

interpretation tbs: read_committed tables tb_rows tb_products tb_orders tb_holder
proof (unfold_locales, goal_cases)
  case (1 s k stmt args rws n s')
  from tables_exec(2) [OF this] obtain now d where d: "orders_sql stmt args now (tb_sees s k) = Inr (rws, n, d)"
    "s' = tb_wrote s k stmt args d" by blast
  then show ?case by (intro exI [of _ now] exI [of _ d]) (simp add: tb_wrote_def tb_sees_def)
next
  case (2 s k stmt args x s' i)
  from tables_exec [OF 2(1)] 2(2,3) lock_waits [OF 2(2)] show ?case by (auto simp: tb_wrote_def tb_sees_def tb_free_def)
next
  case (3 s k stmt args r s')
  from tables_exec(2) [OF this] show ?case by (auto simp: tb_wrote_def tb_sees_def dest!: orders_sql_next)
next
  case (4 s k stmt args r s' j)
  from tables_exec(2) [OF 4(1)] 4(2) show ?case by (auto simp: tb_wrote_def)
next
  case (5 s k stmt args r s' i j)
  from tables_exec [OF 5(1)] 5(2) lock_waits [of stmt args i] show ?case
    by (auto simp: tb_wrote_def tb_free_def split: option.splits)
next
  case (6 s k stmt args r s' i j)
  from tables_exec(2) [OF 6(1)] 6(2) show ?case by (auto simp: tb_wrote_def split: option.splits if_splits)
next
  case (7 stmt args s k)
  then have "tb_free s k stmt args" by (auto simp: tb_free_def split: option.splits)
  then show ?case by (auto simp: tables_def intro: prod.exhaust [of "tb_run s k stmt args 0"])
next
  case (8 s k applied err s')
  then show ?case by (simp add: tables_def tb_end_def tb_sees_def)
next
  case (9 s k applied err s')
  then show ?case by (simp add: tables_def tb_end_def)
next
  case (10 s k)
  show ?case by (auto simp: tables_def)
next
  case (11 s k err s')
  then show ?case by (simp add: tables_def tb_end_def)
next
  case (12 s k err s')
  then show ?case by (simp add: tables_def tb_end_def)
next
  case (13 s k)
  show ?case by (simp add: tables_def)
qed

text \<open>The next call of a request on the reference database, when its lock is free.\<close>

definition tb_next :: "nat \<Rightarrow> table_db order_sys \<Rightarrow> table_db order_sys" where
  "tb_next k s =
     (case sy_clients s k of
        None \<Rightarrow> s
      | Some c \<Rightarrow>
          (case order_stmt (cl_pid c) (cl_qty c) (cl_pc c) of
             Some (stmt, args) \<Rightarrow>
               if tb_free (sy_db s) k stmt args
               then case tb_run (sy_db s) k stmt args 0 of (r, db) \<Rightarrow>
                 let pc = order_reply (cl_qty c) (cl_pc c) (stmt_reply stmt r) in advance k c pc db (refusal k c r pc) s
               else s
           | None \<Rightarrow>
               (case cl_pc c of
                  AtCommit ord \<Rightarrow> advance k c (Answered (commit_answer ord None)) (tb_end (sy_db s) k True) [Sold k ord] s
                | AtRollback e \<Rightarrow> advance k c (Answered (rollback_answer e None)) (tb_end (sy_db s) k False) [] s
                | _ \<Rightarrow> s)))"

lemma tb_next_moves: "order_moves tables s (tb_next k s)"
proof (cases "tb_next k s = s")
  case True
  then show ?thesis by (simp add: order_moves_def)
next
  case False
  then obtain c where c: "sy_clients s k = Some c" by (auto simp: tb_next_def split: option.splits)
  have "order_move tables s (tb_next k s)"
  proof (cases "order_stmt (cl_pid c) (cl_qty c) (cl_pc c)")
    case None
    then consider ord where "cl_pc c = AtCommit ord" | e where "cl_pc c = AtRollback e"
      using False c by (cases "cl_pc c") (auto simp: tb_next_def)
    then show ?thesis
    proof cases
      case 1
      with order_move.commit [OF c 1, of tables True None "tb_end (sy_db s) k True"] c show ?thesis by (simp add: tb_next_def tables_def)
    next
      case 2
      with order_move.rollback [OF c 2, of tables None "tb_end (sy_db s) k False"] c show ?thesis by (simp add: tb_next_def tables_def)
    qed
  next
    case (Some x)
    obtain stmt args where x: "x = (stmt, args)" by (rule prod.exhaust)
    obtain r db where r: "tb_run (sy_db s) k stmt args 0 = (r, db)" by (rule prod.exhaust)
    have "tb_free (sy_db s) k stmt args" using False c Some x by (auto simp: tb_next_def split: if_splits)
    with order_move.exec [OF c Some [unfolded x], of tables r db, OF _ refl] c Some x r show ?thesis
      by (auto simp: tb_next_def tables_def Let_def)
  qed
  then show ?thesis by (simp add: order_moves_def)
qed

lemma tb_run_moves: "order_moves tables s (fold tb_next ks s)"
proof (induction ks arbitrary: s)
  case (Cons k ks)
  from tb_next_moves [of s k] Cons.IH [of "tb_next k s"] show ?case
    by (simp add: order_moves_def)
qed (simp add: order_moves_def)

text \<open>
  Ten pens, an order of three and one of eight. The second tries to lock the row twice while the
  first one has it.
\<close>

definition pen_tables :: table_db where
  "pen_tables = \<lparr>tb_rows = pen_shop pen, tb_products = (\<lambda>_. Map.empty), tb_orders = (\<lambda>_. Map.empty), tb_holder = Map.empty\<rparr>"

definition two_orders :: "table_db order_sys" where
  "two_orders = (opened pen_tables)\<lparr>sy_clients :=
     [1 \<mapsto> \<lparr>cl_pid = 1, cl_qty = 3, cl_pc = AtLock\<rparr>, 2 \<mapsto> \<lparr>cl_pid = 1, cl_qty = 8, cl_pc = AtLock\<rparr>]\<rparr>"

definition two_orders_run :: "table_db order_sys" where
  "two_orders_run = fold tb_next [1, 2, 1, 1, 2, 1, 2, 2] two_orders"

lemma pen_tables_quiet: "quiet_db tb_rows tb_products tb_orders tb_holder pen_tables"
  by (simp add: quiet_db_def pen_tables_def shop_ok_def pen_shop_def pen_def)

lemma two_orders_start: "order_moves tables (opened pen_tables) two_orders"
proof -
  let ?s = "(opened pen_tables)\<lparr>sy_clients := (sy_clients (opened pen_tables))(1 \<mapsto> \<lparr>cl_pid = 1, cl_qty = 3, cl_pc = AtLock\<rparr>)\<rparr>"
  have "order_move tables (opened pen_tables) ?s" by (rule order_move.arrive) (simp_all add: opened_def)
  moreover have "order_move tables ?s (?s\<lparr>sy_clients := (sy_clients ?s)(2 \<mapsto> \<lparr>cl_pid = 1, cl_qty = 8, cl_pc = AtLock\<rparr>)\<rparr>)"
    by (rule order_move.arrive) (simp_all add: opened_def)
  moreover have "?s\<lparr>sy_clients := (sy_clients ?s)(2 \<mapsto> \<lparr>cl_pid = 1, cl_qty = 8, cl_pc = AtLock\<rparr>)\<rparr> = two_orders"
    by (simp add: two_orders_def opened_def)
  ultimately show ?thesis by (simp add: order_moves_def)
qed

lemma two_orders_reached: "order_moves tables (opened pen_tables) two_orders_run"
  using two_orders_start tb_run_moves [of two_orders "[1, 2, 1, 1, 2, 1, 2, 2]"]
  unfolding two_orders_run_def order_moves_def by (rule rtranclp_trans)

lemma two_orders_log:
  "sy_log two_orders_run =
     [Sold 1 \<lparr>o_CreatedAt = 0, o_ID = 1, o_ProductID = 1, o_Quantity = 3, o_Total = 750\<rparr>, Refused 2 1 8 (stock_err 7 8)]"
  by code_simp

theorem overlapping_orders_serial_witness:
  "\<exists>d. replay (pen_shop pen) (sy_log two_orders_run) = Some d \<and> sh_products (tb_rows (sy_db two_orders_run)) = sh_products d
     \<and> sh_orders (tb_rows (sy_db two_orders_run)) = sh_orders d \<and> length (sy_log two_orders_run) = 2"
  using overlapping_orders_serial [OF tbs.read_committed_axioms pen_tables_quiet two_orders_reached]
  by (auto simp: pen_tables_def two_orders_log)

theorem overlapping_orders_stock_witness: "stock (tb_rows (sy_db two_orders_run)) 1 = 7"
  using overlapping_orders_stock [OF tbs.read_committed_axioms pen_tables_quiet two_orders_reached, of 1]
  by (simp add: two_orders_log) (simp add: pen_tables_def stock_def pen_shop_def pen_def)

text \<open>In the middle of that run the second order waits for the first.\<close>

definition two_orders_half :: "table_db order_sys" where
  "two_orders_half = fold tb_next [1, 2, 1] two_orders"

lemma two_orders_half_waits: "sy_clients two_orders_half 2 = Some \<lparr>cl_pid = 1, cl_qty = 8, cl_pc = AtLock\<rparr>"
  by code_simp

theorem overlapping_orders_progress_witness:
  "\<exists>s'. order_move tables two_orders_half s' \<and> work s' < work two_orders_half"
proof -
  have reached: "order_moves tables (opened pen_tables) two_orders_half"
    using two_orders_start tb_run_moves [of two_orders "[1, 2, 1]"]
    unfolding two_orders_half_def order_moves_def by (rule rtranclp_trans)
  note progress = overlapping_orders_progress [OF tbs.read_committed_axioms pen_tables_quiet reached]
  have "work two_orders_half \<noteq> 0" using progress two_orders_half_waits by force
  with progress show ?thesis by blast
qed

end
