(* ===== verification/OrderFaults.thy ===== *)
theory OrderFaults
  imports Orders
begin

text \<open>
  Placing an order on a driver that may fail at any call: the service's transaction on every driver
  that keeps the contract \<open>sql_driver\<close> with the meaning the migration gives to the statements.
\<close>

lemma finish_tx_returns: "\<exists>res w'. finish_tx P h ctx fe w = (Returned res, w')"
  by (cases fe; cases "tx_Rollback P h ctx w"; cases "tx_Commit P h ctx w")
    (auto simp: finish_tx_def act_bind_def split: option.splits)

lemma begin_tx_returns:
  assumes "ready_wait prov ctx w = (Returned e0, w0)"
  shows "\<exists>b w'. begin_tx P prov ctx w = (Returned b, w')"
proof (cases "ctx_tx ctx")
  case None
  with assms show ?thesis
    by (cases e0; cases "prov_Begin prov ctx w0") (auto simp: begin_tx_def TxFromContext_def act_bind_def split: sum.splits)
next
  case (Some h)
  then show ?thesis
    by (cases "adapter_Begin P (Some h) ctx w") (auto simp: begin_tx_def TxFromContext_def act_bind_def split: sum.splits)
qed

lemma WithTx_capture_returns:
  assumes "begin_tx P prov ctx w = (Returned (Inr h), wb)" and "fn (ctx\<lparr>ctx_tx := Some h\<rparr>) wb = (Returned (fe, a), u)"
  shows "\<exists>res w'. WithTx_capture P prov ctx fn w = (Returned (res, Some a), w')"
proof -
  obtain res v where "finish_tx P h ctx fe u = (Returned res, v)" using finish_tx_returns by blast
  with assms show ?thesis by (simp add: WithTx_capture_def act_bind_def with_deferred_rollback_def)
qed

context sql_driver
begin

lemma query_scan_any:
  assumes "ctx_tx ctx = Some h" and "top_tx (txs (snd w)) = Some h"
    and "query_scan P prov ctx stmt args w = (r, w')"
  shows "\<exists>vs e x. r = Returned (vs, e) \<and> txs (snd w') = put_data x (txs (snd w))"
proof -
  obtain k w1 where k: "pgx_QueryRow P (Some h) ctx stmt args w = (k, w1)" by (rule prod.exhaust)
  obtain v w2 where v: "Row_Scan P (PgxRow k) w1 = (v, w2)" by (rule prod.exhaust)
  have "txs (snd w2) = txs (snd w1)" by (rule Row_Scan_top [OF v])
  moreover have "r = Returned v" "w' = w2"
    using assms k v
    by (simp_all add: query_scan_def act_bind_def q_QueryRow_def QuerierFromContext_def TxFromContext_def adapter_QueryRow_def)
  ultimately show ?thesis using queryrow_top [OF assms(2) k] by (cases v) auto
qed

lemma query_scan_ok:
  assumes "ctx_tx ctx = Some h" and "top_tx (txs (snd w)) = Some h"
    and "query_scan P prov ctx stmt args w = (Returned (vs, None), w')"
  shows "\<exists>t rs n d. sql stmt args t (top_data (txs (snd w))) = Inr (vs # rs, n, d) \<and> txs (snd w') = put_data d (txs (snd w))"
proof -
  obtain k w1 where k: "pgx_QueryRow P (Some h) ctx stmt args w = (k, w1)" by (rule prod.exhaust)
  obtain us e w2 where v: "pgx_Row_Scan P k w1 = ((us, e), w2)" by (metis prod.exhaust)
  have "us = vs" "e = None" "w' = w2"
    using assms k v
    by (auto simp: query_scan_def act_bind_def q_QueryRow_def QuerierFromContext_def TxFromContext_def adapter_QueryRow_def
        Row_Scan_def pgxRowAdapter_Scan_def split: if_splits)
  with scan_sql [OF assms(2) k, of vs w2] v scan_top [OF v] show ?thesis by auto
qed

end

locale shop_driver = sql_driver P txs orders_sql
  for P :: "'s pgx" and txs :: "'s \<Rightarrow> shop txstate"
begin

lemma GetForUpdate_any:
  assumes "ctx_tx ctx = Some h" and "top_tx (txs (snd w)) = Some h" and "GetForUpdate P prov ctx i w = (r, w')"
  shows "\<exists>c x. r = Returned c \<and> txs (snd w') = put_data x (txs (snd w))
    \<and> (\<forall>p. c = Inr p \<longrightarrow> sh_products (top_data (txs (snd w))) i = Some p \<and> x = top_data (txs (snd w)))"
proof -
  let ?stmt = "sql_select_product @ '' FOR UPDATE''"
  obtain r1 w1 where q: "query_scan P prov ctx ?stmt [DInt i] w = (r1, w1)" by (rule prod.exhaust)
  obtain vs e x where x: "r1 = Returned (vs, e)" "txs (snd w1) = put_data x (txs (snd w))"
    using query_scan_any [OF assms(1,2) q] by blast
  show ?thesis
  proof (cases e)
    case None
    obtain t rs n d where "run_select_product [DInt i] (top_data (txs (snd w))) = Inr (vs # rs, n, d)"
      "txs (snd w1) = put_data d (txs (snd w))"
      using query_scan_ok [OF assms(1,2) q [unfolded x(1) None]] by auto
    then show ?thesis
      using assms(3) q x None
      by (cases "sh_products (top_data (txs (snd w))) i") (auto simp: GetForUpdate_def scanProduct_def act_bind_def)
  next
    case (Some err)
    then show ?thesis
      using assms(3) q x by (auto simp: GetForUpdate_def scanProduct_def act_bind_def split: if_splits)
  qed
qed

lemma DecrementStock_any:
  assumes "ctx_tx ctx = Some h" and "top_tx (txs (snd w)) = Some h" and "DecrementStock P prov ctx i q w = (r, w')"
  shows "\<exists>c x. r = Returned c \<and> txs (snd w') = put_data x (txs (snd w))
    \<and> (\<forall>p. c = None \<longrightarrow> sh_products (top_data (txs (snd w))) i = Some p \<longrightarrow>
         x = (top_data (txs (snd w)))\<lparr>sh_products := (sh_products (top_data (txs (snd w))))(i \<mapsto> p\<lparr>p_Stock := p_Stock p - q\<rparr>)\<rparr>)"
proof -
  obtain n e w1 where ex: "pgx_Exec P (Some h) ctx sql_decrement [DInt q, DInt i] w = ((n, e), w1)" by (metis prod.exhaust)
  obtain y where y: "txs (snd w1) = put_data y (txs (snd w))" using exec_top [OF assms(2) ex] by blast
  have r: "r = Returned (map_option (wrapf ''decrement stock'') e)" "w' = w1"
    using assms(1,3) ex
    by (cases e; simp add: DecrementStock_def act_bind_def q_Exec_def QuerierFromContext_def TxFromContext_def adapter_Exec_def)+
  show ?thesis
  proof (cases e)
    case None
    obtain t rws d where "run_decrement [DInt q, DInt i] (top_data (txs (snd w))) = Inr (rws, n, d)"
      "txs (snd w1) = put_data d (txs (snd w))"
      using exec_sql [OF assms(2) ex [unfolded None]] by auto
    then show ?thesis
      using r None by (intro exI [of _ None] exI [of _ d]) (auto split: if_splits)
  next
    case (Some err)
    with r y show ?thesis by auto
  qed
qed

lemma order_Create_any:
  assumes "ctx_tx ctx = Some h" and "top_tx (txs (snd w)) = Some h" and "order_Create P prov ctx i q tot w = (r, w')"
  shows "\<exists>c x. r = Returned c \<and> txs (snd w') = put_data x (txs (snd w))
    \<and> (\<forall>o'. c = Inr o' \<longrightarrow> (\<exists>t. run_insert_order [DInt i, DInt q, DInt tot] t (top_data (txs (snd w)))
         = Inr ([order_row o'], 1, x)))"
proof -
  obtain r1 w1 where q: "query_scan P prov ctx sql_insert_order [DInt i, DInt q, DInt tot] w = (r1, w1)" by (rule prod.exhaust)
  obtain vs e x where x: "r1 = Returned (vs, e)" "txs (snd w1) = put_data x (txs (snd w))"
    using query_scan_any [OF assms(1,2) q] by blast
  show ?thesis
  proof (cases e)
    case None
    obtain t rs n d where d: "run_insert_order [DInt i, DInt q, DInt tot] t (top_data (txs (snd w))) = Inr (vs # rs, n, d)"
      "txs (snd w1) = put_data d (txs (snd w))"
      using query_scan_ok [OF assms(1,2) q [unfolded x(1) None]] by auto
    obtain o' where o': "vs = order_row o'" "rs = []" "n = 1"
      using d(1) by (auto simp: Let_def split: if_splits)
    have "r = Returned (Inr o')" "w' = w1" using assms(3) q x(1) None o'(1) by (simp_all add: order_Create_def act_bind_def)
    with d(2) d(1) [unfolded o'] show ?thesis
      by (intro exI [of _ "Inr o'"] exI [of _ d]) (auto simp del: run_insert_order.simps)
  next
    case (Some err)
    then show ?thesis using assms(3) q x by (auto simp: order_Create_def act_bind_def)
  qed
qed

text \<open>The transaction's function: it returns, stays within its transaction, and succeeds only as \<open>buy\<close> does.\<close>

lemma place_order_any:
  assumes "ctx_tx ctx = Some h" and "top_tx (txs (snd w)) = Some h" and "place_order P prov pid q ctx w = (r, w')"
  shows "\<exists>e ord x. r = Returned (e, ord) \<and> txs (snd w') = put_data x (txs (snd w))
    \<and> (e = None \<longrightarrow> (\<exists>t. buy (top_data (txs (snd w))) pid q t = Inr (ord, x)))"
proof -
  let ?d = "top_data (txs (snd w))"
  obtain r1 w1 where g: "GetForUpdate P prov ctx pid w = (r1, w1)" by (rule prod.exhaust)
  obtain c x where c: "r1 = Returned c" "txs (snd w1) = put_data x (txs (snd w))"
    "\<And>p. c = Inr p \<Longrightarrow> sh_products ?d pid = Some p \<and> x = ?d"
    using GetForUpdate_any [OF assms(1,2) g] by blast
  show ?thesis
  proof (cases "\<exists>p. c = Inr p \<and> q \<le> p_Stock p")
    case False
    then show ?thesis using assms(3) g c(1,2) by (cases c) (auto simp: place_order_def act_bind_def)
  next
    case True
    then obtain p where p: "c = Inr p" "q \<le> p_Stock p" by blast
    have s1: "txs (snd w1) = txs (snd w)" "sh_products ?d pid = Some p" using c(2) c(3) [OF p(1)] by simp_all
    obtain r2 w2 where dec: "DecrementStock P prov ctx pid q w1 = (r2, w2)" by (rule prod.exhaust)
    obtain de y where de: "r2 = Returned de" "txs (snd w2) = put_data y (txs (snd w))"
      "de = None \<Longrightarrow> y = ?d\<lparr>sh_products := (sh_products ?d)(pid \<mapsto> p\<lparr>p_Stock := p_Stock p - q\<rparr>)\<rparr>"
      using DecrementStock_any [OF assms(1) _ dec] assms(2) s1 by auto
    obtain r3 w3 where cr: "order_Create P prov ctx pid q (i64 (p_Price p * q)) w2 = (r3, w3)" by (rule prod.exhaust)
    obtain o1 z where o1: "r3 = Returned o1" "txs (snd w3) = put_data z (txs (snd w))"
      "\<And>o'. o1 = Inr o' \<Longrightarrow> \<exists>t. run_insert_order [DInt pid, DInt q, DInt (i64 (p_Price p * q))] t y = Inr ([order_row o'], 1, z)"
      using order_Create_any [OF assms(1) _ cr] assms(2) de(2) by auto
    show ?thesis
    proof (cases "\<exists>o'. de = None \<and> o1 = Inr o'")
      case False
      then show ?thesis
        using assms(3) g c(1) p dec de(1,2) cr o1(1,2)
        by (cases de; cases o1) (auto simp: place_order_def act_bind_def)
    next
      case True
      then obtain o' where o': "de = None" "o1 = Inr o'" by blast
      obtain t where t: "run_insert_order [DInt pid, DInt q, DInt (i64 (p_Price p * q))] t y = Inr ([order_row o'], 1, z)"
        using o1(3) [OF o'(2)] by blast
      have "buy ?d pid q t = Inr (o', z)"
        using t de(3) [OF o'(1)] s1(2) p(2)
        by (auto simp: buy_def Let_def dest: arg_cong [where f = order_of] split: if_splits)
      then show ?thesis
        using assms(3) g c(1) p dec de(1) cr o1(1,2) o' by (auto simp: place_order_def act_bind_def)
    qed
  qed
qed

lemma place_order_confined: "tx_confined txs (\<lambda>ctx. act_fst (place_order P prov pid q ctx))"
  unfolding tx_confined_def
proof (intro allI impI)
  fix ctx w r w'
  assume h: "ctx_tx ctx \<noteq> None" "ctx_tx ctx = top_tx (txs (snd w))"
    and run: "act_fst (place_order P prov pid q ctx) w = (r, w')"
  obtain r1 w1 where p: "place_order P prov pid q ctx w = (r1, w1)" by (rule prod.exhaust)
  from h obtain k where "ctx_tx ctx = Some k" "top_tx (txs (snd w)) = Some k" by auto
  from place_order_any [OF this p] run p show "\<exists>x. txs (snd w') = put_data x (txs (snd w))"
    by (auto simp: act_fst_def act_bind_def)
qed

text \<open>The transaction as a whole returns, and the captured order is the one of its successful run.\<close>

lemma WithTx_place_order_any:
  assumes prov: "pool_provider P txs prov" and ctx: "ctx_tx ctx = top_tx (txs (snd w))"
    and wait: "ready_wait prov ctx w = (Returned e0, w0)"
  obtains err captured w' where "WithTx_capture P prov ctx (place_order P prov pid q) w = (Returned (err, captured), w')"
    and "case err of
        None \<Rightarrow> \<exists>ord t d. captured = Some ord \<and> buy (top_data (txs (snd w))) pid q t = Inr (ord, d)
          \<and> txs (snd w') = put_data d (txs (snd w))
      | Some e \<Rightarrow> (\<exists>h. rolled_back P txs ctx (txs (snd w)) h w')
          \<or> (\<exists>ord t d ce. e = wrapf ''failed to commit transaction'' ce
                \<and> buy (top_data (txs (snd w))) pid q t = Inr (ord, d) \<and> txs (snd w') = put_data d (txs (snd w)))"
proof -
  let ?fn = "\<lambda>c. act_fst (place_order P prov pid q c)"
  obtain b wb where b: "begin_tx P prov ctx w = (Returned b, wb)" using begin_tx_returns [OF wait] by blast
  note bc = begin_tx_cases [OF prov ctx b]
  obtain err captured w' where run: "WithTx_capture P prov ctx (place_order P prov pid q) w = (Returned (err, captured), w')"
    and cap: "\<And>h. b = Inr h \<Longrightarrow> \<exists>r u ord. place_order P prov pid q (ctx\<lparr>ctx_tx := Some h\<rparr>) wb = (Returned (r, ord), u)
        \<and> captured = Some ord"
  proof (cases b)
    case (Inl e)
    with b show thesis by (intro that [of "Some e" None wb]) (simp_all add: WithTx_capture_def act_bind_def)
  next
    case (Inr h)
    obtain r u where p: "place_order P prov pid q (ctx\<lparr>ctx_tx := Some h\<rparr>) wb = (r, u)" by (rule prod.exhaust)
    obtain e ord where "r = Returned (e, ord)" using place_order_any [OF _ _ p, of h] bc Inr by auto
    with WithTx_capture_returns [where fn = "place_order P prov pid q", OF b [unfolded Inr] p [unfolded this]] p Inr that show thesis by blast
  qed
  have erased: "WithTx P prov ctx ?fn w = (Returned err, w')"
    using run by (subst WithTx_capture_erase [symmetric]) (simp add: act_fst_def act_bind_def)
  have bought: "\<exists>ord t. captured = Some ord \<and> buy (top_data (txs (snd w))) pid q t = Inr (ord, x)"
    if comp: "completed P prov txs ctx ?fn w x" for x
  proof -
    obtain h wb' w1 where h: "begin_tx P prov ctx w = (Returned (Inr h), wb')"
      "?fn (ctx\<lparr>ctx_tx := Some h\<rparr>) wb' = (Returned None, w1)" "txs (snd w1) = put_data x (push_tx h (txs (snd w)))"
      using comp unfolding completed_def by blast
    with b have h: "b = Inr h" "?fn (ctx\<lparr>ctx_tx := Some h\<rparr>) wb = (Returned None, w1)"
      "txs (snd w1) = put_data x (push_tx h (txs (snd w)))"
      by simp_all
    have wb: "txs (snd wb) = push_tx h (txs (snd w))" using bc h(1) by simp
    obtain r u ord where p: "place_order P prov pid q (ctx\<lparr>ctx_tx := Some h\<rparr>) wb = (Returned (r, ord), u)" "captured = Some ord"
      using cap [OF h(1)] by blast
    with h(2) have r: "r = None" "u = w1" by (simp_all add: act_fst_def act_bind_def)
    obtain y t where y: "txs (snd u) = put_data y (push_tx h (txs (snd w)))" "buy (top_data (txs (snd w))) pid q t = Inr (ord, y)"
      using place_order_any [OF _ _ p(1), of h] r wb by auto
    have "y = x" using y(1) h(3) r(2) by (metis top_put(2))
    with y(2) p(2) show ?thesis by blast
  qed
  note fin = WithTx_end [OF place_order_confined prov ctx erased]
  show thesis
  proof (cases err)
    case None
    with fin obtain x where x: "completed P prov txs ctx ?fn w x" "txs (snd w') = put_data x (txs (snd w))" by auto
    with bought [OF x(1)] None show thesis by (intro that [OF run]) auto
  next
    case (Some e)
    with fin consider h where "rolled_back P txs ctx (txs (snd w)) h w'"
      | x ce where "completed P prov txs ctx ?fn w x" "e = wrapf ''failed to commit transaction'' ce" "txs (snd w') = put_data x (txs (snd w))"
      by auto
    then show thesis
    proof cases
      case (1 h)
      with Some show thesis by (intro that [OF run]) auto
    next
      case (2 x ce)
      with bought [OF 2(1)] Some show thesis by (intro that [OF run]) (simp, blast)
    qed
  qed
qed

end

interpretation shop_ref: shop_driver "ref_pgx orders_sql" pg_txs
  by unfold_locales

text \<open>
  C10: an order is all or nothing on every driver that keeps the transaction contract, however
  many of its calls fail, at the top level and inside a transaction. \<open>CreateOrder\<close> returns; if
  it returns an order, the data is exactly what \<open>buy\<close> makes of it; if it returns an error nothing
  of the order is there, unless the error says that the commit failed (then the order is there as
  a whole or not at all) or the driver could not even roll back and keeps the transaction open.
\<close>

theorem CreateOrder_atomic:
  assumes "shop_driver P txs" and "pool_provider P txs prov" and "ctx_tx ctx = top_tx (txs (snd w))"
    and "ready_wait prov ctx w = (Returned e0, w0)"
    and "\<And>k v. \<exists>e v'. cache_Delete C ctx k v = (Returned e, v') \<and> txs (snd v') = txs (snd v)"
  shows "\<exists>r logs w'. CreateOrder P prov C ctx pid q w = (Returned (r, logs), w') \<and>
    (case r of
       Inr o' \<Rightarrow> \<exists>t d. buy (top_data (txs (snd w))) pid q t = Inr (o', d) \<and> txs (snd w') = put_data d (txs (snd w))
     | Inl e \<Rightarrow> (\<exists>h. rolled_back P txs ctx (txs (snd w)) h w')
         \<or> (\<exists>o' t d ce. e = wrapf ''failed to commit transaction'' ce
               \<and> buy (top_data (txs (snd w))) pid q t = Inr (o', d) \<and> txs (snd w') = put_data d (txs (snd w))))"
proof -
  obtain err captured w1 where run: "WithTx_capture P prov ctx (place_order P prov pid q) w = (Returned (err, captured), w1)"
    and res: "case err of
        None \<Rightarrow> \<exists>ord t d. captured = Some ord \<and> buy (top_data (txs (snd w))) pid q t = Inr (ord, d)
          \<and> txs (snd w1) = put_data d (txs (snd w))
      | Some e \<Rightarrow> (\<exists>h. rolled_back P txs ctx (txs (snd w)) h w1)
          \<or> (\<exists>ord t d ce. e = wrapf ''failed to commit transaction'' ce
                \<and> buy (top_data (txs (snd w))) pid q t = Inr (ord, d) \<and> txs (snd w1) = put_data d (txs (snd w)))"
    using shop_driver.WithTx_place_order_any [OF assms(1-4), of pid q] .
  show ?thesis
  proof (cases err)
    case None
    obtain e v' where del: "cache_Delete C ctx (productCacheKey pid) w1 = (Returned e, v')" "txs (snd v') = txs (snd w1)"
      using assms(5) by blast
    obtain ord t d where ord: "captured = Some ord" "buy (top_data (txs (snd w))) pid q t = Inr (ord, d)"
      "txs (snd w1) = put_data d (txs (snd w))"
      using res None by auto
    have "\<exists>logs. CreateOrder P prov C ctx pid q w = (Returned (Inr ord, logs), v')"
      using None run del(1) ord(1) by (simp add: CreateOrder_def act_bind_def)
    with ord(2,3) del(2) show ?thesis by fastforce
  next
    case (Some e)
    with run res show ?thesis by (auto simp: CreateOrder_def act_bind_def)
  qed
qed

text \<open>The reference driver, except that every \<open>Exec\<close> loses its connection.\<close>

definition flaky_pgx :: "shop_state pgx" where
  "flaky_pgx = shop_pgx\<lparr>pgx_Exec := (\<lambda>q ctx stmt args w. ((0, Some (errors_New ''conn closed'')), w))\<rparr>"

lemma flaky_fields:
  "pgx_Begin flaky_pgx = pgx_Begin shop_pgx" "pgx_Commit flaky_pgx = pgx_Commit shop_pgx"
  "pgx_Rollback flaky_pgx = pgx_Rollback shop_pgx" "pgx_QueryRow flaky_pgx = pgx_QueryRow shop_pgx"
  "pgx_Row_Scan flaky_pgx = pgx_Row_Scan shop_pgx"
  "pgx_Exec flaky_pgx q ctx stmt args w = ((0, Some (errors_New ''conn closed'')), w)"
  by (simp_all add: flaky_pgx_def)

interpretation shop_flaky: shop_driver flaky_pgx pg_txs
proof (unfold_locales, unfold flaky_fields, goal_cases)
  case 1 then show ?case by (rule savepoints.begin_ok)
next
  case 2 then show ?case by (rule savepoints.begin_err)
next
  case 3 then show ?case by (rule savepoints.commit_ok)
next
  case 4 then show ?case by (rule savepoints.commit_err)
next
  case 5 then show ?case by (rule savepoints.rollback_ok)
next
  case 6 then show ?case by (rule savepoints.rollback_err)
next
  case 7 then show ?case by (rule savepoints.rollback_closed)
next
  case (8 w h ctx stmt args r w')
  then show ?case by (intro exI [of _ "top_data (pg_txs (snd w))"]) auto
next
  case 9 then show ?case by (rule savepoints.queryrow_top)
next
  case 10 then show ?case by (rule savepoints.scan_top)
next
  case 11 then show ?case by simp
next
  case 12 then show ?case by (rule sqls.scan_sql)
qed

lemma flaky_rollback: "pgx_Rollback flaky_pgx h ctx w = (Some e, w') \<Longrightarrow> errors_Is e ''pgx.ErrTxClosed''"
  by (auto simp: flaky_pgx_def ref_pgx_def pgx_ErrTxClosed_def split: if_splits)

theorem CreateOrder_atomic_witness:
  "\<exists>r logs w'. CreateOrder flaky_pgx (NewPoolProvider flaky_pgx) (shop_cache pen_codec) Background 1 3 (0, pen_world pen)
      = (Returned (r, logs), w')
    \<and> (pg_txs (snd w') = (pen_shop pen, []) \<or> (\<exists>o' t d. buy (pen_shop pen) 1 3 t = Inr (o', d) \<and> pg_txs (snd w') = (d, [])))"
proof -
  have w: "ctx_tx Background = top_tx (pg_txs (snd (0 :: int, pen_world pen)))"
    "ready_wait (NewPoolProvider flaky_pgx) Background (0, pen_world pen) = (Returned None, (0, pen_world pen))"
    "pg_txs (snd (0 :: int, pen_world pen)) = (pen_shop pen, [])"
    by (simp_all add: Background_def pen_world_def ready_wait_def)
  obtain r logs w' where run: "CreateOrder flaky_pgx (NewPoolProvider flaky_pgx) (shop_cache pen_codec) Background 1 3 (0, pen_world pen)
      = (Returned (r, logs), w')"
    and res: "case r of
       Inr o' \<Rightarrow> \<exists>t d. buy (pen_shop pen) 1 3 t = Inr (o', d) \<and> pg_txs (snd w') = (d, [])
     | Inl e \<Rightarrow> (\<exists>h. rolled_back flaky_pgx pg_txs Background (pen_shop pen, []) h w')
         \<or> (\<exists>o' t d ce. e = wrapf ''failed to commit transaction'' ce
               \<and> buy (pen_shop pen) 1 3 t = Inr (o', d) \<and> pg_txs (snd w') = (d, []))"
    using CreateOrder_atomic [OF shop_flaky.shop_driver_axioms pool_provider_pool w(1,2) shop_cache_Delete, of pen_codec 1 3]
    unfolding w(3) top_data.simps put_data.simps by blast
  have "pg_txs (snd w') = (pen_shop pen, [])" if "rolled_back flaky_pgx pg_txs Background (pen_shop pen, []) h w'" for h
    using shop_flaky.rolled_back_exact [OF that flaky_rollback] .
  with res have "pg_txs (snd w') = (pen_shop pen, []) \<or> (\<exists>o' t d. buy (pen_shop pen) 1 3 t = Inr (o', d) \<and> pg_txs (snd w') = (d, []))"
    by (cases r) auto
  with run show ?thesis by blast
qed

end
