(* ===== verification/OrderRedis.thy ===== *)
theory OrderRedis
  imports Orders
begin

text \<open>
  The orders service with the cache it is deployed with: the service's reads and orders over a Redis
  cache, for every client that keeps the contract \<open>redis_server\<close> and whose entries only disappear as
  time passes.
\<close>

section \<open>The Redis cache inside the service's world\<close>

record 'u redis_shop = "shop pg_state" +
  rss :: 'u

definition at_redis :: "(int \<times> 'u \<Rightarrow> 'a outcome \<times> int \<times> 'u) \<Rightarrow> int \<times> 'u redis_shop \<Rightarrow> 'a outcome \<times> int \<times> 'u redis_shop" where
  "at_redis f w = (case f (fst w, rss (snd w)) of (r, t, s) \<Rightarrow> (r, t, (snd w)\<lparr>rss := s\<rparr>))"

definition redis_shop_cache ::
  "('cl, 'u) redis \<Rightarrow> Product codec \<Rightarrow> ('cl, Product) RedisCache \<Rightarrow> (int \<times> 'u redis_shop, Product) cache" where
  "redis_shop_cache R dc r =
     \<lparr>cache_Get = (\<lambda>ctx k d. at_redis (rc_Get R dc r ctx k d)), cache_Set = (\<lambda>ctx k v ttl. at_redis (rc_Set R dc r ctx k v ttl)),
      cache_Delete = (\<lambda>ctx k. at_redis (rc_Delete R r ctx k)), cache_Exists = (\<lambda>ctx k. at_redis (rc_Exists R r ctx k))\<rparr>"

lemma at_redis_eq:
  "at_redis f w = (x, w') \<Longrightarrow> f (fst w, rss (snd w)) = (x, fst w', rss (snd w')) \<and> pg_txs (snd w') = pg_txs (snd w)"
  by (auto simp: at_redis_def split: prod.splits)

abbreviation redis_view :: "(int \<times> 'u \<Rightarrow> string \<Rightarrow> string option) \<Rightarrow> int \<times> 'u redis_shop \<Rightarrow> string \<Rightarrow> string option" where
  "redis_view store w \<equiv> store (fst w, rss (snd w))"

locale redis_expiry = redis_server +
  assumes expiry: "t \<le> t' \<Longrightarrow> store (t', s) \<subseteq>\<^sub>m store (t, s)"
begin

lemma redis_shop_lossy: "lossy_cache (redis_shop_cache R dc r) (rc_codecOrDefault dc r) (redis_view store) (\<lambda>_. True)"
proof -
  note laws = redis_lossy_cache [of dc r, OF refl]
  show ?thesis
  proof (unfold_locales, goal_cases)
    case (1 w ctx key d d' e w')
    from at_redis_eq 1(2) have h: "cache_Get (RedisCache_cache R dc r) ctx key d (fst w, rss (snd w)) = (Returned (d', e), fst w', rss (snd w'))"
      by (fastforce simp: redis_shop_cache_def RedisCache_cache_def)
    from lossy_cache.get_law [OF laws TrueI h] show ?case by simp
  next
    case (2 w ctx key v ttl e w')
    from at_redis_eq 2(2) have h: "cache_Set (RedisCache_cache R dc r) ctx key v ttl (fst w, rss (snd w)) = (Returned e, fst w', rss (snd w'))"
      by (fastforce simp: redis_shop_cache_def RedisCache_cache_def)
    from lossy_cache.set_law [OF laws TrueI h] show ?case by simp
  next
    case (3 w ctx key e w')
    from at_redis_eq 3(2) have h: "cache_Delete (RedisCache_cache R dc r) ctx key (fst w, rss (snd w)) = (Returned e, fst w', rss (snd w'))"
      by (fastforce simp: redis_shop_cache_def RedisCache_cache_def)
    from lossy_cache.delete_law [OF laws TrueI h] show ?case by simp
  next
    case (4 w ctx key b e w')
    from at_redis_eq 4(2) have h: "cache_Exists (RedisCache_cache R dc r) ctx key (fst w, rss (snd w)) = (Returned (b, e), fst w', rss (snd w'))"
      by (fastforce simp: redis_shop_cache_def RedisCache_cache_def)
    from lossy_cache.exists_law [OF laws TrueI h] show ?case by simp
  qed
qed

text \<open>Once connected every operation returns, so the service may rely on it.\<close>

lemma redis_product_cache:
  assumes "rc_client r = Some c"
  shows "product_cache (redis_shop_cache R dc r) (rc_codecOrDefault dc r) (redis_view store) (\<lambda>_. True)"
proof (intro product_cache.intro redis_shop_lossy, unfold_locales, goal_cases)
  case (1 w w')
  from 1(3) have "rss (snd w') = rss (snd w)" by (cases "snd w"; cases "snd w'") auto
  with expiry [OF 1(2)] show ?case by simp
next
  case (2 w ctx key d)
  obtain str e w1 where "redis_Get R c ctx key (fst w, rss (snd w)) = ((str, e), w1)" by (metis prod.exhaust)
  with assms show ?case
    by (cases e; cases w1; cases "Unmarshal (rc_codecOrDefault dc r) str d")
      (auto simp: redis_shop_cache_def at_redis_def rc_Get_def)
next
  case (3 w ctx key v ttl)
  show ?case
  proof (cases "Marshal (rc_codecOrDefault dc r) v")
    case (Inr b)
    with assms show ?thesis
      by (cases "redis_Set R c ctx key b ttl (fst w, rss (snd w))") (auto simp: redis_shop_cache_def at_redis_def rc_Set_def)
  qed (auto simp: redis_shop_cache_def at_redis_def rc_Set_def)
next
  case (4 w ctx key)
  obtain n e w1 where "redis_Del R c ctx key (fst w, rss (snd w)) = ((n, e), w1)" by (metis prod.exhaust)
  with assms show ?case by (cases w1) (auto simp: redis_shop_cache_def at_redis_def rc_Delete_def)
qed

end

interpretation ref_expiry: redis_expiry ref_redis rs_store rs_open
  by unfold_locales (rule rs_store_later)

section \<open>Properties\<close>

text \<open>Every entry Redis holds encodes the current row of the product its key names.\<close>

definition redis_fresh ::
  "(int \<times> 'u \<Rightarrow> string \<Rightarrow> string option) \<Rightarrow> Product codec \<Rightarrow> int \<times> 'u redis_shop \<Rightarrow> bool" where
  "redis_fresh store K w \<longleftrightarrow>
     (\<forall>key b. redis_view store w key = Some b \<longrightarrow> (\<exists>p. product_at (seen w) key = Some p \<and> Marshal K p = Inr b))"

lemma redis_fresh_eq:
  assumes "product_cache C K (redis_view store) (\<lambda>_. True)"
  shows "product_cache.fresh K (redis_view store) (\<lambda>_. True) w = redis_fresh store K w"
proof -
  have "lossy_cache C K (redis_view store) (\<lambda>_. True)" using assms by (rule product_cache.axioms(1))
  from lossy_cache.coherent_def [OF this] product_cache.fresh_def [OF assms] show ?thesis by (simp add: redis_fresh_def)
qed

text \<open>
  C14: the deployed service reads through Redis without being stale. With a connected client, and
  when every entry is current, \<open>GetProduct\<close> returns the current row or not found even when Redis
  commands fail or entries expire meanwhile, and leaves every entry current; an order returns what
  \<open>buy\<close> says and leaves every entry current unless it logged that its invalidation failed.
\<close>

theorem redis_cache_aside:
  assumes "redis_expiry R store opened" and "rc_client r = Some c" and "K = rc_codecOrDefault dc r"
    and "reads_back (\<lambda>p. p \<in> ran (sh_products (seen w))) K"
    and "ctx_done ctx = None" and "ctx_tx ctx = None" and "snd (pg_txs (snd w)) = []" and "redis_fresh store K w"
  shows "(\<exists>logs w'. GetProduct shop_pgx shop_prov (redis_shop_cache R dc r) ctx i w =
        (Returned (case sh_products (seen w) i of None \<Rightarrow> Inl ErrNotFound | Some p \<Rightarrow> Inr p, logs), w')
      \<and> redis_fresh store K w' \<and> pg_txs (snd w') = pg_txs (snd w))
    \<and> (0 < q \<longrightarrow> shop_ok (seen w) \<longrightarrow>
        (\<exists>res logs w'. CreateOrder shop_pgx shop_prov (redis_shop_cache R dc r) ctx i q w = (Returned (res, logs), w')
          \<and> res = (case buy (seen w) i q (fst w + 2 * Millisecond) of Inl e \<Rightarrow> Inl e | Inr (o', d) \<Rightarrow> Inr o')
          \<and> (logs = [] \<longrightarrow> redis_fresh store K w')))"
proof -
  have pc: "product_cache (redis_shop_cache R dc r) K (redis_view store) (\<lambda>_. True)"
    unfolding assms(3) by (rule redis_expiry.redis_product_cache [OF assms(1,2)])
  have fr: "product_cache.fresh K (redis_view store) (\<lambda>_. True) w" using assms(8) redis_fresh_eq [OF pc] by simp
  have live: "live ctx w" using assms(5-7) by (cases "pg_txs (snd w)") (simp add: live_def)
  have "reads_back (\<lambda>p. sh_products (seen w) i = Some p) K" by (rule reads_back_mono [OF assms(4)]) (rule ranI)
  note read = product_cache.GetProduct_current [OF pc live fr this]
  have order: "\<exists>res logs w'. CreateOrder shop_pgx shop_prov (redis_shop_cache R dc r) ctx i q w = (Returned (res, logs), w')
      \<and> res = (case buy (seen w) i q (fst w + 2 * Millisecond) of Inl e \<Rightarrow> Inl e | Inr (o', d) \<Rightarrow> Inr o')
      \<and> (logs = [] \<longrightarrow> redis_fresh store K w')" if q: "0 < q" "shop_ok (seen w)"
  proof -
    obtain res logs w' where "CreateOrder shop_pgx shop_prov (redis_shop_cache R dc r) ctx i q w = (Returned (res, logs), w')"
      "res = (case buy (seen w) i q (fst w + 2 * Millisecond) of Inl e \<Rightarrow> Inl e | Inr (o', d) \<Rightarrow> Inr o')"
      "pg_txs (snd w') = (case buy (seen w) i q (fst w + 2 * Millisecond) of Inl e \<Rightarrow> pg_txs (snd w) | Inr (o', d) \<Rightarrow> (d, []))"
      "logs = [] \<Longrightarrow> product_cache.fresh K (redis_view store) (\<lambda>_. True) w'"
    proof (rule product_cache.CreateOrder_fresh [OF pc assms(5-7) q fr, of i], goal_cases)
      case (1 x l v)
      show ?case by (rule 1(1) [OF 1(2-4)]) (rule 1(5))
    qed
    then show ?thesis unfolding redis_fresh_eq [OF pc] by blast
  qed
  show ?thesis using read order unfolding redis_fresh_eq [OF pc] by blast
qed

text \<open>A shop whose product is cached in Redis for a minute.\<close>

definition pen_redis :: "redis_state redis_shop" where
  "pen_redis =
     \<lparr>pg_txs = (pen_shop pen, []), pg_next = 0, pg_results = (\<lambda>_. ([], None)),
      rss = \<lparr>rs_up = True, rs_next = 1, rs_open = {#0#}, rs_data = [productCacheKey 1 \<mapsto> (''pen'', Some (60 * Second))]\<rparr>\<rparr>"

definition pen_client :: "(nat, Product) RedisCache" where
  "pen_client =
     \<lparr>rc_client = Some 0, rc_options = \<lparr>ro_Addr = ''localhost:6379'', ro_Password = [], ro_DB = 0, ro_Username = []\<rparr>,
      rc_codec = None, rc_name = ''redis-cache'', rc_logger = False, rc_retryAttempts = 0, rc_retryBackoff = 0\<rparr>"

theorem redis_cache_aside_witness:
  "\<exists>logs w'. GetProduct shop_pgx shop_prov (redis_shop_cache ref_redis pen_codec pen_client) Background 1 (0, pen_redis)
     = (Returned (Inr pen, logs), w') \<and> redis_fresh rs_store pen_codec w'"
proof -
  have seen: "seen (0, pen_redis) = pen_shop pen" by (simp add: seen_def pen_redis_def)
  have fr: "redis_fresh rs_store pen_codec (0, pen_redis)"
    by (simp add: redis_fresh_def seen) (simp add: pen_redis_def rs_store_def pen_shop_def pen_codec_def split: option.splits if_splits)
  have h: "rc_client pen_client = Some 0" "pen_codec = rc_codecOrDefault pen_codec pen_client"
    "ctx_done Background = None" "ctx_tx Background = None" "snd (pg_txs (snd (0 :: int, pen_redis))) = []"
    by (simp_all add: pen_client_def rc_codecOrDefault_def Background_def pen_redis_def)
  from redis_cache_aside [OF ref_expiry.redis_expiry_axioms h(1,2) exact_reads_back [OF pen_codec_ok] h(3-5) fr, of 1 1]
  show ?thesis by (auto simp: seen pen_shop_def)
qed

end
