(* ===== verification/GoTime.thy ===== *)
theory GoTime
  imports GoPrelude
begin

text \<open>
  The part of the time package that encoding/json calls for a \<open>time.Time\<close>: an instant is written in
  RFC 3339 with the offset of the local zone and read back. Instants are nanoseconds from Go's zero
  time, the first of January of the year 1 in UTC.
\<close>

section \<open>The calendar\<close>

text \<open>Years that start in March have their leap day at the end: day \<open>n\<close> is counted in cycles of 400, 100, 4 and 1 of them.\<close>

definition date_of_days :: "int \<Rightarrow> int \<times> int \<times> int" where
  "date_of_days n =
     (let z = n + 306; era = z div 146097; doe = z mod 146097;
          c = min 3 (doe div 36524); r = doe - c * 36524;
          q = r div 1461; r2 = r mod 1461;
          yr = min 3 (r2 div 365); doy = r2 - yr * 365;
          mp = (5 * doy + 2) div 153;
          m = (if mp < 10 then mp + 3 else mp - 9)
      in (400 * era + 100 * c + 4 * q + yr + (if m \<le> 2 then 1 else 0), m, doy - (153 * mp + 2) div 5 + 1))"

definition days_of_date :: "int \<Rightarrow> int \<Rightarrow> int \<Rightarrow> int" where
  "days_of_date y m d =
     (let y' = (if m \<le> 2 then y - 1 else y); mp = (if m \<le> 2 then m + 9 else m - 3)
      in 365 * y' + y' div 4 - y' div 100 + y' div 400 + (153 * mp + 2) div 5 + d - 1 - 306)"

definition isLeap :: "int \<Rightarrow> bool" where
  "isLeap y \<longleftrightarrow> y mod 4 = 0 \<and> (y mod 100 \<noteq> 0 \<or> y mod 400 = 0)"

definition daysIn :: "int \<Rightarrow> int \<Rightarrow> int" where
  "daysIn m y = (if m = 2 then (if isLeap y then 29 else 28) else 30 + (m + m div 8) mod 2)"

lemma capped_digit:
  assumes "0 < (k :: int)" and "x - min 3 (x div k) * k = k"
  shows "min 3 (x div k) = 3"
proof (rule ccontr)
  assume "min 3 (x div k) \<noteq> 3"
  then have "min 3 (x div k) = x div k" by (auto simp: min_def)
  with assms(2) have "x mod k = k" by (simp add: minus_div_mult_eq_mod)
  with pos_mod_bound [OF assms(1), of x] show False by simp
qed

lemma cycle_digits:
  assumes "0 \<le> (doe :: int)" "doe < 146097"
  obtains c q yr doy where "doe = 36524 * c + 1461 * q + 365 * yr + doy"
    "min 3 (doe div 36524) = c" "(doe - c * 36524) div 1461 = q" "min 3 ((doe - c * 36524) mod 1461 div 365) = yr"
    "(doe - c * 36524) mod 1461 - yr * 365 = doy"
    "0 \<le> c" "c \<le> 3" "0 \<le> q" "q \<le> 24" "0 \<le> yr" "yr \<le> 3" "0 \<le> doy" "doy \<le> 365"
    "doy = 365 \<longrightarrow> yr = 3 \<and> (q = 24 \<longrightarrow> c = 3)"
proof -
  define c where "c = min 3 (doe div 36524)"
  define r where "r = doe - c * 36524"
  define q where "q = r div 1461"
  define r2 where "r2 = r mod 1461"
  define yr where "yr = min 3 (r2 div 365)"
  define doy where "doy = r2 - yr * 365"
  have c: "0 \<le> c" "c \<le> 3" "0 \<le> r" "r \<le> 36524" using assms by (auto simp: c_def r_def min_def)
  have top: "c = 3" if "r = 36524" using capped_digit [of 36524 doe] that by (simp add: c_def r_def)
  have q: "0 \<le> q" "q \<le> 24" "0 \<le> r2" "r2 \<le> 1460" "r = 1461 * q + r2" using c by (auto simp: q_def r2_def)
  have y: "0 \<le> yr" "yr \<le> 3" "0 \<le> doy" "doy \<le> 365" using q by (auto simp: yr_def doy_def min_def)
  have last: "yr = 3" if "doy = 365" using capped_digit [of 365 r2] that by (simp add: yr_def doy_def)
  have "r = 36524" if "doy = 365" "q = 24" using last [OF that(1)] q(5) that by (simp add: doy_def)
  with top last have "doy = 365 \<longrightarrow> yr = 3 \<and> (q = 24 \<longrightarrow> c = 3)" by blast
  moreover have "doe = 36524 * c + 1461 * q + 365 * yr + doy" using q(5) by (simp add: r_def doy_def)
  moreover note c_def [symmetric] q_def [symmetric, unfolded r_def] yr_def [symmetric, unfolded r2_def r_def]
    doy_def [symmetric, unfolded r2_def r_def]
  ultimately show thesis using that c(1,2) q(1,2) y by blast
qed

text \<open>The day of a date is the day it was made from, and the date is a valid one.\<close>

lemma date_round_trip:
  assumes "date_of_days n = (y, m, d)"
  shows "days_of_date y m d = n" "1 \<le> m" "m \<le> 12" "1 \<le> d" "d \<le> daysIn m y"
proof -
  define z where "z = n + 306"
  define era where "era = z div 146097"
  have doe: "0 \<le> z mod 146097" "z mod 146097 < 146097" by simp_all
  obtain c q yr doy where k: "z mod 146097 = 36524 * c + 1461 * q + 365 * yr + doy"
    "min 3 (z mod 146097 div 36524) = c" "(z mod 146097 - c * 36524) div 1461 = q"
    "min 3 ((z mod 146097 - c * 36524) mod 1461 div 365) = yr" "(z mod 146097 - c * 36524) mod 1461 - yr * 365 = doy"
    "0 \<le> c" "c \<le> 3" "0 \<le> q" "q \<le> 24" "0 \<le> yr" "yr \<le> 3" "0 \<le> doy" "doy \<le> 365"
    "doy = 365 \<longrightarrow> yr = 3 \<and> (q = 24 \<longrightarrow> c = 3)"
    by (rule cycle_digits [OF doe])
  define mp where "mp = (5 * doy + 2) div 153"
  have mp: "0 \<le> mp" "mp \<le> 11" using k(12,13) by (auto simp: mp_def)
  define y' where "y' = 400 * era + 100 * c + 4 * q + yr"
  have e: "m = (if mp < 10 then mp + 3 else mp - 9)" "y = y' + (if m \<le> 2 then 1 else 0)" "d = doy - (153 * mp + 2) div 5 + 1"
    using assms unfolding date_of_days_def Let_def z_def [symmetric] era_def [symmetric] k(2-5) mp_def [symmetric] y'_def by auto
  show m: "1 \<le> m" "m \<le> 12" using mp by (auto simp: e(1))
  have "y' div 4 = 100 * era + 25 * c + q" "y' div 100 = 4 * era + c" "y' div 400 = era"
    using k(6-11) by (auto simp: y'_def)
  moreover have "z = 146097 * era + z mod 146097" by (simp add: era_def)
  moreover have "days_of_date y m d = 365 * y' + y' div 4 - y' div 100 + y' div 400 + (153 * mp + 2) div 5 + d - 1 - 306"
    using mp by (auto simp: days_of_date_def e(1,2) Let_def)
  moreover have "n = z - 306" by (simp add: z_def)
  ultimately show "days_of_date y m d = n" using k(1) e(3) y'_def by linarith
  show "1 \<le> d" using k(12) by (simp add: e(3) mp_def)
  have "isLeap (y' + 1) \<or> doy \<le> 364"
  proof (cases "doy = 365")
    case True
    with k(14) have yr: "yr = 3" and top: "q = 24 \<longrightarrow> c = 3" by simp_all
    have "y' + 1 = 4 * (100 * era + 25 * c + q + 1)" using yr by (simp add: y'_def)
    then have "(y' + 1) mod 4 = 0" by simp
    moreover have "(y' + 1) mod 100 = 4 * (q + 1)" if "q \<noteq> 24"
    proof -
      have "y' + 1 = 4 * (q + 1) + 100 * (4 * era + c)" using yr by (simp add: y'_def)
      then have "(y' + 1) mod 100 = (4 * (q + 1)) mod 100" by (metis mod_mult_self2)
      also have "\<dots> = 4 * (q + 1)" using that k(8,9) by (simp add: mod_pos_pos_trivial)
      finally show ?thesis .
    qed
    moreover have "(y' + 1) mod 400 = 0" if "q = 24"
    proof -
      have "y' + 1 = 400 * (era + 1)" using yr top that by (simp add: y'_def)
      then show ?thesis by (metis mod_mult_self1_is_0)
    qed
    ultimately show ?thesis using k(8) unfolding isLeap_def by (cases "q = 24") auto
  qed (use k(13) in simp)
  moreover have "mp = 0 \<or> mp = 1 \<or> mp = 2 \<or> mp = 3 \<or> mp = 4 \<or> mp = 5 \<or> mp = 6 \<or> mp = 7 \<or> mp = 8 \<or> mp = 9 \<or> mp = 10 \<or> mp = 11"
    using mp by presburger
  moreover have "153 * mp \<le> 5 * doy + 2" "5 * doy + 2 < 153 * mp + 153" by (simp_all add: mp_def)
  ultimately show "d \<le> daysIn m y" using k(13)
    by (elim disjE) (simp_all add: e daysIn_def)
qed

section \<open>RFC 3339\<close>

text \<open>
  \<open>loc\<close> gives the offset of the local zone from UTC in seconds at an instant. \<open>appendStrictRFC3339\<close>
  refuses years and offsets that the format cannot express.
\<close>

definition zone_text :: "int \<Rightarrow> string" where
  "zone_text off =
     (if off = 0 then ''Z''
      else let z = nat (\<bar>off\<bar> div 60)
           in (if off \<le> - 60 then ''-'' else ''+'') @ zero_pad 2 (z div 60) @ '':'' @ zero_pad 2 (z mod 60))"

definition appendStrictRFC3339 :: "(int \<Rightarrow> int) \<Rightarrow> int \<Rightarrow> go_error + string" where
  "appendStrictRFC3339 loc t =
     (let wall = t + loc t * Second; secs = wall div Second; sod = secs mod 86400
      in case date_of_days (secs div 86400) of (y, m, d) \<Rightarrow>
        if y < 0 \<or> 9999 < y then Inl (errors_New ''year outside of range [0,9999]'')
        else if 24 \<le> \<bar>loc t\<bar> div 3600 then Inl (errors_New ''timezone hour outside of range [0,23]'')
        else Inr (zero_pad 4 (nat y) @ ''-'' @ zero_pad 2 (nat m) @ ''-'' @ zero_pad 2 (nat d)
          @ ''T'' @ zero_pad 2 (nat (sod div 3600)) @ '':'' @ zero_pad 2 (nat (sod div 60 mod 60)) @ '':'' @ zero_pad 2 (nat (sod mod 60))
          @ fmtFrac (nat (wall mod Second)) 9 @ zone_text (loc t)))"

text \<open>\<open>parseRFC3339\<close>, the reader for exactly this form.\<close>

definition parse_uint :: "string \<Rightarrow> int \<Rightarrow> int \<Rightarrow> int option" where
  "parse_uint s lo hi =
     (let n = int (read_nat s) in if list_all is_digit s \<and> lo \<le> n \<and> n \<le> hi then Some n else None)"

definition parse_frac :: "string \<Rightarrow> int \<times> string" where
  "parse_frac s =
     (case s of
        c # e # r \<Rightarrow>
          if c = CHR ''.'' \<and> is_digit e
          then let ds = take 9 (takeWhile is_digit (e # r))
               in (int (read_nat ds * 10 ^ (9 - length ds)), dropWhile is_digit (e # r))
          else (0, s)
      | _ \<Rightarrow> (0, s))"

definition parse_zone :: "string \<Rightarrow> int option" where
  "parse_zone s =
     (if s = ''Z'' then Some 0
      else if length s \<noteq> 6 then None
      else case (parse_uint (take 2 (drop 1 s)) 0 23, parse_uint (take 2 (drop 4 s)) 0 59) of
        (Some h, Some m) \<Rightarrow>
          if s ! 0 \<in> set ''+-'' \<and> s ! 3 = CHR '':''
          then Some ((if s ! 0 = CHR ''-'' then - 1 else 1) * ((h * 60 + m) * 60)) else None
      | _ \<Rightarrow> None)"

definition parseRFC3339 :: "string \<Rightarrow> int option" where
  "parseRFC3339 s =
     (if length s < 19 then None
      else case (parse_uint (take 4 s) 0 9999, parse_uint (take 2 (drop 5 s)) 1 12) of
        (Some y, Some m) \<Rightarrow>
          (case (parse_uint (take 2 (drop 8 s)) 1 (daysIn m y), parse_uint (take 2 (drop 11 s)) 0 23,
                 parse_uint (take 2 (drop 14 s)) 0 59, parse_uint (take 2 (drop 17 s)) 0 59) of
             (Some d, Some h, Some mi, Some sec) \<Rightarrow>
               if s ! 4 = CHR ''-'' \<and> s ! 7 = CHR ''-'' \<and> s ! 10 = CHR ''T'' \<and> s ! 13 = CHR '':'' \<and> s ! 16 = CHR '':''
               then (case parse_frac (drop 19 s) of (ns, r) \<Rightarrow>
                       map_option (\<lambda>off. (days_of_date y m d * 86400 + h * 3600 + mi * 60 + sec - off) * Second + ns) (parse_zone r))
               else None
           | _ \<Rightarrow> None)
      | _ \<Rightarrow> None)"

text \<open>Padded numbers.\<close>

lemma foldl_digits:
  "foldl (\<lambda>a c. 10 * a + char_digit c) n t = n * 10 ^ length t + foldl (\<lambda>a c. 10 * a + char_digit c) 0 t"
proof (induction t arbitrary: n)
  case (Cons c t)
  have "foldl (\<lambda>a c. 10 * a + char_digit c) n (c # t) = (10 * n + char_digit c) * 10 ^ length t + foldl (\<lambda>a c. 10 * a + char_digit c) 0 t"
    unfolding foldl_Cons by (rule Cons)
  moreover have "foldl (\<lambda>a c. 10 * a + char_digit c) 0 (c # t) = (10 * 0 + char_digit c) * 10 ^ length t + foldl (\<lambda>a c. 10 * a + char_digit c) 0 t"
    unfolding foldl_Cons by (rule Cons)
  ultimately show ?case by (simp only: length_Cons power_Suc distrib_right mult.assoc mult.left_commute mult_zero_right add_0 add.assoc)
qed simp

lemma read_nat_append: "read_nat (s @ t) = read_nat s * 10 ^ length t + read_nat t"
  unfolding read_nat_def foldl_append by (rule foldl_digits)

lemma read_zeros [simp]: "read_nat (replicate k (CHR ''0'')) = 0"
  by (induction k) (simp_all add: read_nat_def char_digit_def)

lemma length_show_nat: "n < 10 ^ k \<Longrightarrow> 0 < k \<Longrightarrow> length (show_nat n) \<le> k"
proof (induction k arbitrary: n)
  case (Suc k)
  show ?case
  proof (cases "n < 10")
    case False
    then have "0 < k" using Suc(2) by (cases k) auto
    moreover have "n div 10 < 10 ^ k" using Suc(2) by (simp add: less_mult_imp_div_less mult.commute)
    ultimately show ?thesis using Suc(1) [of "n div 10"] False by (subst show_nat.simps) simp
  qed (subst show_nat.simps, simp)
qed simp

lemma zero_pad_facts:
  assumes "n < 10 ^ k" "0 < k"
  shows "length (zero_pad k n) = k" "list_all is_digit (zero_pad k n)" "read_nat (zero_pad k n) = n"
proof -
  show "length (zero_pad k n) = k" using length_show_nat [OF assms] by (simp add: zero_pad_def)
  show "list_all is_digit (zero_pad k n)"
    by (auto simp: zero_pad_def list_all_iff is_digit_def dest: show_nat_digits)
  show "read_nat (zero_pad k n) = n" by (simp add: zero_pad_def read_nat_append)
qed

lemma parse_uint_pad:
  "n < 10 ^ k \<Longrightarrow> 0 < k \<Longrightarrow> lo \<le> int n \<Longrightarrow> int n \<le> hi \<Longrightarrow> parse_uint (zero_pad k n) lo hi = Some (int n)"
  by (simp add: parse_uint_def zero_pad_facts)

lemma parse_uint_int:
  "nat x < 10 ^ k \<Longrightarrow> 0 < k \<Longrightarrow> 0 \<le> x \<Longrightarrow> lo \<le> x \<Longrightarrow> x \<le> hi \<Longrightarrow> parse_uint (zero_pad k (nat x)) lo hi = Some x"
  using parse_uint_pad [of "nat x" k lo hi] by simp

text \<open>The fraction is read back, with the zeros that were dropped.\<close>

lemma strip_zeros:
  obtains k where "p = rev (dropWhile (\<lambda>c. c = CHR ''0'') (rev p)) @ replicate k (CHR ''0'')"
proof -
  let ?z = "takeWhile (\<lambda>c. c = CHR ''0'') (rev p)"
  have "?z = replicate (length ?z) (CHR ''0'')" by (induction p rule: rev_induct) auto
  then have "rev ?z = replicate (length ?z) (CHR ''0'')" by (metis rev_replicate)
  moreover have "p = rev (dropWhile (\<lambda>c. c = CHR ''0'') (rev p)) @ rev ?z"
    by (metis rev_append rev_rev_ident takeWhile_dropWhile_id)
  ultimately show thesis using that by metis
qed

lemma parse_frac_fmt:
  assumes "n < 10 ^ 9" and "\<not> is_digit c" and "c \<noteq> CHR ''.''"
  shows "parse_frac (fmtFrac n 9 @ c # r) = (int n, c # r)"
proof -
  let ?p = "zero_pad 9 n" and ?ds = "rev (dropWhile (\<lambda>c. c = CHR ''0'') (rev (zero_pad 9 n)))"
  obtain k where k: "?p = ?ds @ replicate k (CHR ''0'')" by (rule strip_zeros)
  note pad = zero_pad_facts [OF assms(1)]
  have len: "length ?ds + k = 9" using pad(1) arg_cong [OF k, of length] by simp
  have digits: "\<forall>x \<in> set ?ds. is_digit x" using pad(2) by (auto simp: list_all_iff dest: set_dropWhileD)
  have val: "read_nat ?ds * 10 ^ k = n" using pad(3) arg_cong [OF k, of read_nat] by (simp add: read_nat_append)
  show ?thesis
  proof (cases ?ds)
    case Nil
    have "n = 0" using val unfolding Nil by (simp add: read_nat_def)
    with Nil assms show ?thesis by (cases r) (simp_all add: fmtFrac_def parse_frac_def)
  next
    case (Cons e es)
    have e: "is_digit e" "\<forall>x \<in> set es. is_digit x" using digits unfolding Cons by simp_all
    have "9 - length (e # es) = k" "length (e # es) \<le> 9" using len unfolding Cons by simp_all
    moreover have "takeWhile is_digit (es @ c # r) = es" "dropWhile is_digit (es @ c # r) = c # r"
      using e(2) assms(2) by (simp_all add: takeWhile_append2 dropWhile_append2)
    ultimately show ?thesis
      using arg_cong [OF val [unfolded Cons], of int] e by (simp add: fmtFrac_def parse_frac_def Let_def Cons)
  qed
qed

lemma zone_head: "\<exists>c r. zone_text off = c # r \<and> \<not> is_digit c \<and> c \<noteq> CHR ''.''"
  by (auto simp: zone_text_def is_digit_def Let_def)

lemma parse_zone_text:
  assumes "off mod 60 = 0" and "\<bar>off\<bar> div 3600 < 24"
  shows "parse_zone (zone_text off) = Some off"
proof (cases "off = 0")
  case False
  define z where "z = nat (\<bar>off\<bar> div 60)"
  have h: "z div 60 < 24" using assms(2) by (simp add: z_def nat_less_iff zdiv_int [symmetric])
  then have u: "parse_uint (zero_pad 2 (z div 60)) 0 23 = Some (int (z div 60))" "parse_uint (zero_pad 2 (z mod 60)) 0 59 = Some (int (z mod 60))"
    by (auto intro!: parse_uint_pad)
  have l: "length (zero_pad 2 (z div 60)) = 2" "length (zero_pad 2 (z mod 60)) = 2" using h by (auto intro!: zero_pad_facts)
  have "60 dvd off" using assms(1) by (simp only: dvd_eq_mod_eq_0)
  then have "60 dvd \<bar>off\<bar>" by (simp only: dvd_abs_iff)
  moreover have "int z = \<bar>off\<bar> div 60" by (simp add: z_def pos_imp_zdiv_nonneg_iff)
  ultimately have "int z * 60 = \<bar>off\<bar>" by simp
  moreover have "int (z div 60) * 60 + int (z mod 60) = int z" by (metis div_mult_mod_eq of_nat_add of_nat_mult of_nat_numeral)
  ultimately have "(int (z div 60) * 60 + int (z mod 60)) * 60 = \<bar>off\<bar>" by simp
  then show ?thesis
    using False u l assms(1) unfolding zone_text_def parse_zone_def Let_def z_def [symmetric]
    by (auto simp: nth_append)
qed (simp add: zone_text_def parse_zone_def)

lemma parse_slices:
  assumes "length a = 4" "length b = 2" "length c = 2" "length d = 2" "length e = 2" "length f = 2"
    and "parse_uint a 0 9999 = Some y" "parse_uint b 1 12 = Some m" "parse_uint c 1 (daysIn m y) = Some dd"
    and "parse_uint d 0 23 = Some h" "parse_uint e 0 59 = Some mi" "parse_uint f 0 59 = Some sc"
    and "parse_frac r = (ns, z)"
  shows "parseRFC3339 (a @ ''-'' @ b @ ''-'' @ c @ ''T'' @ d @ '':'' @ e @ '':'' @ f @ r) =
    map_option (\<lambda>off. (days_of_date y m dd * 86400 + h * 3600 + mi * 60 + sc - off) * Second + ns) (parse_zone z)"
  using assms by (simp add: parseRFC3339_def nth_append)

text \<open>An instant that was written is read back, in every zone whose offset is in whole minutes.\<close>

lemma RFC3339_round_trip:
  assumes "appendStrictRFC3339 loc t = Inr s" and "loc t mod 60 = 0"
  shows "parseRFC3339 s = Some t"
proof -
  define wall where "wall = t + loc t * Second"
  define secs where "secs = wall div Second"
  define sod where "sod = secs mod 86400"
  obtain y m d where dt: "date_of_days (secs div 86400) = (y, m, d)" by (metis prod.exhaust)
  note date = date_round_trip [OF dt]
  have y: "0 \<le> y" "y \<le> 9999" and off: "\<bar>loc t\<bar> div 3600 < 24"
    and s: "s = zero_pad 4 (nat y) @ ''-'' @ zero_pad 2 (nat m) @ ''-'' @ zero_pad 2 (nat d)
          @ ''T'' @ zero_pad 2 (nat (sod div 3600)) @ '':'' @ zero_pad 2 (nat (sod div 60 mod 60)) @ '':'' @ zero_pad 2 (nat (sod mod 60))
          @ fmtFrac (nat (wall mod Second)) 9 @ zone_text (loc t)"
    using assms(1) unfolding appendStrictRFC3339_def Let_def wall_def [symmetric] secs_def [symmetric] sod_def [symmetric] dt prod.case
    by (auto split: if_split_asm)
  have d31: "d \<le> 31" using date(5) by (auto simp: daysIn_def split: if_splits)
  have sod: "0 \<le> sod" "sod < 86400" by (simp_all add: sod_def)
  then have h: "0 \<le> sod div 3600" "sod div 3600 \<le> 23" by auto
  have ns: "0 \<le> wall mod Second" "wall mod Second < 10 ^ 9" by (simp_all add: Second_def)
  have small: "nat y < 10 ^ 4" "nat m < 10 ^ 2" "nat d < 10 ^ 2" "nat (sod div 3600) < 10 ^ 2"
    "nat (sod div 60 mod 60) < 10 ^ 2" "nat (sod mod 60) < 10 ^ 2" "nat (wall mod Second) < 10 ^ 9"
    using y date d31 h ns by (auto simp: nat_less_iff)
  have uint: "parse_uint (zero_pad 4 (nat y)) 0 9999 = Some y" "parse_uint (zero_pad 2 (nat m)) 1 12 = Some m"
    "parse_uint (zero_pad 2 (nat d)) 1 (daysIn m y) = Some d" "parse_uint (zero_pad 2 (nat (sod div 3600))) 0 23 = Some (sod div 3600)"
    "parse_uint (zero_pad 2 (nat (sod div 60 mod 60))) 0 59 = Some (sod div 60 mod 60)"
    "parse_uint (zero_pad 2 (nat (sod mod 60))) 0 59 = Some (sod mod 60)"
    using y date(2-5) h d31 by (auto intro!: parse_uint_int)
  obtain c r where z: "zone_text (loc t) = c # r" "\<not> is_digit c" "c \<noteq> CHR ''.''" using zone_head by blast
  have "parse_frac (fmtFrac (nat (wall mod Second)) 9 @ zone_text (loc t)) = (wall mod Second, zone_text (loc t))"
    using parse_frac_fmt [OF small(7) z(2,3), of r] ns(1) z(1) by simp
  from parse_slices [OF zero_pad_facts(1) [OF small(1)] zero_pad_facts(1) [OF small(2)] zero_pad_facts(1) [OF small(3)]
      zero_pad_facts(1) [OF small(4)] zero_pad_facts(1) [OF small(5)] zero_pad_facts(1) [OF small(6)] uint this]
  have "parseRFC3339 s = Some ((days_of_date y m d * 86400 + sod div 3600 * 3600 + sod div 60 mod 60 * 60 + sod mod 60 - loc t) * Second + wall mod Second)"
    unfolding s parse_zone_text [OF assms(2) off] by simp
  moreover have "sod div 3600 = sod div 60 div 60" by (simp add: zdiv_zmult2_eq [of 60 sod 60, simplified])
  then have "sod = sod div 3600 * 3600 + sod div 60 mod 60 * 60 + sod mod 60"
    using div_mult_mod_eq [of "sod div 60" 60] div_mult_mod_eq [of sod 60] by linarith
  then have "days_of_date y m d * 86400 + sod div 3600 * 3600 + sod div 60 mod 60 * 60 + sod mod 60 = secs"
    unfolding date(1) by (simp only: add.assoc) (simp add: sod_def)
  moreover have "wall = secs * Second + wall mod Second" unfolding secs_def by (rule div_mult_mod_eq [symmetric])
  then have "(secs - loc t) * Second + wall mod Second = t" by (simp only: left_diff_distrib wall_def)
  ultimately show ?thesis by simp
qed

text \<open>The bytes of the written form.\<close>

definition rfc_char :: "char \<Rightarrow> bool" where
  "rfc_char c \<longleftrightarrow> is_digit c \<or> c \<in> set ''-T:.Z+''"

lemma rfc_chars [simp]:
  "rfc_char CHR ''-''" "rfc_char CHR ''T''" "rfc_char CHR '':''" "rfc_char CHR ''.''" "rfc_char CHR ''Z''" "rfc_char CHR ''+''"
  by (simp_all add: rfc_char_def)

lemma zero_pad_rfc [simp]: "list_all rfc_char (zero_pad k n)"
proof -
  have "is_digit c" if "c \<in> set (zero_pad k n)" for c
    using that show_nat_digits [of c n] by (auto simp: zero_pad_def is_digit_def)
  then show ?thesis by (simp add: list_all_iff rfc_char_def)
qed

lemma fmtFrac_rfc [simp]: "list_all rfc_char (fmtFrac v k)"
proof -
  have "list_all rfc_char (rev (dropWhile (\<lambda>c. c = CHR ''0'') (rev (zero_pad k v))))"
    using zero_pad_rfc [of k v] unfolding list_all_iff by (metis set_dropWhileD set_rev)
  then show ?thesis by (simp add: fmtFrac_def Let_def)
qed

lemma RFC3339_chars: "appendStrictRFC3339 loc t = Inr s \<Longrightarrow> list_all rfc_char s"
  by (auto simp: appendStrictRFC3339_def zone_text_def Let_def split: prod.splits if_split_asm)

end
