(* ===== verification/OrderJson.thy ===== *)
theory OrderJson
  imports OrderSystem JsonStruct GoTime
begin

text \<open>
  The orders service on bytes: the request structs as \<open>decodeJSON\<close> reads them, the products and orders
  as \<open>json.Encoder\<close> and the cache's default codec write them, and the service with JSON on both ends.
\<close>

section \<open>Requests\<close>

definition string_field :: "string \<Rightarrow> (string \<Rightarrow> 'r \<Rightarrow> 'r) \<Rightarrow> 'r field" where
  "string_field name upd = \<lparr>f_name = name, f_type = ''string'', f_store = store_string upd\<rparr>"

definition int64_field :: "string \<Rightarrow> (int \<Rightarrow> 'r \<Rightarrow> 'r) \<Rightarrow> 'r field" where
  "int64_field name upd = \<lparr>f_name = name, f_type = ''int64'', f_store = store_int64 upd\<rparr>"

definition createProductRequest_fields :: "createProductRequest field list" where
  "createProductRequest_fields =
     [string_field ''name'' (\<lambda>x. cp_Name_update (\<lambda>_. x)),
      int64_field ''price_cents'' (\<lambda>x. cp_PriceCents_update (\<lambda>_. x)),
      int64_field ''stock'' (\<lambda>x. cp_Stock_update (\<lambda>_. x))]"

definition createOrderRequest_fields :: "createOrderRequest field list" where
  "createOrderRequest_fields =
     [int64_field ''product_id'' (\<lambda>x. co_ProductID_update (\<lambda>_. x)),
      int64_field ''quantity'' (\<lambda>x. co_Quantity_update (\<lambda>_. x))]"

text \<open>\<open>table\<close> says which runes are printable; it only matters for the text of an error.\<close>

definition decodeJSON :: "(nat \<Rightarrow> bool) \<Rightarrow> string \<Rightarrow> 'r field list \<Rightarrow> 'r \<Rightarrow> string \<Rightarrow> go_error + 'r" where
  "decodeJSON table struct fs zero body =
     (case json_Decode table True struct fs body zero of (r, None) \<Rightarrow> Inr r | (r, Some err) \<Rightarrow> Inl err)"

definition decode_createProduct :: "(nat \<Rightarrow> bool) \<Rightarrow> string \<Rightarrow> go_error + createProductRequest" where
  "decode_createProduct table =
     decodeJSON table ''createProductRequest'' createProductRequest_fields \<lparr>cp_Name = [], cp_PriceCents = 0, cp_Stock = 0\<rparr>"

definition decode_createOrder :: "(nat \<Rightarrow> bool) \<Rightarrow> string \<Rightarrow> go_error + createOrderRequest" where
  "decode_createOrder table =
     decodeJSON table ''createOrderRequest'' createOrderRequest_fields \<lparr>co_ProductID = 0, co_Quantity = 0\<rparr>"

text \<open>The bodies a client writes for them.\<close>

definition createProduct_json :: "createProductRequest \<Rightarrow> json" where
  "createProduct_json r =
     json_struct [(''name'', json_str (cp_Name r)), (''price_cents'', json_int (cp_PriceCents r)), (''stock'', json_int (cp_Stock r))]"

definition createOrder_json :: "createOrderRequest \<Rightarrow> json" where
  "createOrder_json r = json_struct [(''product_id'', json_int (co_ProductID r)), (''quantity'', json_int (co_Quantity r))]"

section \<open>Products, orders and answers\<close>

definition time_MarshalJSON :: "(int \<Rightarrow> int) \<Rightarrow> int \<Rightarrow> go_error + json" where
  "time_MarshalJSON loc t =
     (case appendStrictRFC3339 loc t of
        Inl e \<Rightarrow> Inl (errors_New (''json: error calling MarshalJSON for type time.Time: Time.MarshalJSON: '' @ error_text e))
      | Inr s \<Rightarrow> Inr (JStr s))"

text \<open>
  \<open>UnmarshalJSON\<close> of a time works on the quoted bytes. What is not in the strict form goes to
  \<open>time.Parse\<close>, a parameter here.
\<close>

fun store_time :: "(string \<Rightarrow> go_error + int) \<Rightarrow> (int \<Rightarrow> 'r \<Rightarrow> 'r) \<Rightarrow> json \<Rightarrow> 'r \<Rightarrow> 'r stored" where
  "store_time Parse upd JNull r = Stored r"
| "store_time Parse upd (JStr x) r =
     (case parseRFC3339 x of
        Some t \<Rightarrow> Stored (upd t r)
      | None \<Rightarrow> (case Parse x of Inr t \<Rightarrow> Stored (upd t r) | Inl e \<Rightarrow> Failed (upd 0 r) e))"
| "store_time Parse upd v r = Failed r (errors_New ''Time.UnmarshalJSON: input is not a JSON string'')"

definition product_fields :: "(string \<Rightarrow> go_error + int) \<Rightarrow> Product field list" where
  "product_fields Parse =
     [\<lparr>f_name = ''created_at'', f_type = ''time.Time'', f_store = store_time Parse (\<lambda>x. p_CreatedAt_update (\<lambda>_. x))\<rparr>,
      string_field ''name'' (\<lambda>x. p_Name_update (\<lambda>_. x)), int64_field ''id'' (\<lambda>x. p_ID_update (\<lambda>_. x)),
      int64_field ''price_cents'' (\<lambda>x. p_Price_update (\<lambda>_. x)), int64_field ''stock'' (\<lambda>x. p_Stock_update (\<lambda>_. x))]"

definition product_json :: "(int \<Rightarrow> int) \<Rightarrow> Product \<Rightarrow> go_error + json" where
  "product_json loc p =
     (case time_MarshalJSON loc (p_CreatedAt p) of
        Inl e \<Rightarrow> Inl e
      | Inr t \<Rightarrow> Inr (json_struct [(''created_at'', t), (''name'', json_str (p_Name p)), (''id'', json_int (p_ID p)),
          (''price_cents'', json_int (p_Price p)), (''stock'', json_int (p_Stock p))]))"

definition order_json :: "(int \<Rightarrow> int) \<Rightarrow> Order \<Rightarrow> go_error + json" where
  "order_json loc ord =
     (case time_MarshalJSON loc (o_CreatedAt ord) of
        Inl e \<Rightarrow> Inl e
      | Inr t \<Rightarrow> Inr (json_struct [(''created_at'', t), (''id'', json_int (o_ID ord)), (''product_id'', json_int (o_ProductID ord)),
          (''quantity'', json_int (o_Quantity ord)), (''total_cents'', json_int (o_Total ord))]))"

fun payload_json :: "(int \<Rightarrow> int) \<Rightarrow> payload \<Rightarrow> go_error + json" where
  "payload_json loc (PProduct p) = product_json loc p"
| "payload_json loc (POrder ord) = order_json loc ord"
| "payload_json loc (PError code message) =
     Inr (json_struct [(''error'', json_struct [(''code'', json_str code), (''message'', json_str message)])])"

text \<open>The body \<open>writeJSON\<close> writes after the status: nothing when the value cannot be encoded.\<close>

definition response_body :: "(int \<Rightarrow> int) \<Rightarrow> api_response \<Rightarrow> string" where
  "response_body loc a = (case payload_json loc (snd a) of Inl e \<Rightarrow> [] | Inr v \<Rightarrow> json_text v @ [CHR 0x0A])"

text \<open>The default codec of the caches, for products.\<close>

definition JSONCodec :: "(int \<Rightarrow> int) \<Rightarrow> (string \<Rightarrow> go_error + int) \<Rightarrow> Product codec" where
  "JSONCodec loc Parse =
     \<lparr>Marshal = (\<lambda>p. case product_json loc p of Inl e \<Rightarrow> Inl e | Inr v \<Rightarrow> Inr (json_text v)),
      Unmarshal = (\<lambda>data d. json_Unmarshal ''Product'' (product_fields Parse) data d)\<rparr>"

section \<open>Round trips\<close>

lemmas field_defs = string_field_def int64_field_def find_field_def

lemma field_names [simp]:
  "valid_utf8 ''name''" "valid_utf8 ''price_cents''" "valid_utf8 ''stock''" "valid_utf8 ''product_id''" "valid_utf8 ''quantity''"
  "valid_utf8 ''created_at''" "valid_utf8 ''id''" "valid_utf8 ''total_cents''" "valid_utf8 ''code''" "valid_utf8 ''message''" "valid_utf8 ''error''"
  by (rule valid_ascii; simp)+

definition int64 :: "int \<Rightarrow> bool" where
  "int64 i \<longleftrightarrow> - (2 ^ 63) \<le> i \<and> i < 2 ^ 63"

lemma store_int64_json: "store_int64 upd (json_int i) r = (if int64 i then Stored (upd i r) else Mismatch (''number '' @ fmt_d i))"
  by (simp add: json_int_def ParseInt_fmt_d int64_def)

lemma store_string_json: "valid_utf8 s \<Longrightarrow> store_string upd (json_str s) r = Stored (upd s r)"
  by (simp add: json_str_def unquote_enc_chars)

lemma decode_createProduct_reads:
  assumes "valid_utf8 (cp_Name r)" "int64 (cp_PriceCents r)" "int64 (cp_Stock r)"
  shows "decode_createProduct table (json_text (createProduct_json r) @ rest) = Inr r"
  using assms
  by (simp add: decode_createProduct_def decodeJSON_def createProduct_json_def Decode_struct createProductRequest_fields_def field_defs
      unquote_enc_chars store_int64_json store_string_json del: json_text.simps)

lemma decode_createOrder_reads:
  assumes "int64 (co_ProductID r)" "int64 (co_Quantity r)"
  shows "decode_createOrder table (json_text (createOrder_json r) @ rest) = Inr r"
  using assms
  by (simp add: decode_createOrder_def decodeJSON_def createOrder_json_def Decode_struct createOrderRequest_fields_def field_defs
      unquote_enc_chars store_int64_json del: json_text.simps)

lemma time_json:
  assumes "time_MarshalJSON loc t = Inr v" and "loc t mod 60 = 0"
  shows "leaf v \<and> store_time Parse upd v r = Stored (upd t r)"
proof -
  obtain s where s: "appendStrictRFC3339 loc t = Inr s" "v = JStr s" using assms(1) by (auto simp: time_MarshalJSON_def split: sum.splits)
  have "\<forall>c \<in> set ''-T:.Z+''. plain c" by (simp add: plain_def esc_byte_def)
  then have "\<forall>c \<in> set s. plain c" using RFC3339_chars [OF s(1)] plain_digit unfolding list_all_iff rfc_char_def by blast
  then have "enc_chars s = s" "valid_utf8 s" by (simp_all add: enc_plain valid_ascii plain_def)
  then have "leaf v" by (metis leaf_string json_str_def s(2))
  with RFC3339_round_trip [OF s(1) assms(2)] s(2) show ?thesis by simp
qed

text \<open>What unmarshalling a written product gives: the product, or an error when a number is no int64.\<close>

lemma codec_reads:
  assumes "valid_utf8 (p_Name p)" and "loc (p_CreatedAt p) mod 60 = 0" and "Marshal (JSONCodec loc Parse) p = Inr b" and "skip rest = []"
  obtains q e where "Unmarshal (JSONCodec loc Parse) (b @ rest) d = (q, e)"
    "int64 (p_ID p) \<Longrightarrow> int64 (p_Price p) \<Longrightarrow> int64 (p_Stock p) \<Longrightarrow> e = None" "e = None \<Longrightarrow> q = p"
proof -
  obtain t where t: "time_MarshalJSON loc (p_CreatedAt p) = Inr t"
    using assms(3) by (auto simp: JSONCodec_def product_json_def split: sum.splits)
  let ?kvs = "[(''created_at'', t), (''name'', json_str (p_Name p)), (''id'', json_int (p_ID p)),
          (''price_cents'', json_int (p_Price p)), (''stock'', json_int (p_Stock p))]"
  have b: "b = json_text (json_struct ?kvs)" using assms(3) t by (simp add: JSONCodec_def product_json_def del: json_text.simps)
  have tj: "leaf t" "store_time Parse upd t r = Stored (upd (p_CreatedAt p) r)" for upd and r :: Product
    using time_json [OF t assms(2), of Parse upd r] by simp_all
  have leaves: "\<forall>(k, v) \<in> set ?kvs. valid_utf8 k \<and> leaf v" using tj assms(1) by simp
  obtain q e where u: "Unmarshal (JSONCodec loc Parse) (b @ rest) d = (q, e)" by (rule prod.exhaust)
  have "store_members (\<lambda>_. False) False ''Product'' (product_fields Parse) (map (\<lambda>(k, v). (enc_chars k, v)) ?kvs) d None = (q, e)"
    using u unfolding b JSONCodec_def by (simp add: Unmarshal_struct [OF leaves assms(4)] del: json_text.simps)
  then have qe: "(int64 (p_ID p) \<and> int64 (p_Price p) \<and> int64 (p_Stock p) \<longrightarrow> e = None) \<and> (e = None \<longrightarrow> q = p)"
    using tj assms(1) store_members_accepts
    by (auto simp: product_fields_def field_defs unquote_enc_chars store_int64_json store_string_json split: if_split_asm)
  show thesis using that [OF u] qe by blast
qed

section \<open>What decoding accepts\<close>

lemma find_fieldD: "find_field fs key = Some f \<Longrightarrow> f \<in> set fs \<and> foldName (f_name f) = foldName key"
  by (auto simp: find_field_def find_Some_iff split: option.splits)

text \<open>A body that is accepted is null, or an object all of whose keys name fields and whose values fit them.\<close>

definition names_fields :: "'r field list \<Rightarrow> json \<Rightarrow> bool" where
  "names_fields fs v \<longleftrightarrow>
     (case v of
        JNull \<Rightarrow> True
      | JObj ms \<Rightarrow> list_all (\<lambda>(k, x). list_ex (\<lambda>f. foldName (f_name f) = foldName (unquote k)) fs) ms
      | _ \<Rightarrow> False)"

lemma decodeJSON_accepts:
  assumes "decodeJSON table struct fs zero body = Inr r"
    and "\<And>f v r r'. f \<in> set fs \<Longrightarrow> P r \<Longrightarrow> f_store f v r = Stored r' \<Longrightarrow> P r'" and "P zero"
  shows "P r \<and> (\<exists>v rest. scan [] MValue body = Inr (v, rest) \<and> names_fields fs v)"
proof -
  have d: "json_Decode table True struct fs body zero = (r, None)"
    using assms(1) by (auto simp: decodeJSON_def split: prod.splits option.splits)
  then obtain v rest where v: "scan [] MValue body = Inr (v, rest)" "store_struct table True struct fs v zero = (r, None)"
    by (auto simp: json_Decode_def split: sum.splits)
  consider "v = JNull" "r = zero" | ms where "v = JObj ms" "store_members table True struct fs ms zero None = (r, None)"
    using v(2) by (auto simp: store_struct_def split: json.splits)
  then show ?thesis
  proof cases
    case (2 ms)
    have "\<forall>(k, x) \<in> set ms. \<exists>f r r'. find_field fs (unquote k) = Some f \<and> f_store f x r = Stored r'"
      using store_members_all [of table struct fs ms zero] 2(2) by simp
    then have "names_fields fs v"
      unfolding names_fields_def 2(1) by (fastforce simp: list_all_iff list_ex_iff dest: find_fieldD)
    moreover have "P r" by (rule store_members_inv [where P = P, OF _ assms(3) 2(2)]) (rule assms(2))
    ultimately show ?thesis using v(1) by blast
  qed (use v assms(3) in \<open>auto simp: names_fields_def\<close>)
qed

lemma ParseInt_int64: "ParseInt s = Inr i \<Longrightarrow> int64 i"
  by (auto simp: ParseInt_def int64_def Let_def split: prod.splits if_split_asm)

lemma store_int64_cases: "store_int64 upd v r = Stored r' \<Longrightarrow> r' = r \<or> (\<exists>i. int64 i \<and> r' = upd i r)"
  by (cases v) (auto split: sum.splits dest: ParseInt_int64)

lemma store_string_cases: "store_string upd v r = Stored r' \<Longrightarrow> r' = r \<or> (\<exists>x. valid_utf8 x \<and> r' = upd x r)"
  by (cases v) (auto intro: valid_utf8_unquote)

definition product_request_ok :: "createProductRequest \<Rightarrow> bool" where
  "product_request_ok r \<longleftrightarrow> valid_utf8 (cp_Name r) \<and> int64 (cp_PriceCents r) \<and> int64 (cp_Stock r)"

definition order_request_ok :: "createOrderRequest \<Rightarrow> bool" where
  "order_request_ok r \<longleftrightarrow> int64 (co_ProductID r) \<and> int64 (co_Quantity r)"

lemma decode_createProduct_accepts:
  assumes "decode_createProduct table body = Inr r"
  shows "product_request_ok r \<and> (\<exists>v rest. scan [] MValue body = Inr (v, rest) \<and> names_fields createProductRequest_fields v)"
proof (rule decodeJSON_accepts [OF assms [unfolded decode_createProduct_def]])
  fix f v r r'
  assume "f \<in> set createProductRequest_fields" "product_request_ok r" "f_store f v r = Stored r'"
  then show "product_request_ok r'"
    by (auto simp: createProductRequest_fields_def product_request_ok_def string_field_def int64_field_def
        dest!: store_int64_cases store_string_cases)
qed (simp add: product_request_ok_def int64_def)

lemma decode_createOrder_accepts:
  assumes "decode_createOrder table body = Inr r"
  shows "order_request_ok r \<and> (\<exists>v rest. scan [] MValue body = Inr (v, rest) \<and> names_fields createOrderRequest_fields v)"
proof (rule decodeJSON_accepts [OF assms [unfolded decode_createOrder_def]])
  fix f v r r'
  assume "f \<in> set createOrderRequest_fields" "order_request_ok r" "f_store f v r = Stored r'"
  then show "order_request_ok r'"
    by (auto simp: createOrderRequest_fields_def order_request_ok_def int64_field_def dest!: store_int64_cases)
qed (simp add: order_request_ok_def int64_def)

section \<open>The service on bytes\<close>

text \<open>A call as it arrives: the body of a POST, the \<open>id\<close> in the path of a GET.\<close>

datatype http_call = PostProducts string | GetProducts string | PostOrders string | GetOrders string

fun decode_call :: "(nat \<Rightarrow> bool) \<Rightarrow> http_call \<Rightarrow> request" where
  "decode_call table (PostProducts body) = POST_products (decode_createProduct table body)"
| "decode_call table (GetProducts i) = GET_products i"
| "decode_call table (PostOrders body) = POST_orders (decode_createOrder table body)"
| "decode_call table (GetOrders i) = GET_orders i"

definition serve_calls ::
  "(nat \<Rightarrow> bool) \<Rightarrow> (int \<Rightarrow> int) \<Rightarrow> (string \<Rightarrow> go_error + int) \<Rightarrow> http_call list \<Rightarrow> int \<times> shop_state
     \<Rightarrow> (int \<times> string) list \<times> int \<times> shop_state" where
  "serve_calls table loc Parse calls w =
     (case serve_all (JSONCodec loc Parse) (map (decode_call table) calls) w of
        (as, w') \<Rightarrow> (map (\<lambda>a. (fst a, response_body loc a)) as, w'))"

lemma decode_call_ok: "request_ok (decode_call table c)"
proof (cases c)
  case (PostProducts body)
  show ?thesis
  proof (cases "decode_createProduct table body")
    case (Inr r)
    with decode_createProduct_accepts [OF Inr] PostProducts show ?thesis by (simp add: product_request_ok_def int64_def)
  qed (simp add: PostProducts)
qed simp_all

lemma calls_ok: "list_all request_ok (map (decode_call table) calls)"
  by (simp add: list_all_iff decode_call_ok)

lemma JSONCodec_reads_back:
  assumes "\<And>t. loc t mod 60 = 0"
  shows "reads_back (\<lambda>p. valid_utf8 (p_Name p)) (JSONCodec loc Parse)"
  unfolding reads_back_def
proof (intro allI impI)
  fix p b d q
  assume h: "valid_utf8 (p_Name p)" "Marshal (JSONCodec loc Parse) p = Inr b" "Unmarshal (JSONCodec loc Parse) b d = (q, None)"
  have "skip [] = []" by (simp add: skip_def)
  obtain q' e where "Unmarshal (JSONCodec loc Parse) (b @ []) d = (q', e)" "e = None \<Longrightarrow> q' = p"
    by (rule codec_reads [OF h(1) assms h(2) \<open>skip [] = []\<close>]) blast
  with h(3) show "q = p" by simp
qed

lemma codec_round_trip:
  assumes "valid_utf8 (p_Name p)" and "int64 (p_ID p)" and "int64 (p_Price p)" and "int64 (p_Stock p)"
    and "loc (p_CreatedAt p) mod 60 = 0" and "Marshal (JSONCodec loc Parse) p = Inr b"
  shows "Unmarshal (JSONCodec loc Parse) b d = (p, None)"
    and "Unmarshal (JSONCodec loc Parse) (response_body loc (status, PProduct p)) d = (p, None)"
proof -
  have reads: "Unmarshal (JSONCodec loc Parse) (b @ rest) d = (p, None)" if "skip rest = []" for rest
    by (rule codec_reads [OF assms(1,5,6) that, of d]) (use assms(2-4) in auto)
  have "skip [] = []" "skip [CHR 0x0A] = []" by (simp_all add: skip_def is_space_def)
  with reads [of "[]"] reads [of "[CHR 0x0A]"]
  show "Unmarshal (JSONCodec loc Parse) b d = (p, None)"
    and "Unmarshal (JSONCodec loc Parse) (response_body loc (status, PProduct p)) d = (p, None)"
    using assms(6) by (auto simp: response_body_def JSONCodec_def split: sum.splits)
qed

lemma body_marshals:
  assumes "response_body loc (status, PProduct p) \<noteq> []"
  obtains b where "Marshal (JSONCodec loc Parse) p = Inr b"
  using assms by (auto simp: response_body_def JSONCodec_def split: sum.splits)

section \<open>Properties\<close>

text \<open>
  C17: the default codec is a round trip. A product with a name of valid UTF-8 and int64 numbers,
  written by the cache's JSON codec in a zone whose offset is in whole minutes, is read back as the
  same product, whatever the destination held; so is the body of an answer that carries it.
\<close>

theorem json_codec_round_trip:
  assumes "valid_utf8 (p_Name p)" and "int64 (p_ID p)" and "int64 (p_Price p)" and "int64 (p_Stock p)"
    and "loc (p_CreatedAt p) mod 60 = 0" and "Marshal (JSONCodec loc Parse) p = Inr b"
  shows "Unmarshal (JSONCodec loc Parse) b d = (p, None)
    \<and> Unmarshal (JSONCodec loc Parse) (response_body loc (status, PProduct p)) d = (p, None)"
  using codec_round_trip [OF assms] by blast

text \<open>
  C20: requests that a client writes are read. For every product request with a name of valid UTF-8
  and int64 numbers and every order request with int64 numbers, decoding its JSON text gives the
  request back, whatever bytes follow the text.
\<close>

theorem requests_round_trip:
  assumes "product_request_ok r" and "order_request_ok ord"
  shows "decode_createProduct table (json_text (createProduct_json r) @ rest) = Inr r
    \<and> decode_createOrder table (json_text (createOrder_json ord) @ rest) = Inr ord"
  using assms decode_createProduct_reads decode_createOrder_reads by (simp add: product_request_ok_def order_request_ok_def)

text \<open>
  C18: decoding is strict. A request that \<open>decodeJSON\<close> accepts has a name of valid UTF-8 and int64
  numbers, and its body starts with null or with an object all of whose keys name fields of the
  struct, up to case.
\<close>

theorem decodeJSON_strict:
  assumes "decode_createProduct table body = Inr r" and "decode_createOrder table body' = Inr ord"
  shows "product_request_ok r \<and> (\<exists>v rest. scan [] MValue body = Inr (v, rest) \<and> names_fields createProductRequest_fields v)
    \<and> order_request_ok ord \<and> (\<exists>v rest. scan [] MValue body' = Inr (v, rest) \<and> names_fields createOrderRequest_fields v)"
  using decode_createProduct_accepts [OF assms(1)] decode_createOrder_accepts [OF assms(2)] by blast



section \<open>Instances\<close>

text \<open>A shop over HTTP: a product, a read, an order with odd spelling and something after it, too large an order, and an unknown field.\<close>

definition demo_calls :: "http_call list" where
  "demo_calls =
     [PostProducts (map (\<lambda>c. if c = CHR ''~'' then dq else c) ''{~name~: ~pen~, ~price_cents~: 250, ~stock~: 10}''),
      GetProducts ''1'',
      PostOrders (map (\<lambda>c. if c = CHR ''~'' then dq else c) ''{~Product_ID~: 1, ~quantity~: 3} {}''),
      PostOrders (map (\<lambda>c. if c = CHR ''~'' then dq else c) ''{~product_id~: 1, ~quantity~: 100}''),
      PostOrders (map (\<lambda>c. if c = CHR ''~'' then dq else c) ''{~product_id~: 1, ~quantity~: 1, ~price~: 0}'')]"

lemma demo_product: "product_request_ok \<lparr>cp_Name = ''pen'', cp_PriceCents = 250, cp_Stock = 10\<rparr>"
  by (simp add: product_request_ok_def int64_def valid_ascii)

lemma demo_order: "order_request_ok \<lparr>co_ProductID = 1, co_Quantity = 3\<rparr>"
  by (simp add: order_request_ok_def int64_def)

lemma demo_marshals: "\<exists>b. Marshal (JSONCodec (\<lambda>_. 0) (\<lambda>_. Inl io_EOF)) pen = Inr b"
proof -
  have "\<not> isl (appendStrictRFC3339 (\<lambda>_. 0) (p_CreatedAt pen))" by code_simp
  then show ?thesis by (auto simp: JSONCodec_def product_json_def time_MarshalJSON_def split: sum.split)
qed

lemma demo_text: "json_text (createOrder_json \<lparr>co_ProductID = 1, co_Quantity = 3\<rparr>) =
  map (\<lambda>c. if c = CHR ''~'' then dq else c) ''{~product_id~:1,~quantity~:3}''"
  by code_simp

theorem json_codec_round_trip_witness:
  "\<exists>b. Unmarshal (JSONCodec (\<lambda>_. 0) (\<lambda>_. Inl io_EOF)) b zeroProduct = (pen, None) \<and> p_Name pen = ''pen''"
proof -
  obtain b where "Marshal (JSONCodec (\<lambda>_. 0) (\<lambda>_. Inl io_EOF)) pen = Inr b" using demo_marshals by blast
  from json_codec_round_trip [OF _ _ _ _ _ this, of zeroProduct 200] show ?thesis
    by (auto simp: pen_def int64_def valid_ascii)
qed

theorem requests_round_trip_witness:
  "decode_createOrder (\<lambda>_. False) (map (\<lambda>c. if c = CHR ''~'' then dq else c) ''{~product_id~:1,~quantity~:3}'' @ ''{}'')
     = Inr \<lparr>co_ProductID = 1, co_Quantity = 3\<rparr>"
  using requests_round_trip [OF demo_product demo_order, of "\<lambda>_. False" "''{}''"] unfolding demo_text by blast

theorem decodeJSON_strict_witness:
  "\<exists>v rest. scan [] MValue (json_text (createOrder_json \<lparr>co_ProductID = 1, co_Quantity = 3\<rparr>)) = Inr (v, rest)
     \<and> names_fields createOrderRequest_fields v"
proof -
  have "decode_createProduct (\<lambda>_. False) (json_text (createProduct_json \<lparr>cp_Name = ''pen'', cp_PriceCents = 250, cp_Stock = 10\<rparr>))
      = Inr \<lparr>cp_Name = ''pen'', cp_PriceCents = 250, cp_Stock = 10\<rparr>"
    using decode_createProduct_reads [of _ _ "[]"] demo_product by (simp add: product_request_ok_def del: json_text.simps)
  moreover have "decode_createOrder (\<lambda>_. False) (json_text (createOrder_json \<lparr>co_ProductID = 1, co_Quantity = 3\<rparr>))
      = Inr \<lparr>co_ProductID = 1, co_Quantity = 3\<rparr>"
    using decode_createOrder_reads [of _ _ "[]"] demo_order by (simp add: order_request_ok_def del: json_text.simps)
  ultimately show ?thesis using decodeJSON_strict by blast
qed



end
