(* ===== verification/Spec2Isabelle.thy ===== *)
theory Spec2Isabelle
  imports AppLife OrderConcurrency OrderFaults OrderRedis OrderJson
begin

text \<open>
  A model of go-bootkit, a framework for Go services, and of the orders service its repository ships
  as an example, with the theorems that make them correct. Every theory names the files under src/
  it translates.

  The program. An application hands components to a runner (core/runner.go). The runner registers
  the components' health checks with an aggregator (core/healthkit), starts each component in a
  goroutine of its own, supervises their readiness, and on cancellation or failure stops them in
  reverse order within a budget. A component embeds a \<open>Lifecycle\<close> (core/lifecycle.go), which turns a
  connect function into \<open>Start\<close>, \<open>Stop\<close> and a readiness channel. The kits provide components: a
  Postgres pool with transactions carried in the context (databasekit), a Redis cache (cachekit),
  asynq clients and servers (workerkit) and an HTTP server with a default router (serverkit); their
  connect functions retry with backoff (core/retry). examples/orders puts them together.

  The theories, in the order in which they build on each other.

  \<^item> GoPrelude: what Go itself provides. 64-bit arithmetic (\<open>i64\<close>), error values with wrapping and
    \<open>errors.Is\<close>, outcomes of a call (\<open>Returned\<close>, \<open>Panicked\<close>, \<open>Blocked\<close>) and actions that thread a
    world, contexts as a moment of cancellation and an error (time is an integer of nanoseconds that
    is passed along), a two-way \<open>select\<close>, decimal formatting and parsing, reachability and invariants.
  \<^item> JsonString, Json, JsonStruct: encoding/json of the standard library, on bytes. Strings with their
    escapes and UTF-8 repair, the scanner as a recursion over the input with a stack of open values and
    its limit of 10000 nested ones, the compact text of a value, and what \<open>Decode\<close> and \<open>Unmarshal\<close>
    store into the fields of a struct, with the texts of their errors. What is written is read back.
  \<^item> GoTime: the RFC 3339 form of an instant, as encoding/json writes and reads it, over the proleptic
    Gregorian calendar; a round trip for years of four digits and offsets in whole minutes.
  \<^item> Retry: core/retry/retry.go. The number and order of the attempts, what is returned, bounds of the
    delays including the overflow of the shift.
  \<^item> Lifecycle: core/lifecycle.go. \<open>Start\<close> and \<open>Stop\<close> are cut at the points where another goroutine
    can run; \<open>lc_step\<close> interleaves any number of calls. A resource is released at most once, and
    exactly once when everything has returned; readiness means connected.
  \<^item> Health: core/healthkit/health.go. Registration, the cache, the single flight, the hook and the
    handler.
  \<^item> Runner: core/runner.go, component.go, hooks.go. Options, health wiring, \<open>startSupervisor\<close> as the
    step relation \<open>sup_step\<close> of its goroutines, \<open>shutdownOrchestrator\<close> as a recursion over the service
    index with the remaining budget, and \<open>Run\<close>. The contract of a component's \<open>Stop\<close> is the locale
    \<open>bounded_stop\<close>, interpreted for the HTTP server and the asynq server.
  \<^item> Cache: cachekit. The interface as the locales \<open>lossy_cache\<close> (entries may vanish at any moment)
    and \<open>exact_cache\<close>; the in-memory cache is exact, the Redis cache is lossy for every client that
    keeps the contract \<open>redis_server\<close>. A codec is a parameter here; \<open>reads_back\<close> is what its clients need.
  \<^item> Database: databasekit. Adapters, the readiness gate and \<open>WithTx\<close> over a driver that is a parameter;
    its contracts are \<open>tx_driver\<close>, \<open>query_driver\<close>, \<open>sql_driver\<close> and \<open>pool_driver\<close>, each shown
    satisfiable by a reference driver with savepoints. \<open>WithTx\<close> is all or nothing, nested or not.
  \<^item> Worker: workerkit and workerkit/memqueue. Options and their translation to asynq, the clients as
    instances of the locale \<open>enqueuer\<close>, the server's stop closure.
  \<^item> Server: serverkit. Construction, the router as the list of its middlewares and routes, stop.
  \<^item> Telemetry: core/trace\_handler.go and core/otelkit. The log handler that adds trace ids at the
    root of the groups, and the hooks as samples of a meter.
  \<^item> Orders: examples/orders except main.go. Repositories with the SQL text of the source, the
    service, the handlers and the notification worker. \<open>shop\<close> is the schema of the migration,
    \<open>orders_sql\<close> what the five statements do on it, \<open>buy\<close> the specification of an order.
    \<open>CreateOrder\<close> refines \<open>buy\<close>; reads through the cache (the locale \<open>product_cache\<close>) agree with the
    database; the statuses of the HTTP surface.
  \<^item> OrderRedis: reads and orders over the Redis cache, for every client within its contract.
  \<^item> OrderFaults: the same transaction on any driver within the contract, with failures anywhere.
  \<^item> OrderSystem: sequences of requests. \<open>respond\<close> specifies the HTTP surface on the tables alone; the
    service refines it, so the cache and the transactions are invisible. From it follow the
    conservation of stock between what the answers promised and what the database holds, current
    reads and well-typed rows and answers; overlapping a read with an order is not covered by that,
    and the last theorem there shows how the old row comes back.
  \<^item> OrderJson: the service on bytes. \<open>decodeJSON\<close> for the two request structs, the bodies \<open>writeJSON\<close>
    writes, cachekit's \<open>JSONCodec\<close>. Decoding is strict and reads what a client writes; the codec is a
    round trip, so the refinement of OrderSystem holds with the default codec and arbitrary bodies.
  \<^item> OrderConcurrency: orders that overlap. The transaction function is cut at its database calls
    (\<open>order_next\<close>, proved equal to \<open>place_order\<close>) and \<open>order_move\<close> interleaves any number of requests on
    a database that keeps the contract \<open>read_committed\<close>: row locks, statements that see the committed
    rows and the transaction's own writes, atomic commits. Overlapping orders are serial, do not
    oversell and do not deadlock. \<open>tables\<close> is a database that satisfies the contract.
  \<^item> App: examples/orders/main.go, the construction of the service.
  \<^item> AppLife: the service from start to exit. The connect and stop closures of the five components as
    each constructor passes them to its \<open>Lifecycle\<close> (\<open>lf_Start\<close>, \<open>lf_Stop\<close>, which agree with the atomic
    actions of theory Lifecycle), the resources they own (locale \<open>one_owner\<close>), tracing.go and \<open>main\<close>
    with its deferred flush (locale \<open>tracer_sdk\<close>).
  \<^item> this theory: the properties that span all components. Readiness of the built service, what it
    releases, and its exit status.

  How state and effects are modelled. Structs are records, options are functions on them, a closure's
  captured variables are explicit results, a mutex-protected operation is one step. A call that can
  fail returns a sum or an optional error next to its values, with the error texts of the source. A
  call that may not return is an action with the outcome \<open>Blocked\<close>; the theorems about services that
  must return state that they do. There is no fuel: every recursion is over a list or a number of
  remaining services or attempts. Clocks, random jitter, the choice of a \<open>select\<close> with several ready
  cases and the order in which goroutines report are universally quantified parameters. Strings are
  byte strings.

  Parameters for code outside the repository: pgx and pgxpool, go-redis, asynq, net/http's drain of
  connections, the slog handler, the meter, environment variables, PostgreSQL's locking between
  transactions, the OpenTelemetry SDK. What is relied on of each is the assumptions of a locale, which
  is interpreted on a concrete instance. Of the standard library three tables are parameters without
  assumptions or with a stated one: which runes beyond Latin-1 are printable (only in the text of an
  unknown field's error), \<open>time.Parse\<close> on texts that are not in the strict RFC 3339 form, and the offset
  of the local zone, which is taken to be in whole minutes.

  Not modelled: routing of requests by chi and its middlewares beyond their list, the reading of a
  request body from a connection that breaks (a body is the bytes that arrived), TLS settings, logging
  other than the entries named in the models.
  Concurrency is interleaved in Lifecycle, Runner, Health and OrderConcurrency; a database connection
  is used by one goroutine at a time, as pgx requires.
\<close>

section \<open>The orders service as a whole\<close>

text \<open>What the components of the built runner are, with the probes spelled out.\<close>

definition app_services ::
  "('p, 's) pgxpool \<Rightarrow> ('cl, 'u) redis \<Rightarrow> ('p, 'cl, 's, 'u) probes \<Rightarrow> 'w stops \<Rightarrow> 'w component list" where
  "app_services PP R pr st =
     [app_component ''postgres-db'' (stop_db st) (StandardChecks ''postgres-db'' (\<lambda>ctx now.
        case pr_pool pr of None \<Rightarrow> (Some (errors_New ''db is not initialized''), now)
        | Some p \<Rightarrow> (case pgxpool_Ping PP p ctx (now, pr_db pr) of (err, t, _) \<Rightarrow> (err, t)))),
      app_component ''redis-cache'' (stop_cache st) (StandardChecks ''redis-cache'' (\<lambda>ctx now.
        case pr_client pr of None \<Rightarrow> (Some (errors_New ''redis client is not initialized''), now)
        | Some c \<Rightarrow> (case redis_Ping R c ctx (now, pr_redis pr) of (err, t, _) \<Rightarrow> (err, t)))),
      app_component ''notification-client'' (stop_client st)
        (asynqHealthChecks ''notification-client'' (pr_pick pr) (pr_clientReady pr)),
      app_component ''notification-worker'' (stop_worker st)
        (asynqHealthChecks ''notification-worker'' (pr_pick pr) (pr_workerReady pr)),
      app_component ''orders-example'' (stop_http st) (StandardChecks ''orders-example'' (\<lambda>ctx now.
        case pr_httpReady pr of
          Some x \<Rightarrow> if x \<le> now then (None, now) else (Some (errors_New ''server not ready''), now)
        | None \<Rightarrow> (Some (errors_New ''server not ready''), now)))]"

definition app_endpoints :: "(string \<times> string) list" where
  "app_endpoints =
     [(''GET'', ''/health/liveness''), (''GET'', ''/health/readiness''), (''GET'', ''/health/startup''), (''GET'', ''/health''),
      (''POST'', ''/products''), (''GET'', ''/products/{id}''), (''POST'', ''/orders''), (''GET'', ''/orders/{id}'')]"

definition app_built where
  "app_built getenv PP R pr st = (\<lambda>(r, router, server).
     services r = app_services PP R pr st \<and> healthAggregator r = Some (NewAggregator 0) \<and> runner_logger r
     \<and> map (\<lambda>(m, p, h). (m, p)) (rt_routes router) = app_endpoints \<and> hs_handler server = router
     \<and> hc_Addr (hs_server server) = (if getenv ''HTTP_ADDR'' = [] then '':8080'' else getenv ''HTTP_ADDR''))"

lemmas app_defs =
  LoadConfig_def envOrDefault_def NewPostgresDB_def buildPoolConfig_def db_WithLogger_def
  NewRedisCache_def rc_WithPassword_def rc_WithLogger_def NewApplicationRunner_def WithLogger_def WithServices_def
  NewDefaultRouter_def Use_def MountHealthRoutes_def Get_route_def mount_Routes_def Routes_def NewHTTPServer_def
  hs_WithLogger_def NewAsynqClient_def NewAsynqServer_def as_HandleFunc_def ac_Name_def as_Name_def ac_HealthChecks_def
  as_HealthChecks_def HealthAggregator_def serviceName_def db_HealthChecks_def rc_HealthChecks_def hs_HealthChecks_def server_config_def

lemma run_app_runs:
  assumes "getenv ''DB_CONN_STR'' \<noteq> []" and "pgxpool_ParseConfig PP (getenv ''DB_CONN_STR'') = Inr config"
  shows "\<exists>x. run_app getenv None PP R pr st = Returned (Inr x) \<and> app_built getenv PP R pr st x"
  using assms by (simp add: run_app_def app_defs Let_def app_built_def app_services_def app_endpoints_def)

lemma run_app_ok:
  assumes "run_app getenv tracing PP R pr st = Returned (Inr x)"
  shows "tracing = None" "getenv ''DB_CONN_STR'' \<noteq> []" "\<exists>config. pgxpool_ParseConfig PP (getenv ''DB_CONN_STR'') = Inr config"
proof -
  show tr: "tracing = None" using assms by (auto simp: run_app_def split: sum.splits option.splits)
  show env: "getenv ''DB_CONN_STR'' \<noteq> []" using assms by (auto simp: run_app_def LoadConfig_def split: sum.splits)
  show "\<exists>config. pgxpool_ParseConfig PP (getenv ''DB_CONN_STR'') = Inr config"
    using assms tr env
    by (cases "pgxpool_ParseConfig PP (getenv ''DB_CONN_STR'')")
      (simp_all add: run_app_def LoadConfig_def NewPostgresDB_def buildPoolConfig_def db_WithLogger_def)
qed

lemma run_app_built:
  fixes x :: "('w, 'h) runner \<times> (unit, string) router \<times> (unit, string) router HTTPServer"
  assumes "run_app getenv tracing PP R pr st = Returned (Inr x)"
  shows "app_built getenv PP R pr st x"
proof -
  obtain config where "pgxpool_ParseConfig PP (getenv ''DB_CONN_STR'') = Inr config" using run_app_ok(3) [OF assms] by blast
  then obtain y :: "('w, 'h) runner \<times> (unit, string) router \<times> (unit, string) router HTTPServer"
    where "run_app getenv None PP R pr st = Returned (Inr y)" "app_built getenv PP R pr st y"
    using run_app_runs [where getenv = getenv and PP = PP, OF run_app_ok(2) [OF assms], of config R pr st] by blast
  with assms show ?thesis unfolding run_app_ok(1) [OF assms] by simp
qed

text \<open>A deployment in which everything is up, for the instances below.\<close>

definition up_env :: "string \<Rightarrow> string" where
  "up_env k = (if k = ''DB_CONN_STR'' then ''postgres://db'' else [])"

definition up_probes :: "(nat, nat, pools_state, redis_state) probes" where
  "up_probes =
     \<lparr>pr_pool = Some 0, pr_db = \<lparr>ps_open = {#0#}, ps_made = 1\<rparr>, pr_client = Some 0,
      pr_redis = \<lparr>rs_up = True, rs_next = 1, rs_open = {#0#}, rs_data = (\<lambda>_. None)\<rparr>,
      pr_pick = True, pr_clientReady = Some 0, pr_workerReady = Some 0, pr_httpReady = Some 0\<rparr>"

definition quiet_stops :: "unit stops" where
  "quiet_stops = (let s = (\<lambda>ctx now w. (None, now, w))
     in \<lparr>stop_db = s, stop_cache = s, stop_client = s, stop_worker = s, stop_http = s\<rparr>)"

lemma up_app:
  obtains r :: "(unit, unit) runner" and router server
  where "run_app up_env None (ref_pgxpool 0) ref_redis up_probes quiet_stops = Returned (Inr (r, router, server))"
proof -
  have "up_env ''DB_CONN_STR'' \<noteq> []"
    "pgxpool_ParseConfig (ref_pgxpool 0) (up_env ''DB_CONN_STR'') = Inr \<lparr>pc_connStr = ''postgres://db'', pc_MaxConns = 4, pc_MinConns = 0\<rparr>"
    by (simp_all add: up_env_def ref_pgxpool_def)
  from run_app_runs [where getenv = up_env and PP = "ref_pgxpool 0", OF this, of ref_redis up_probes quiet_stops]
  show thesis using that by auto
qed

text \<open>
  The service is built or refused before anything is started. \<open>run\<close> fails exactly when
  the connection string is missing, when tracing cannot be set up, or when the connection string
  does not parse, and never panics; otherwise the HTTP server serves the four health endpoints and
  the four application routes on the configured address, with the default of port 8080.
\<close>

theorem app_construction:
  "case run_app getenv tracing PP R pr (st :: 'w stops)
     :: (go_error + ('w, 'h) runner \<times> (unit, string) router \<times> (unit, string) router HTTPServer) outcome of
     Returned (Inl e) \<Rightarrow>
       if getenv ''DB_CONN_STR'' = [] then e = errors_New ''DB_CONN_STR is required''
       else case tracing of
         Some e' \<Rightarrow> e = e'
       | None \<Rightarrow> (\<exists>e'. pgxpool_ParseConfig PP (getenv ''DB_CONN_STR'') = Inl e'
             \<and> e = wrapf ''failed to parse connection string'' e')
   | Returned (Inr (r, router, server)) \<Rightarrow>
       getenv ''DB_CONN_STR'' \<noteq> [] \<and> tracing = None
       \<and> (\<exists>config. pgxpool_ParseConfig PP (getenv ''DB_CONN_STR'') = Inr config)
       \<and> hs_handler server = router
       \<and> hc_Addr (hs_server server) = (if getenv ''HTTP_ADDR'' = [] then '':8080'' else getenv ''HTTP_ADDR'')
       \<and> map (\<lambda>(m, p, h). (m, p)) (rt_routes router) = app_endpoints
   | _ \<Rightarrow> False"
proof (cases "getenv ''DB_CONN_STR'' = [] \<or> tracing \<noteq> None")
  case True
  then show ?thesis by (auto simp: run_app_def LoadConfig_def)
next
  case False
  show ?thesis
  proof (cases "pgxpool_ParseConfig PP (getenv ''DB_CONN_STR'')")
    case (Inl e)
    with False show ?thesis
      by (simp add: run_app_def LoadConfig_def NewPostgresDB_def buildPoolConfig_def db_WithLogger_def)
  next
    case (Inr config)
    from False have env: "getenv ''DB_CONN_STR'' \<noteq> []" and tr: "tracing = None" by simp_all
    obtain x where x: "(run_app getenv tracing PP R pr st :: (go_error + ('w, 'h) runner \<times> _) outcome) = Returned (Inr x)"
      "app_built getenv PP R pr st x"
      using run_app_runs [where getenv = getenv and PP = PP, OF env Inr, of R pr st] unfolding tr by blast
    then show ?thesis using env Inr tr by (auto simp: app_built_def split: prod.splits)
  qed
qed

text \<open>
  The service shuts down from the outside in: the HTTP server stops before the worker, the
  task client, the cache and, last, the database they all use, whatever the stops do and however
  many of them fail; every failure is logged.
\<close>

theorem app_shutdown:
  assumes "run_app getenv tracing PP R pr st = Returned (Inr (r, router, server))"
    and "shutdownOrchestrator (traced_runner r) ctx now (w, []) h = (errs, logs, t, (w', calls), h')"
  shows "map sc_name calls = [''orders-example'', ''notification-worker'', ''notification-client'', ''redis-cache'', ''postgres-db'']
    \<and> logs = stop_errors calls"
proof -
  have r: "services r = app_services PP R pr st" "runner_logger r" using run_app_built [OF assms(1)] by (simp_all add: app_built_def)
  from assms(2) have run: "shutdown_loop (traced_runner r) ctx (length (services r)) (shutdownTimeout r) now (w, []) h
      = (errs, logs, t, (w', calls), h')"
    by (simp add: shutdownOrchestrator_def)
  from shutdown_loop_trace [OF order_refl run] have "map sc_name calls = rev (map svc_Name (services r))" "logs = stop_errors calls"
    using r(2) by auto
  then show ?thesis by (simp add: r(1) app_services_def app_component_def)
qed

theorem app_shutdown_witness:
  "\<exists>(r :: (unit, unit) runner) router server errs logs t w' calls h'.
     run_app up_env None (ref_pgxpool 0) ref_redis up_probes quiet_stops = Returned (Inr (r, router, server))
     \<and> shutdownOrchestrator (traced_runner r) Background 0 ((), []) () = (errs, logs, t, (w', calls), h')
     \<and> map sc_name calls = [''orders-example'', ''notification-worker'', ''notification-client'', ''redis-cache'', ''postgres-db'']"
proof -
  obtain r :: "(unit, unit) runner" and router server
    where r: "run_app up_env None (ref_pgxpool 0) ref_redis up_probes quiet_stops = Returned (Inr (r, router, server))"
    using up_app .
  obtain errs logs t w' calls h' where
    run: "shutdownOrchestrator (traced_runner r) Background 0 ((), []) () = (errs, logs, t, (w', calls), h')"
    by (metis prod.exhaust)
  note order = conjunct1 [OF app_shutdown [OF r run]]
  show ?thesis by (intro exI conjI) (rule r, rule run, rule order)
qed

text \<open>
  C32: the readiness probe means that every dependency answers: with the wiring \<open>Run\<close> does, the
  readiness checks all pass exactly when the pool is there and answers a ping, the Redis client is
  there and answers a ping, the task client and the worker become ready within the check's
  two seconds, and the HTTP server is serving. Liveness depends on none of them.
\<close>

theorem app_readiness:
  assumes "run_app getenv tracing PP R pr st = Returned (Inr (r, router, server))"
    and "healthWiring r = Returned r'" and "healthAggregator r' = Some agg"
  shows "(all_pass ctx now (agg_checks agg Readiness) \<longleftrightarrow>
      (let c = WithTimeout ctx now (2 * Second) in
        (\<exists>p. pr_pool pr = Some p \<and> fst (pgxpool_Ping PP p c (now, pr_db pr)) = None)
        \<and> (\<exists>cl. pr_client pr = Some cl \<and> fst (redis_Ping R cl c (now, pr_redis pr)) = None)
        \<and> (\<exists>t. WaitReady (pr_pick pr) c (pr_clientReady pr) now = Returned (None, t))
        \<and> (\<exists>t. WaitReady (pr_pick pr) c (pr_workerReady pr) now = Returned (None, t))
        \<and> (\<exists>x. pr_httpReady pr = Some x \<and> x \<le> now)))
    \<and> all_pass ctx now (agg_checks agg Liveness)"
proof -
  have r: "services r = app_services PP R pr st" "healthAggregator r = Some (NewAggregator 0)"
    using run_app_built [OF assms(1)] by (simp_all add: app_built_def)
  have agg: "agg_checks agg k = map with_default_timeout
      (filter (\<lambda>c. check_Kind c = k) (concat (List.map_filter svc_Checks (app_services PP R pr st))))" for k
    using assms(2,3) r by (auto simp: healthWiring_def wiring_fold SetHook_def NewAggregator_def)
  show ?thesis
    unfolding agg
    by (auto simp: app_services_def app_component_def asynqHealthChecks_def StandardChecks_def List.map_filter_def
        with_default_timeout_def all_pass_def Let_def Second_def split: option.splits prod.splits outcome.splits if_splits)
qed

theorem app_readiness_witness:
  "\<exists>(r :: (unit, unit) runner) router server r' agg.
     run_app up_env None (ref_pgxpool 0) ref_redis up_probes quiet_stops = Returned (Inr (r, router, server))
     \<and> healthWiring r = Returned r' \<and> healthAggregator r' = Some agg \<and> all_pass Background 5 (agg_checks agg Readiness)"
proof -
  obtain r :: "(unit, unit) runner" and router server
    where r: "run_app up_env None (ref_pgxpool 0) ref_redis up_probes quiet_stops = Returned (Inr (r, router, server))"
    using up_app .
  have "healthAggregator r = Some (NewAggregator 0)" using run_app_built [OF r] by (simp add: app_built_def)
  then obtain r' agg where h: "healthWiring r = Returned r'" "healthAggregator r' = Some agg"
    by (simp add: healthWiring_def)
  have "all_pass Background 5 (agg_checks agg Readiness)"
    using app_readiness [OF r h, of Background 5]
    by (simp add: up_probes_def ref_pgxpool_def ref_redis_def rs_fail_def WaitReady_def select2_def done_time_def
        WithTimeout_def Background_def ctx_Err_def Second_def Let_def)
  with r h show ?thesis by blast
qed

section \<open>From start to exit\<close>

lemma app_never_panics:
  "(run_app getenv tracing PP R pr st :: (go_error + ('w, 'h) runner \<times> _) outcome) \<noteq> Panicked p"
  "(run_app getenv tracing PP R pr st :: (go_error + ('w, 'h) runner \<times> _) outcome) \<noteq> Blocked"
  by (auto simp: run_app_def NewDefaultRouter_def NewApplicationRunner_def WithLogger_def WithServices_def HealthAggregator_def
      Let_def split: sum.splits option.splits prod.splits)

lemma run_app_deadline: "run_app getenv tracing PP R pr st = Returned (Inr (r, router, server)) \<Longrightarrow> startDeadline r = 0"
  by (auto simp: run_app_def NewApplicationRunner_def WithLogger_def WithServices_def Let_def
      split: sum.splits option.splits prod.splits outcome.splits)

lemma Run_wiring: "healthWiring r = Returned r' \<Longrightarrow> services r' = services r"
  by (auto simp: healthWiring_def split: option.splits)

lemma app_stops_are_lifecycles:
  assumes "services r = app_services PP R pr life_stops"
  shows "map svc_Stop (services r) = map life_Stop [0..<5]"
  by (simp add: assms app_services_def app_component_def life_stops_def upt_rec eval_nat_numeral)

text \<open>
  C7: the service gives back what it acquired. Whichever components were started, in whatever
  order, each of them at most once and with any number of failed attempts, once \<open>Run\<close> has returned
  the open pools and the open Redis clients are those from before the start, and stopping any
  component again does nothing.
\<close>

theorem app_releases:
  fixes x :: "('s, 'u, 'q) ext"
  assumes "pool_driver (pt_pgx pt) pools" and "redis_server (pt_redis pt) store clients"
    and "run_app getenv None (pt_pgx pt) (pt_redis pt) pr life_stops = Returned (Inr (r, router, server))"
    and "distinct (map ev_index evs)" and "Run_returns r ctx (app_Starts pt evs x) h s res t w' h'"
  shows "pools (x_db (aw_ext w')) = pools (x_db x) \<and> clients (x_redis (aw_ext w')) = clients (x_redis x)
    \<and> (\<forall>i < 5. \<forall>c n. life_Stop i c n w' = (None, n, w'))"
proof -
  note db = db_owner [OF assms(1)] and redis = redis_owner [OF assms(2)]
  let ?P = "\<lambda>w :: ('s, 'u, 'q) ext app_world. one_owner.accounted_for x_db pools 0 (pools (x_db x)) w
    \<and> one_owner.accounted_for x_redis clients 1 (clients (x_redis x)) w"
  have starts: "app_Starts pt evs x = fold (\<lambda>ev. life_Start (ev_index ev) (app_Connect pt ev) (ev_ctx ev) (ev_now ev)) evs
      \<lparr>aw_life = (\<lambda>_. new_life), aw_ext = x\<rparr>"
    unfolding app_Starts_def app_Start_def ..
  have init: "?P (app_Starts pt evs x)"
    unfolding starts
    by (intro conjI one_owner.starts_accounted [OF db assms(4)] one_owner.starts_accounted [OF redis assms(4)]
        one_owner.fresh_accounted [OF db] one_owner.fresh_accounted [OF redis]) (simp_all add: new_life_def)
  have step: "?P v'" if "?P v" "life_Stop i c n v = (e, n', v')" for i c n v e n' v'
    using that one_owner.stop_any [OF db _ that(2)] one_owner.stop_any [OF redis _ that(2)] by blast
  have "?P w' \<and> (\<forall>i < 5. lf_stopped (aw_life w' i))"
    using assms(5)
  proof cases
    case (Run r' now ds h1 errs logs)
    have "services r' = app_services (pt_pgx pt) (pt_redis pt) pr life_stops"
      using Run_wiring [OF Run(2)] run_app_built [OF assms(3)] by (simp add: app_built_def)
    then show ?thesis
      by (rule life_shutdown [where P = ?P, OF app_stops_are_lifecycles _ init Run(8)]) (rule step)
  qed
  then show ?thesis
    using one_owner.stopped_released [OF db] one_owner.stopped_released [OF redis] life_Stop_again by (metis one_less_numeral_iff semiring_norm(77) zero_less_numeral)
qed

text \<open>A deployment in which the pool comes up at the second attempt and all five components start.\<close>

definition demo_parts :: "(nat, pools_state, nat, redis_state, (task \<times> asynq_option list) list, unit) parts" where
  "demo_parts =
     \<lparr>pt_pgx = ref_pgxpool 1, pt_config = \<lparr>pc_connStr = ''c'', pc_MaxConns = 4, pc_MinConns = 0\<rparr>,
      pt_db = counter_component\<lparr>db_pool := None, db_retryAttempts := 3, db_retryBackoff := 10\<rparr>,
      pt_redis = ref_redis, pt_cache = pen_client\<lparr>rc_client := None\<rparr>, pt_asynq = ref_asynq 3,
      pt_http = \<lparr>hs_name = ''orders-example'', hs_addr = '':8080'', hs_handler = (), hs_listener = None, hs_logger = True,
        hs_readHeaderTimeout = 0, hs_readTimeout = 0, hs_writeTimeout = 0, hs_idleTimeout = 0, hs_maxHeaderBytes = 0,
        hs_server = \<lparr>hc_Addr = [], hc_ReadHeaderTimeout = 0, hc_ReadTimeout = 0, hc_WriteTimeout = 0,
                     hc_IdleTimeout = 0, hc_MaxHeaderBytes = 0\<rparr>\<rparr>,
      pt_listen = Inr, pt_drain = 2\<rparr>"

definition demo_ext :: "(pools_state, redis_state, (task \<times> asynq_option list) list) ext" where
  "demo_ext =
     \<lparr>x_db = \<lparr>ps_open = {#}, ps_made = 0\<rparr>,
      x_redis = \<lparr>rs_up = True, rs_next = 0, rs_open = {#}, rs_data = (\<lambda>_. None)\<rparr>, x_asynq = [], x_log = []\<rparr>"

definition demo_start :: "nat \<Rightarrow> start_event" where
  "demo_start i = \<lparr>ev_index = i, ev_ctx = Background, ev_now = 0, ev_rand = (\<lambda>_ _. None), ev_pick = (\<lambda>_. True)\<rparr>"

interpretation demo_pools: one_owner "app_Connect demo_parts" x_db ps_open 0
  by (rule db_owner) (simp add: demo_parts_def refpool.pool_driver_axioms)

interpretation demo_clients: one_owner "app_Connect demo_parts" x_redis rs_open 1
  by (rule redis_owner [where store = rs_store]) (simp add: demo_parts_def ref.redis_server_axioms)

lemma demo_started:
  "ps_open (x_db (aw_ext (app_Starts demo_parts (map demo_start [4, 3, 2, 1, 0]) demo_ext))) = {#1#}"
  by code_simp

theorem app_releases_witness:
  "\<exists>(r :: ((pools_state, redis_state, (task \<times> asynq_option list) list) ext app_world, unit) runner) router server s res t w' h'.
     run_app up_env None (ref_pgxpool 1) ref_redis up_probes life_stops = Returned (Inr (r, router, server))
     \<and> Run_returns r Background (app_Starts demo_parts (map demo_start [4, 3, 2, 1, 0]) demo_ext) () s res t w' h'
     \<and> ps_open (x_db (aw_ext (app_Starts demo_parts (map demo_start [4, 3, 2, 1, 0]) demo_ext))) = {#1#}
     \<and> ps_open (x_db (aw_ext w')) = {#} \<and> rs_open (x_redis (aw_ext w')) = {#}"
proof -
  have env: "up_env ''DB_CONN_STR'' \<noteq> []"
    "pgxpool_ParseConfig (ref_pgxpool 1) (up_env ''DB_CONN_STR'') = Inr \<lparr>pc_connStr = ''postgres://db'', pc_MaxConns = 4, pc_MinConns = 0\<rparr>"
    by (simp_all add: up_env_def ref_pgxpool_def)
  obtain r :: "((pools_state, redis_state, (task \<times> asynq_option list) list) ext app_world, unit) runner" and router server
    where r: "run_app up_env None (ref_pgxpool 1) ref_redis up_probes life_stops = Returned (Inr (r, router, server))"
      "app_built up_env (ref_pgxpool 1) ref_redis up_probes life_stops (r, router, server)"
    using run_app_runs [where getenv = up_env and PP = "ref_pgxpool 1", OF env, of ref_redis up_probes life_stops] by auto
  let ?w = "app_Starts demo_parts (map demo_start [4, 3, 2, 1, 0]) demo_ext"
  have "healthAggregator r \<noteq> None" "startDeadline r \<le> 0"
    using r(2) run_app_deadline [OF r(1)] by (simp_all add: app_built_def)
  from Run_can_return [OF this, of ?w "()"]
  obtain s res t w' h' where run: "Run_returns r Background ?w () s res t w' h'" by (elim exE)
  have pt: "pool_driver (pt_pgx demo_parts) ps_open" "redis_server (pt_redis demo_parts) rs_store rs_open"
    "run_app up_env None (pt_pgx demo_parts) (pt_redis demo_parts) up_probes life_stops = Returned (Inr (r, router, server))"
    "distinct (map ev_index (map demo_start [4, 3, 2, 1, 0]))"
    using r(1) by (simp_all add: demo_parts_def demo_start_def refpool.pool_driver_axioms ref.redis_server_axioms)
  from app_releases [OF pt run] have "ps_open (x_db (aw_ext w')) = {#}" "rs_open (x_redis (aw_ext w')) = {#}"
    by (simp_all add: demo_ext_def)
  with r(1) run demo_started show ?thesis by blast
qed

lemma run_body_returns:
  fixes Run :: "('w, 'h) runner \<Rightarrow> int \<times> 'o \<Rightarrow> go_error option \<times> int \<times> 'o"
  assumes "\<And>r v. providers (snd (snd (Run r v))) = providers (snd v)"
  shows "\<exists>err w2. run_body getenv PP R pr st Run w = (Returned err, w2) \<and> providers (snd w2) = providers (snd w)
    \<and> (err = None \<longleftrightarrow> (\<exists>r router server. run_app getenv None PP R pr st = Returned (Inr (r, router, server)) \<and> fst (Run r w) = None))"
proof (cases "run_app getenv None PP R pr st :: (go_error + ('w, 'h) runner \<times> _) outcome")
  case (Returned y)
  show ?thesis
  proof (cases y)
    case (Inr z)
    obtain r router server where z: "z = (r, router, server)" by (metis prod.exhaust)
    obtain e v where "Run r w = (e, v)" by (rule prod.exhaust)
    with Returned Inr z assms [of r w] show ?thesis by (simp add: run_body_def)
  qed (use Returned in \<open>simp add: run_body_def\<close>)
qed (use app_never_panics in \<open>blast+\<close>)

text \<open>
  C33: the exit status tells whether the service ran, and the tracer is always flushed. \<open>main\<close>
  exits with status 0 exactly when tracing could be set up, the service could be built and \<open>Run\<close>
  returned nil, and with 1 otherwise; a failing flush changes neither. Whatever went wrong, no
  tracer provider is left that was not there before.
\<close>

theorem main_exits:
  fixes Run :: "('w, 'h) runner \<Rightarrow> int \<times> 'o \<Rightarrow> go_error option \<times> int \<times> 'o"
  assumes "tracer_sdk T providers" and "\<And>r v. providers (snd (snd (Run r v))) = providers (snd v)"
  shows "\<exists>code logs w'. main T getenv PP R pr st Run w = (Returned (code, logs), w')
    \<and> providers (snd w') = providers (snd w) \<and> code \<le> 1
    \<and> (code = 0 \<longleftrightarrow> (\<exists>f o1 r router server. setupTracing T serviceName (snd w) = (Inr f, o1)
          \<and> run_app getenv None PP R pr st = Returned (Inr (r, router, server)) \<and> fst (Run r (fst w, o1)) = None))"
proof -
  obtain x o1 where x: "setupTracing T serviceName (snd w) = (x, o1)" by (rule prod.exhaust)
  note set = tracer_sdk.setup_live [OF assms(1) x]
  show ?thesis
  proof (cases "LoadConfig getenv")
    case (Inl err)
    then show ?thesis
      by (auto simp: main_def run_traced_def act_bind_def run_app_def)
  next
    case (Inr cfg)
    show ?thesis
    proof (cases x)
      case (Inl err)
      with x set Inr show ?thesis by (auto simp: main_def run_traced_def act_bind_def)
    next
      case tracer: (Inr f)
      then obtain tp where tp: "f = tp_Shutdown T tp" "providers o1 = add_mset tp (providers (snd w))" using set by auto
      obtain err w2 where body: "run_body getenv PP R pr st Run (fst w, o1) = (Returned err, w2)"
        "providers (snd w2) = providers o1"
        "err = None \<longleftrightarrow> (\<exists>r router server. run_app getenv None PP R pr st = Returned (Inr (r, router, server)) \<and> fst (Run r (fst w, o1)) = None)"
        using run_body_returns [where Run = Run and providers = providers and getenv = getenv and PP = PP and R = R
            and pr = pr and st = st and w = "(fst w, o1)", OF assms(2)] unfolding snd_conv by blast
      obtain logs w3 where fl: "flush_traces f w2 = (logs, w3)" by (rule prod.exhaust)
      have "providers (snd w3) = providers (snd w)"
        using tracer_sdk.flush_live [OF assms(1) fl [unfolded tp(1)]] tp(2) body(2) by simp
      moreover have "run_traced T getenv PP R pr st Run w = (Returned (err, logs), w3)"
        using Inr x tracer body(1) fl by (simp add: run_traced_def)
      ultimately show ?thesis
        using x tracer body(3) by (cases err) (auto simp: main_def act_bind_def)
    qed
  qed
qed

text \<open>A reference SDK that numbers its providers, and a service whose \<open>Run\<close> fails.\<close>

definition ref_otel :: "(unit, string, nat, nat multiset \<times> nat) otel_sdk" where
  "ref_otel =
     \<lparr>stdouttrace_New = (\<lambda>o'. (Inr (), o')), resource_Merge = Inr,
      NewTracerProvider = (\<lambda>ex rs o'. (snd o', add_mset (snd o') (fst o'), Suc (snd o'))), SetTracerProvider = (\<lambda>tp o'. o'),
      tp_Shutdown = (\<lambda>tp ctx w. (Some (errors_New ''exporter closed''), fst w, fst (snd w) - {#tp#}, snd (snd w)))\<rparr>"

interpretation refotel: tracer_sdk ref_otel fst
  by unfold_locales (auto simp: ref_otel_def)

theorem main_exits_witness:
  "\<exists>logs w'. main ref_otel up_env (ref_pgxpool 0) ref_redis up_probes quiet_stops
       (\<lambda>(r :: (unit, unit) runner) v. (Some (errors_New ''address in use''), v)) (0, {#}, 0) = (Returned (1, logs), w')
     \<and> fst (snd w') = {#}"
proof -
  let ?Run = "\<lambda>(r :: (unit, unit) runner) (v :: int \<times> nat multiset \<times> nat). (Some (errors_New ''address in use''), v)"
  obtain code logs w' where m: "main ref_otel up_env (ref_pgxpool 0) ref_redis up_probes quiet_stops ?Run (0, {#}, 0) = (Returned (code, logs), w')"
    "fst (snd w') = {#}" "code \<le> 1" "code \<noteq> 0"
    using main_exits [where T = ref_otel and providers = fst and Run = ?Run and getenv = up_env and PP = "ref_pgxpool 0" and R = ref_redis
        and pr = up_probes and st = quiet_stops and w = "(0, {#}, 0)", OF refotel.tracer_sdk_axioms] by auto
  then have "code = 1" by simp
  with m(1,2) show ?thesis by blast
qed

end
